(* ===== verification/KC_Prelude.thy ===== *)
theory KC_Prelude
  imports Main "HOL-Library.Word" "HOL-Library.List_Lexorder" "HOL-Library.Char_ord"
    "HOL-Library.Multiset"
begin

text \<open>
  Shared vocabulary of the keychain development: the Go types the sources use (strings, byte
  slices, fixed-width integers, times, nil-able maps and pointers), the error values of the
  packages, and the generic lemmas on sorted lists, options and words that the component
  theories rely on.

  Conventions.
  \<^item> A Go \<open>string\<close> is a byte sequence: Isabelle's \<^typ>\<open>string\<close> (a list of 8-bit characters), compared
    lexicographically by byte, as Go's \<open><\<close> on strings is.
  \<^item> A Go slice is a list. A nil slice and an empty slice are identified: no code under
    verification can tell them apart except \<open>nonNilStrings\<close> of the Postgres driver, which is
    modelled at an option type of its own.
  \<^item> A pointer that may be nil, and a map that may be nil, is an option.
  \<^item> \<open>time.Time\<close> is the number of nanoseconds since the Unix epoch (UTC).
\<close>

section \<open>Go types\<close>

type_synonym byte = "8 word"
type_synonym bytes = "8 word list"
type_synonym int32 = "32 word"
type_synonym int64 = "64 word"
type_synonym gotime = int
type_synonym gomap = "(string \<rightharpoonup> string) option"

text \<open>The zero \<open>time.Time\<close>: January 1 of year 1.\<close>

definition zero_time :: gotime where
  "zero_time = -62135596800000000000"

named_theorems go_defs \<open>definitions of the Go helpers that proofs unfold\<close>
named_theorems store_ops_simps \<open>operations of a store driver, unfolded\<close>

text \<open>The bytes of a string, and the string made of bytes (\<open>[]byte(s)\<close> and \<open>string(b)\<close>).\<close>

definition string_bytes :: "string \<Rightarrow> bytes" where
  "string_bytes s = map (\<lambda>c. of_nat (of_char c)) s"

definition bytes_string :: "bytes \<Rightarrow> string" where
  "bytes_string b = map (\<lambda>w. char_of (unat w)) b"

lemma char_of_byte [simp]: "char_of (unat (of_nat (of_char c) :: byte)) = (c :: char)"
proof -
  have "(of_char c :: nat) mod 256 = of_char c" by (rule of_char_mod_256)
  then show ?thesis by (simp add: unat_of_nat)
qed

lemma byte_mod_256 [simp]: "of_nat (unat w mod 256) = (w :: byte)"
proof -
  have "unat w < 256" using unsigned_less [of w, where ?'a = nat] by simp
  then show ?thesis by simp
qed

lemma bytes_string_bytes [simp]: "bytes_string (string_bytes s) = s"
  by (induction s) (simp_all add: bytes_string_def string_bytes_def)

lemma string_bytes_string [simp]: "string_bytes (bytes_string b) = b"
  by (induction b) (simp_all add: bytes_string_def string_bytes_def)

lemma bytes_string_inject [simp]: "bytes_string a = bytes_string b \<longleftrightarrow> a = b"
  by (metis string_bytes_string)

lemma length_string_bytes [simp]: "length (string_bytes s) = length s"
  by (simp add: string_bytes_def)

lemma string_bytes_append [simp]: "string_bytes (s @ t) = string_bytes s @ string_bytes t"
  by (simp add: string_bytes_def)

lemma string_bytes_inject [simp]: "string_bytes a = string_bytes b \<longleftrightarrow> a = b"
  by (metis bytes_string_bytes)

section \<open>Machine integers\<close>

text \<open>
  A positive signed word can be decremented without wrapping: the fact that keeps
  \<open>RemainingUses--\<close> inside \<open>int64\<close>.
\<close>

lemma sint_dec_pos:
  fixes w :: "'a::len word"
  assumes "0 < sint w"
  shows "sint (w - 1) = sint w - 1"
proof -
  let ?n = "LENGTH('a) - 1"
  have lo: "- (2 ^ ?n) \<le> sint w - 1" using assms by (smt (verit) zero_le_power)
  have hi: "sint w - 1 < 2 ^ ?n" using sint_less [of w] by simp
  have "1 < LENGTH('a)"
  proof (rule ccontr)
    assume "\<not> 1 < LENGTH('a)"
    then have "?n = 0" by linarith
    then have "sint w < 1" using sint_less [of w] by (simp del: diff_is_0_eq diff_is_0_eq')
    with assms show False by simp
  qed
  then have "sint (1 :: 'a word) = 1" by simp
  then have "sint (w - 1) = signed_take_bit ?n (sint w - 1)"
    by (simp add: sint_word_ariths)
  also have "\<dots> = sint w - 1"
    using lo hi by (simp add: signed_take_bit_int_eq_self)
  finally show ?thesis .
qed

lemma sint_pos_induct_bound: "0 < sint (w :: int64) \<Longrightarrow> 0 \<le> sint (w - 1)"
  by (simp add: sint_dec_pos)

section \<open>Errors\<close>

text \<open>
  The sentinels of package store (\<open>errors.New\<close> values, compared by identity) and the error
  values built from them: \<open>fmt.Errorf\<close> with \<open>%w\<close> wraps (format string, the \<open>%q\<close> argument if
  any, the wrapped error), every other error is opaque to the callers.
\<close>

datatype sentinel = ErrNotFound | ErrConflict | ErrDepleted

datatype goerr =
    Sentinel sentinel
  | Wrapf string "string option" goerr
  | Opaque string

text \<open>\<open>errors.Is\<close>: the target is somewhere on the chain of wrapped errors.\<close>

fun errors_Is :: "goerr \<Rightarrow> sentinel \<Rightarrow> bool" where
  "errors_Is (Sentinel s) t \<longleftrightarrow> s = t"
| "errors_Is (Wrapf f a e) t \<longleftrightarrow> errors_Is e t"
| "errors_Is (Opaque m) t \<longleftrightarrow> False"

lemma errors_Is_unique: "errors_Is e s \<Longrightarrow> errors_Is e t \<Longrightarrow> s = t"
  by (induction e) auto

section \<open>Sorted lists and searching\<close>

lemma strict_sorted_takeWhile_drop:
  fixes xs :: "'a::linorder list"
  assumes "sorted xs"
  shows "filter (\<lambda>x. t < x) xs = dropWhile (\<lambda>x. x \<le> t) xs"
  using assms
proof (induction xs)
  case Nil
  then show ?case by simp
next
  case (Cons x xs)
  show ?case
  proof (cases "x \<le> t")
    case True
    with Cons show ?thesis by simp
  next
    case False
    with Cons.prems have "\<forall>y \<in> set xs. t < y" by auto
    then have "filter ((<) t) xs = xs" by (simp add: filter_id_conv)
    with False show ?thesis by simp
  qed
qed

lemma sorted_key_filter_gt:
  assumes "sorted (map f xs)"
  shows "filter (\<lambda>x. t < f x) xs = dropWhile (\<lambda>x. f x \<le> t) xs"
  using assms
proof (induction xs)
  case Nil
  then show ?case by simp
next
  case (Cons x xs)
  show ?case
  proof (cases "f x \<le> t")
    case True
    with Cons show ?thesis by simp
  next
    case False
    with Cons.prems have "\<forall>y \<in> set xs. t < f y" by auto
    then have "filter (\<lambda>x. t < f x) xs = xs" by (simp add: filter_id_conv)
    with False show ?thesis by simp
  qed
qed

text \<open>Two sorted arrangements of the same distinct elements, under an injective key, agree.\<close>

lemma sort_key_perm_eq:
  assumes "distinct xs" "distinct ys" "set xs = set ys" "inj_on f (set xs)"
  shows "sort_key f xs = sort_key f ys"
proof (rule map_inj_on [where f = f])
  have "mset xs = mset ys" using assms(1-3) by (simp add: set_eq_iff_mset_eq_distinct)
  then have "mset (map f (sort_key f xs)) = mset (map f (sort_key f ys))" by simp
  then show "map f (sort_key f xs) = map f (sort_key f ys)"
    by (metis properties_for_sort sorted_sort_key)
  show "inj_on f (set (sort_key f xs) \<union> set (sort_key f ys))"
    using assms(3,4) by simp
qed

text \<open>How an update changes the number of elements with a property.\<close>

lemma length_filter_update:
  "t < length xs \<Longrightarrow>
   int (length (filter P (xs[t := x]))) = int (length (filter P xs)) + of_bool (P x) - of_bool (P (xs ! t))"
proof (induction xs arbitrary: t)
  case (Cons y ys)
  then show ?case by (cases t) auto
qed simp

lemma list_all_update: "list_all P xs \<Longrightarrow> P x \<Longrightarrow> list_all P (xs[t := x])"
  using set_update_subset_insert [of xs t x] by (auto simp: list_all_iff)

lemma sort_key_map: "sort_key f (map g xs) = map g (sort_key (\<lambda>x. f (g x)) xs)"
proof -
  have "insort_key f (g x) (map g ys) = map g (insort_key (\<lambda>x. f (g x)) x ys)" for x ys
    by (induction ys) auto
  then show ?thesis by (induction xs) auto
qed

end
