(* ===== verification/KC_Store.thy ===== *)
theory KC_Store
  imports KC_Prelude
begin

text \<open>
  Package \<open>keychainserver/store\<close>: the persisted records, the \<open>Store\<close> interface and its contract.

  The Go interface is a record of functions over a driver's state \<open>'s\<close>. Each method also takes
  what its environment supplies during that call, of the driver's own type \<open>'e\<close>: the reading of
  the clock, the identifier the uuid package returned, the order in which a map is ranged over,
  the faults of a database. Every method of every driver reads the clock and the uuid source at
  most once, so one reading per call is enough.

  The contract is the locale \<open>store_contract\<close>. It describes a driver by a view of its state, the
  records the read methods return, and gives each method's result and effect on that view. The
  drivers prove the laws by interpreting the locale; the service and the conformance suite are
  verified against the laws alone.
\<close>

section \<open>Persisted records\<close>

record Workspace =
  w_WorkspaceID :: string
  w_Name :: string
  w_OwnerPrincipalID :: string
  w_CreatedAt :: gotime
  w_UpdatedAt :: gotime
  w_Metadata :: gomap

record API =
  a_APIID :: string
  a_WorkspaceID :: string
  a_Name :: string
  a_KeyPrefix :: string
  a_CreatedAt :: gotime
  a_UpdatedAt :: gotime
  a_Metadata :: gomap

record LimitRef =
  lr_LimitID :: string
  lr_ScopeKey :: string

record Key =
  k_KeyID :: string
  k_APIID :: string
  k_WorkspaceID :: string
  k_OwnerPrincipalID :: string
  k_Name :: string
  k_KeyHash :: bytes
  k_Permissions :: "string list"
  k_LimitRefs :: "LimitRef list"
  k_ExpiresAt :: "gotime option"
  k_RemainingUses :: int64
  k_Enabled :: bool
  k_CreatedAt :: gotime
  k_UpdatedAt :: gotime
  k_LastVerifiedAt :: "gotime option"
  k_Metadata :: gomap

record ListKeysOpts =
  o_APIID :: string
  o_OwnerPrincipalID :: string
  o_PageSize :: int32
  o_PageToken :: string

record ListKeysResult =
  r_Keys :: "Key list"
  r_NextPageToken :: string

section \<open>The Store interface\<close>

text \<open>
  One field per method. A method that returns \<open>(T, error)\<close> returns \<^typ>\<open>goerr + 'a\<close>;
  \<open>DecrementRemainingUses\<close> keeps both Go results, because it reports the remaining count next to
  \<open>ErrDepleted\<close>.
\<close>

record ('e, 's) Store =
  CreateWorkspace :: "'e \<Rightarrow> 's \<Rightarrow> Workspace \<Rightarrow> (goerr + Workspace) \<times> 's"
  GetWorkspace :: "'e \<Rightarrow> 's \<Rightarrow> string \<Rightarrow> (goerr + Workspace) \<times> 's"
  CreateAPI :: "'e \<Rightarrow> 's \<Rightarrow> API \<Rightarrow> (goerr + API) \<times> 's"
  GetAPI :: "'e \<Rightarrow> 's \<Rightarrow> string \<Rightarrow> (goerr + API) \<times> 's"
  CreateKey :: "'e \<Rightarrow> 's \<Rightarrow> Key \<Rightarrow> (goerr + Key) \<times> 's"
  GetKeyByID :: "'e \<Rightarrow> 's \<Rightarrow> string \<Rightarrow> (goerr + Key) \<times> 's"
  GetKeyByHash :: "'e \<Rightarrow> 's \<Rightarrow> bytes \<Rightarrow> (goerr + Key) \<times> 's"
  RevokeKey :: "'e \<Rightarrow> 's \<Rightarrow> string \<Rightarrow> (goerr + unit) \<times> 's"
  RotateKey :: "'e \<Rightarrow> 's \<Rightarrow> string \<Rightarrow> bytes \<Rightarrow> (goerr + Key) \<times> 's"
  ListKeys :: "'e \<Rightarrow> 's \<Rightarrow> ListKeysOpts \<Rightarrow> (goerr + ListKeysResult) \<times> 's"
  TouchLastVerified :: "'e \<Rightarrow> 's \<Rightarrow> string \<Rightarrow> gotime \<Rightarrow> (goerr + unit) \<times> 's"
  DecrementRemainingUses :: "'e \<Rightarrow> 's \<Rightarrow> string \<Rightarrow> (int64 \<times> goerr option) \<times> 's"

section \<open>Listing: the reference page\<close>

text \<open>A page size that is not positive means 50.\<close>

definition page_size :: "int32 \<Rightarrow> nat" where
  "page_size n = (if sint n \<le> 0 then 50 else nat (sint n))"

lemma page_size_pos [simp]: "0 < page_size n"
  by (simp add: page_size_def)

definition key_matches :: "ListKeysOpts \<Rightarrow> Key \<Rightarrow> bool" where
  "key_matches opts k \<longleftrightarrow> k_APIID k = o_APIID opts \<and>
     (o_OwnerPrincipalID opts = [] \<or> k_OwnerPrincipalID k = o_OwnerPrincipalID opts)"

definition matching_ids :: "(string \<rightharpoonup> Key) \<Rightarrow> ListKeysOpts \<Rightarrow> string set" where
  "matching_ids ks opts = {i. \<exists>k. ks i = Some k \<and> key_matches opts k}"

text \<open>
  The reference page over the sorted identifiers: those after the token, cut at the page size;
  the next token is the last identifier of the page when some are left over, and empty otherwise.
  \<open>coll\<close> maps an identifier to its collation key.
\<close>

definition after_token :: "(string \<Rightarrow> string) \<Rightarrow> string \<Rightarrow> string list \<Rightarrow> string list" where
  "after_token coll tok ids = (if tok = [] then ids else filter (\<lambda>i. coll tok < coll i) ids)"

definition page_ids :: "nat \<Rightarrow> string list \<Rightarrow> string list \<times> string" where
  "page_ids n rest = (take n rest, if n < length rest then rest ! (n - 1) else [])"

definition page_of ::
  "(string \<Rightarrow> string) \<Rightarrow> (string \<rightharpoonup> Key) \<Rightarrow> ListKeysOpts \<Rightarrow> string list \<Rightarrow> ListKeysResult" where
  "page_of coll ks opts ids =
     (let (page, tok) = page_ids (page_size (o_PageSize opts))
                          (after_token coll (o_PageToken opts) (sort_key coll ids))
      in \<lparr>r_Keys = map (the \<circ> ks) page, r_NextPageToken = tok\<rparr>)"

lemma page_of_perm:
  assumes "distinct xs" "distinct ys" "set xs = set ys" "inj coll"
  shows "page_of coll ks opts xs = page_of coll ks opts ys"
  using sort_key_perm_eq [OF assms(1-3), of coll] assms(4)
  by (simp add: page_of_def inj_on_subset [OF assms(4)])

section \<open>The view of a driver's state\<close>

record view =
  v_workspaces :: "string \<rightharpoonup> Workspace"
  v_apis :: "string \<rightharpoonup> API"
  v_keys :: "string \<rightharpoonup> Key"

text \<open>
  Well-formedness: records sit under their own identifier, an API's workspace exists, a key's API
  exists, no two keys share a hash, there are finitely many keys and none under the empty
  identifier.
\<close>

definition workspaces_ok :: "(string \<rightharpoonup> Workspace) \<Rightarrow> bool" where
  "workspaces_ok ws \<longleftrightarrow> (\<forall>i w. ws i = Some w \<longrightarrow> w_WorkspaceID w = i)"

definition apis_ok :: "(string \<rightharpoonup> Workspace) \<Rightarrow> (string \<rightharpoonup> API) \<Rightarrow> bool" where
  "apis_ok ws as \<longleftrightarrow> (\<forall>i a. as i = Some a \<longrightarrow> a_APIID a = i \<and> a_WorkspaceID a \<in> dom ws)"

definition keys_ok :: "(string \<rightharpoonup> API) \<Rightarrow> (string \<rightharpoonup> Key) \<Rightarrow> bool" where
  "keys_ok as ks \<longleftrightarrow> (\<forall>i k. ks i = Some k \<longrightarrow> k_KeyID k = i \<and> i \<noteq> [] \<and> k_APIID k \<in> dom as)"

definition hashes_unique :: "(string \<rightharpoonup> Key) \<Rightarrow> bool" where
  "hashes_unique ks \<longleftrightarrow> (\<forall>i i' k k'. ks i = Some k \<longrightarrow> ks i' = Some k' \<longrightarrow>
     k_KeyHash k = k_KeyHash k' \<longrightarrow> i = i')"

definition view_ok :: "view \<Rightarrow> bool" where
  "view_ok v \<longleftrightarrow> workspaces_ok (v_workspaces v) \<and> apis_ok (v_workspaces v) (v_apis v) \<and>
     keys_ok (v_apis v) (v_keys v) \<and> hashes_unique (v_keys v) \<and> finite (dom (v_keys v))"

lemmas view_part_defs = workspaces_ok_def apis_ok_def keys_ok_def hashes_unique_def

definition hash_taken :: "view \<Rightarrow> bytes \<Rightarrow> bool" where
  "hash_taken v h \<longleftrightarrow> (\<exists>i k. v_keys v i = Some k \<and> k_KeyHash k = h)"

text \<open>No key other than \<open>i\<close> has the hash.\<close>

definition hash_free_for :: "view \<Rightarrow> string \<Rightarrow> bytes \<Rightarrow> bool" where
  "hash_free_for v i h \<longleftrightarrow> (\<forall>i' k'. v_keys v i' = Some k' \<longrightarrow> k_KeyHash k' = h \<longrightarrow> i' = i)"

definition empty_view :: view where
  "empty_view = \<lparr>v_workspaces = Map.empty, v_apis = Map.empty, v_keys = Map.empty\<rparr>"

lemma view_ok_empty [simp]: "view_ok empty_view"
  by (simp add: view_ok_def view_part_defs empty_view_def)

lemma view_okD_key:
  assumes "view_ok v" "v_keys v i = Some k"
  shows "k_KeyID k = i" "i \<noteq> []" "k_APIID k \<in> dom (v_apis v)"
  using assms by (simp_all add: view_ok_def keys_ok_def)

lemma view_okD_hash:
  assumes "view_ok v" "v_keys v i = Some k" "v_keys v i' = Some k'" "k_KeyHash k = k_KeyHash k'"
  shows "i = i'"
  using assms unfolding view_ok_def hashes_unique_def by blast

lemma view_okD_finite: "view_ok v \<Longrightarrow> finite (dom (v_keys v))"
  by (simp add: view_ok_def)

lemma view_okD_api:
  assumes "view_ok v" "v_apis v i = Some a"
  shows "a_APIID a = i" "a_WorkspaceID a \<in> dom (v_workspaces v)"
  using assms by (simp_all add: view_ok_def apis_ok_def)

text \<open>Storing a record keeps the view well formed; the facts every driver's invariant proof uses.\<close>

lemma view_ok_put_workspace:
  assumes "view_ok v" "w_WorkspaceID w = i"
  shows "view_ok (v\<lparr>v_workspaces := (v_workspaces v)(i \<mapsto> w)\<rparr>)"
proof -
  have "workspaces_ok ((v_workspaces v)(i \<mapsto> w))" "apis_ok ((v_workspaces v)(i \<mapsto> w)) (v_apis v)"
    using assms by (auto simp: view_ok_def workspaces_ok_def apis_ok_def)
  with assms(1) show ?thesis by (simp add: view_ok_def)
qed

lemma view_ok_put_api:
  assumes "view_ok v" "a_APIID a = i" "a_WorkspaceID a \<in> dom (v_workspaces v)"
  shows "view_ok (v\<lparr>v_apis := (v_apis v)(i \<mapsto> a)\<rparr>)"
proof -
  have "apis_ok (v_workspaces v) ((v_apis v)(i \<mapsto> a))" "keys_ok ((v_apis v)(i \<mapsto> a)) (v_keys v)"
    using assms by (auto simp: view_ok_def apis_ok_def keys_ok_def)
  with assms(1) show ?thesis by (simp add: view_ok_def)
qed

lemma hashes_unique_put:
  assumes uniq: "hashes_unique ks"
    and fresh: "\<And>i' k'. ks i' = Some k' \<Longrightarrow> k_KeyHash k' = k_KeyHash k \<Longrightarrow> i' = i"
  shows "hashes_unique (ks(i \<mapsto> k))"
  unfolding hashes_unique_def
proof (intro allI impI)
  fix i1 i2 k1 k2
  assume k: "(ks(i \<mapsto> k)) i1 = Some k1" "(ks(i \<mapsto> k)) i2 = Some k2" "k_KeyHash k1 = k_KeyHash k2"
  show "i1 = i2"
  proof (cases "i1 = i"; cases "i2 = i")
    assume "i1 = i" "i2 \<noteq> i"
    with k show ?thesis using fresh [of i2 k2] by simp
  next
    assume "i1 \<noteq> i" "i2 = i"
    with k show ?thesis using fresh [of i1 k1] by simp
  next
    assume "i1 \<noteq> i" "i2 \<noteq> i"
    with k show ?thesis using uniq unfolding hashes_unique_def by simp
  qed simp
qed

lemma view_ok_put_key:
  assumes ok: "view_ok v" and k: "k_KeyID k = i" "i \<noteq> []" "k_APIID k \<in> dom (v_apis v)"
    and fresh: "\<And>i' k'. v_keys v i' = Some k' \<Longrightarrow> k_KeyHash k' = k_KeyHash k \<Longrightarrow> i' = i"
  shows "view_ok (v\<lparr>v_keys := (v_keys v)(i \<mapsto> k)\<rparr>)"
proof -
  have "keys_ok (v_apis v) ((v_keys v)(i \<mapsto> k))"
    using ok k by (auto simp: view_ok_def keys_ok_def)
  moreover have "hashes_unique ((v_keys v)(i \<mapsto> k))"
    using ok fresh by (intro hashes_unique_put) (simp_all add: view_ok_def)
  ultimately show ?thesis using ok by (simp add: view_ok_def)
qed

text \<open>An update of a stored key that keeps its identity, API and hash.\<close>

corollary view_ok_update_key:
  assumes "view_ok v" "v_keys v i = Some k"
    and "k_KeyID k' = k_KeyID k" "k_APIID k' = k_APIID k" "k_KeyHash k' = k_KeyHash k"
  shows "view_ok (v\<lparr>v_keys := (v_keys v)(i \<mapsto> k')\<rparr>)"
proof (rule view_ok_put_key [OF assms(1)])
  show "k_KeyID k' = i" "i \<noteq> []" "k_APIID k' \<in> dom (v_apis v)"
    using view_okD_key [OF assms(1,2)] assms(3,4) by auto
next
  fix i'' k''
  assume "v_keys v i'' = Some k''" "k_KeyHash k'' = k_KeyHash k'"
  with assms(2,5) show "i'' = i" using view_okD_hash [OF assms(1)] by metis
qed

section \<open>What a driver stores of a record\<close>

text \<open>
  A driver may store times at its own resolution (\<open>nt\<close>), and metadata (\<open>nm\<close>) and limit references
  (\<open>nr\<close>) in a normal form of its own; nothing else of a record may change on its way through the store.
\<close>

definition norm_workspace :: "(gotime \<Rightarrow> gotime) \<Rightarrow> (gomap \<Rightarrow> gomap) \<Rightarrow> Workspace \<Rightarrow> Workspace" where
  "norm_workspace nt nm w =
     w\<lparr>w_CreatedAt := nt (w_CreatedAt w), w_UpdatedAt := nt (w_UpdatedAt w),
       w_Metadata := nm (w_Metadata w)\<rparr>"

definition norm_api :: "(gotime \<Rightarrow> gotime) \<Rightarrow> (gomap \<Rightarrow> gomap) \<Rightarrow> API \<Rightarrow> API" where
  "norm_api nt nm a =
     a\<lparr>a_CreatedAt := nt (a_CreatedAt a), a_UpdatedAt := nt (a_UpdatedAt a),
       a_Metadata := nm (a_Metadata a)\<rparr>"

definition norm_key ::
  "(gotime \<Rightarrow> gotime) \<Rightarrow> (gomap \<Rightarrow> gomap) \<Rightarrow> (LimitRef list \<Rightarrow> LimitRef list) \<Rightarrow> Key \<Rightarrow> Key" where
  "norm_key nt nm nr k =
     k\<lparr>k_LimitRefs := nr (k_LimitRefs k), k_ExpiresAt := map_option nt (k_ExpiresAt k), k_CreatedAt := nt (k_CreatedAt k),
       k_UpdatedAt := nt (k_UpdatedAt k), k_LastVerifiedAt := map_option nt (k_LastVerifiedAt k),
       k_Metadata := nm (k_Metadata k)\<rparr>"

lemma norm_key_sel [simp]:
  "k_KeyID (norm_key nt nm nr k) = k_KeyID k"
  "k_APIID (norm_key nt nm nr k) = k_APIID k"
  "k_WorkspaceID (norm_key nt nm nr k) = k_WorkspaceID k"
  "k_OwnerPrincipalID (norm_key nt nm nr k) = k_OwnerPrincipalID k"
  "k_Name (norm_key nt nm nr k) = k_Name k"
  "k_KeyHash (norm_key nt nm nr k) = k_KeyHash k"
  "k_Permissions (norm_key nt nm nr k) = k_Permissions k"
  "k_LimitRefs (norm_key nt nm nr k) = nr (k_LimitRefs k)"
  "k_ExpiresAt (norm_key nt nm nr k) = map_option nt (k_ExpiresAt k)"
  "k_RemainingUses (norm_key nt nm nr k) = k_RemainingUses k"
  "k_Enabled (norm_key nt nm nr k) = k_Enabled k"
  "k_CreatedAt (norm_key nt nm nr k) = nt (k_CreatedAt k)"
  "k_UpdatedAt (norm_key nt nm nr k) = nt (k_UpdatedAt k)"
  "k_LastVerifiedAt (norm_key nt nm nr k) = map_option nt (k_LastVerifiedAt k)"
  "k_Metadata (norm_key nt nm nr k) = nm (k_Metadata k)"
  by (simp_all add: norm_key_def)

lemma norm_workspace_sel [simp]:
  "w_WorkspaceID (norm_workspace nt nm w) = w_WorkspaceID w"
  "w_Name (norm_workspace nt nm w) = w_Name w"
  "w_OwnerPrincipalID (norm_workspace nt nm w) = w_OwnerPrincipalID w"
  "w_CreatedAt (norm_workspace nt nm w) = nt (w_CreatedAt w)"
  "w_UpdatedAt (norm_workspace nt nm w) = nt (w_UpdatedAt w)"
  "w_Metadata (norm_workspace nt nm w) = nm (w_Metadata w)"
  by (simp_all add: norm_workspace_def)

lemma norm_api_sel [simp]:
  "a_APIID (norm_api nt nm a) = a_APIID a"
  "a_WorkspaceID (norm_api nt nm a) = a_WorkspaceID a"
  "a_Name (norm_api nt nm a) = a_Name a"
  "a_KeyPrefix (norm_api nt nm a) = a_KeyPrefix a"
  "a_CreatedAt (norm_api nt nm a) = nt (a_CreatedAt a)"
  "a_UpdatedAt (norm_api nt nm a) = nt (a_UpdatedAt a)"
  "a_Metadata (norm_api nt nm a) = nm (a_Metadata a)"
  by (simp_all add: norm_api_def)

lemma norm_ident [simp]:
  "norm_workspace (\<lambda>t. t) (\<lambda>m. m) w = w"
  "norm_api (\<lambda>t. t) (\<lambda>m. m) a = a"
  "norm_key (\<lambda>t. t) (\<lambda>m. m) (\<lambda>r. r) k = k"
  by (simp_all add: norm_workspace_def norm_api_def norm_key_def option.map_ident)

text \<open>The record a create method fills in before it stores it.\<close>

definition stamp_workspace :: "string \<Rightarrow> gotime \<Rightarrow> Workspace \<Rightarrow> Workspace" where
  "stamp_workspace i t w = w\<lparr>w_WorkspaceID := i, w_CreatedAt := t, w_UpdatedAt := t\<rparr>"

definition stamp_api :: "string \<Rightarrow> gotime \<Rightarrow> API \<Rightarrow> API" where
  "stamp_api i t a = a\<lparr>a_APIID := i, a_CreatedAt := t, a_UpdatedAt := t\<rparr>"

definition stamp_key :: "string \<Rightarrow> gotime \<Rightarrow> Key \<Rightarrow> Key" where
  "stamp_key i t k = k\<lparr>k_KeyID := i, k_CreatedAt := t, k_UpdatedAt := t\<rparr>"

lemmas stamp_defs [go_defs] = stamp_workspace_def stamp_api_def stamp_key_def

section \<open>The contract\<close>

text \<open>
  \<open>inv\<close> is the driver's representation invariant. Of a call's environment, \<open>env_up\<close> says that the
  backend answers, \<open>env_fresh\<close> that the identifiers it supplies are unused, \<open>env_range\<close> that it
  ranges over all stored keys; \<open>now_of\<close> and \<open>id_of\<close> are the clock reading and the identifier the
  call obtains. The laws are what both drivers do: the parent of a new record must exist, hashes are
  unique, revoking succeeds again, rotation keeps the identifier, the decrement stops at zero and
  leaves unlimited keys alone. They follow the comments of the interface in \<open>store.go\<close>, except that
  they say less in two cases in which the drivers differ. A key whose API is missing and whose hash
  is taken is rejected with \<open>ErrNotFound\<close> or with \<open>ErrConflict\<close> (the comments ask for both), and
  revoking a revoked key may move its update time (the comments call it a no-op). The comments say
  nothing of a key whose API exists and whose workspace does not; neither do the laws. The locale
  \<open>strict_store_contract\<close> below has the two cases as the comments have them.
\<close>

locale store_contract =
  fixes ops :: "('e, 's) Store"
    and inv :: "'s \<Rightarrow> bool"
    and env_up :: "'e \<Rightarrow> bool"
    and env_fresh :: "'e \<Rightarrow> 's \<Rightarrow> bool"
    and env_range :: "'e \<Rightarrow> 's \<Rightarrow> bool"
    and view_of :: "'s \<Rightarrow> view"
    and now_of :: "'e \<Rightarrow> gotime"
    and id_of :: "string \<Rightarrow> 'e \<Rightarrow> string"
    and nt :: "gotime \<Rightarrow> gotime"
    and nm :: "gomap \<Rightarrow> gomap"
    and nr :: "LimitRef list \<Rightarrow> LimitRef list"
    and coll :: "string \<Rightarrow> string"
  assumes view_of_ok: "inv s \<Longrightarrow> view_ok (view_of s)"
    and coll_inj: "inj coll"
    and nt_idem: "nt (nt t) = nt t"
    and nr_Nil: "nr [] = []"
    and id_of_nonempty: "id_of p e \<noteq> []"
    and create_workspace:
      "inv s \<Longrightarrow> env_up e \<Longrightarrow> env_fresh e s \<Longrightarrow>
       \<exists>s'. CreateWorkspace ops e s w = (Inr (stamp_workspace (id_of ''ws'' e) (now_of e) w), s') \<and>
         inv s' \<and> id_of ''ws'' e \<notin> dom (v_workspaces (view_of s)) \<and>
         view_of s' = (view_of s)\<lparr>v_workspaces := (v_workspaces (view_of s))(id_of ''ws'' e \<mapsto>
           norm_workspace nt nm (stamp_workspace (id_of ''ws'' e) (now_of e) w))\<rparr>"
    and get_workspace:
      "inv s \<Longrightarrow> env_up e \<Longrightarrow> GetWorkspace ops e s i =
         (case v_workspaces (view_of s) i of None \<Rightarrow> Inl (Sentinel ErrNotFound) | Some w \<Rightarrow> Inr w, s)"
    and create_api_no_workspace:
      "inv s \<Longrightarrow> env_up e \<Longrightarrow> env_fresh e s \<Longrightarrow> a_WorkspaceID a \<notin> dom (v_workspaces (view_of s)) \<Longrightarrow>
       CreateAPI ops e s a =
         (Inl (Wrapf ''workspace %q: %w'' (Some (a_WorkspaceID a)) (Sentinel ErrNotFound)), s)"
    and create_api:
      "inv s \<Longrightarrow> env_up e \<Longrightarrow> env_fresh e s \<Longrightarrow> a_WorkspaceID a \<in> dom (v_workspaces (view_of s)) \<Longrightarrow>
       \<exists>s'. CreateAPI ops e s a = (Inr (stamp_api (id_of ''api'' e) (now_of e) a), s') \<and>
         inv s' \<and> id_of ''api'' e \<notin> dom (v_apis (view_of s)) \<and>
         view_of s' = (view_of s)\<lparr>v_apis := (v_apis (view_of s))(id_of ''api'' e \<mapsto>
           norm_api nt nm (stamp_api (id_of ''api'' e) (now_of e) a))\<rparr>"
    and get_api:
      "inv s \<Longrightarrow> env_up e \<Longrightarrow> GetAPI ops e s i =
         (case v_apis (view_of s) i of None \<Rightarrow> Inl (Sentinel ErrNotFound) | Some a \<Rightarrow> Inr a, s)"
    and create_key_no_api:
      "inv s \<Longrightarrow> env_up e \<Longrightarrow> env_fresh e s \<Longrightarrow> k_APIID k \<notin> dom (v_apis (view_of s)) \<Longrightarrow>
       \<not> hash_taken (view_of s) (k_KeyHash k) \<Longrightarrow>
       CreateKey ops e s k = (Inl (Wrapf ''api %q: %w'' (Some (k_APIID k)) (Sentinel ErrNotFound)), s)"
    and create_key_conflict:
      "inv s \<Longrightarrow> env_up e \<Longrightarrow> env_fresh e s \<Longrightarrow> k_APIID k \<in> dom (v_apis (view_of s)) \<Longrightarrow>
       hash_taken (view_of s) (k_KeyHash k) \<Longrightarrow>
       CreateKey ops e s k = (Inl (Sentinel ErrConflict), s)"
    and create_key:
      "inv s \<Longrightarrow> env_up e \<Longrightarrow> env_fresh e s \<Longrightarrow> k_APIID k \<in> dom (v_apis (view_of s)) \<Longrightarrow>
       k_WorkspaceID k \<in> dom (v_workspaces (view_of s)) \<Longrightarrow>
       \<not> hash_taken (view_of s) (k_KeyHash k) \<Longrightarrow>
       \<exists>s'. CreateKey ops e s k = (Inr (stamp_key (id_of ''key'' e) (now_of e) k), s') \<and>
         inv s' \<and> id_of ''key'' e \<notin> dom (v_keys (view_of s)) \<and>
         view_of s' = (view_of s)\<lparr>v_keys := (v_keys (view_of s))(id_of ''key'' e \<mapsto>
           norm_key nt nm nr (stamp_key (id_of ''key'' e) (now_of e) k))\<rparr>"
    and get_key_by_id:
      "inv s \<Longrightarrow> env_up e \<Longrightarrow> GetKeyByID ops e s i =
         (case v_keys (view_of s) i of None \<Rightarrow> Inl (Sentinel ErrNotFound) | Some k \<Rightarrow> Inr k, s)"
    and get_key_by_hash_miss:
      "inv s \<Longrightarrow> env_up e \<Longrightarrow> \<not> hash_taken (view_of s) h \<Longrightarrow>
       GetKeyByHash ops e s h = (Inl (Sentinel ErrNotFound), s)"
    and get_key_by_hash_hit:
      "inv s \<Longrightarrow> env_up e \<Longrightarrow> v_keys (view_of s) i = Some k \<Longrightarrow> k_KeyHash k = h \<Longrightarrow>
       GetKeyByHash ops e s h = (Inr k, s)"
    and revoke_key_unknown:
      "inv s \<Longrightarrow> env_up e \<Longrightarrow> v_keys (view_of s) i = None \<Longrightarrow>
       RevokeKey ops e s i = (Inl (Sentinel ErrNotFound), s)"
    and revoke_key:
      "inv s \<Longrightarrow> env_up e \<Longrightarrow> v_keys (view_of s) i = Some k \<Longrightarrow>
       \<exists>s' u. RevokeKey ops e s i = (Inr (), s') \<and> inv s' \<and>
         (k_Enabled k \<longrightarrow> u = nt (now_of e)) \<and>
         view_of s' = (view_of s)\<lparr>v_keys := (v_keys (view_of s))(i \<mapsto>
           k\<lparr>k_Enabled := False, k_UpdatedAt := u\<rparr>)\<rparr>"
    and rotate_key_unknown:
      "inv s \<Longrightarrow> env_up e \<Longrightarrow> v_keys (view_of s) i = None \<Longrightarrow>
       RotateKey ops e s i h = (Inl (Sentinel ErrNotFound), s)"
    and rotate_key_conflict:
      "inv s \<Longrightarrow> env_up e \<Longrightarrow> v_keys (view_of s) i = Some k \<Longrightarrow>
       \<not> hash_free_for (view_of s) i h \<Longrightarrow>
       RotateKey ops e s i h = (Inl (Sentinel ErrConflict), s)"
    and rotate_key:
      "inv s \<Longrightarrow> env_up e \<Longrightarrow> v_keys (view_of s) i = Some k \<Longrightarrow>
       hash_free_for (view_of s) i h \<Longrightarrow>
       \<exists>s'. RotateKey ops e s i h =
           (Inr (k\<lparr>k_KeyHash := h, k_UpdatedAt := nt (now_of e)\<rparr>), s') \<and> inv s' \<and>
         view_of s' = (view_of s)\<lparr>v_keys := (v_keys (view_of s))(i \<mapsto>
           k\<lparr>k_KeyHash := h, k_UpdatedAt := nt (now_of e)\<rparr>)\<rparr>"
    and list_keys:
      "inv s \<Longrightarrow> env_up e \<Longrightarrow> env_range e s \<Longrightarrow> distinct ids \<Longrightarrow>
       set ids = matching_ids (v_keys (view_of s)) opts \<Longrightarrow>
       ListKeys ops e s opts = (Inr (page_of coll (v_keys (view_of s)) opts ids), s)"
    and touch_unknown:
      "inv s \<Longrightarrow> env_up e \<Longrightarrow> v_keys (view_of s) i = None \<Longrightarrow>
       TouchLastVerified ops e s i t = (Inl (Sentinel ErrNotFound), s)"
    and touch:
      "inv s \<Longrightarrow> env_up e \<Longrightarrow> v_keys (view_of s) i = Some k \<Longrightarrow>
       \<exists>s'. TouchLastVerified ops e s i t = (Inr (), s') \<and> inv s' \<and>
         view_of s' = (view_of s)\<lparr>v_keys := (v_keys (view_of s))(i \<mapsto>
           k\<lparr>k_LastVerifiedAt := Some (nt t)\<rparr>)\<rparr>"
    and decrement_unknown:
      "inv s \<Longrightarrow> env_up e \<Longrightarrow> v_keys (view_of s) i = None \<Longrightarrow>
       DecrementRemainingUses ops e s i = ((0, Some (Sentinel ErrNotFound)), s)"
    and decrement_unlimited:
      "inv s \<Longrightarrow> env_up e \<Longrightarrow> v_keys (view_of s) i = Some k \<Longrightarrow> sint (k_RemainingUses k) < 0 \<Longrightarrow>
       DecrementRemainingUses ops e s i = ((-1, None), s)"
    and decrement_depleted:
      "inv s \<Longrightarrow> env_up e \<Longrightarrow> v_keys (view_of s) i = Some k \<Longrightarrow> k_RemainingUses k = 0 \<Longrightarrow>
       DecrementRemainingUses ops e s i = ((0, Some (Sentinel ErrDepleted)), s)"
    and decrement:
      "inv s \<Longrightarrow> env_up e \<Longrightarrow> v_keys (view_of s) i = Some k \<Longrightarrow> 0 < sint (k_RemainingUses k) \<Longrightarrow>
       \<exists>s'. DecrementRemainingUses ops e s i = ((k_RemainingUses k - 1, None), s') \<and> inv s' \<and>
         view_of s' = (view_of s)\<lparr>v_keys := (v_keys (view_of s))(i \<mapsto>
           k\<lparr>k_RemainingUses := k_RemainingUses k - 1, k_UpdatedAt := nt (now_of e)\<rparr>)\<rparr>"
    and create_key_rejected:
      "inv s \<Longrightarrow> env_up e \<Longrightarrow> env_fresh e s \<Longrightarrow> k_APIID k \<notin> dom (v_apis (view_of s)) \<Longrightarrow>
       hash_taken (view_of s) (k_KeyHash k) \<Longrightarrow>
       CreateKey ops e s k = (Inl (Wrapf ''api %q: %w'' (Some (k_APIID k)) (Sentinel ErrNotFound)), s) \<or>
       CreateKey ops e s k = (Inl (Sentinel ErrConflict), s)"

text \<open>
  The contract as \<open>store.go\<close> words it: a missing API is \<open>ErrNotFound\<close> whatever the hash, and revoking a
  revoked key changes nothing at all. The in-memory driver keeps it; the Postgres driver does not.
\<close>

locale strict_store_contract = store_contract +
  assumes create_key_missing_api:
      "inv s \<Longrightarrow> env_up e \<Longrightarrow> env_fresh e s \<Longrightarrow> k_APIID k \<notin> dom (v_apis (view_of s)) \<Longrightarrow>
       CreateKey ops e s k = (Inl (Wrapf ''api %q: %w'' (Some (k_APIID k)) (Sentinel ErrNotFound)), s)"
    and revoke_key_again:
      "inv s \<Longrightarrow> env_up e \<Longrightarrow> v_keys (view_of s) i = Some k \<Longrightarrow> \<not> k_Enabled k \<Longrightarrow>
       RevokeKey ops e s i = (Inr (), s)"
begin

text \<open>A second revocation, by whoever and whenever, cannot be told from the first alone.\<close>

lemma revoke_twice:
  assumes "inv s" "env_up e" "env_up e'" "v_keys (view_of s) i = Some k"
  shows "\<exists>s'. RevokeKey ops e s i = (Inr (), s') \<and> RevokeKey ops e' s' i = (Inr (), s')"
proof -
  from revoke_key [OF assms(1,2,4)] obtain s' u where s': "RevokeKey ops e s i = (Inr (), s')" "inv s'"
    "v_keys (view_of s') i = Some (k\<lparr>k_Enabled := False, k_UpdatedAt := u\<rparr>)"
    by (metis fun_upd_same select_convs(3) surjective update_convs(3))
  from revoke_key_again [OF s'(2) assms(3) s'(3)] s'(1) show ?thesis by simp
qed

end

end
