(* ===== verification/KC_Sha256.thy ===== *)
theory KC_Sha256
  imports KC_Prelude
begin

unbundle bit_operations_syntax

text \<open>
  SHA-256 on byte sequences, as package \<open>crypto/sha256\<close> computes it: padding, blocks of sixteen
  words, the message schedule and the rounds, with \<open>+\<close> on 32-bit words. The development is generic in
  the hash function; this is the function the program uses, and that it satisfies what the proofs ask
  of one.
\<close>

type_synonym sha_state = "32 word list"

text \<open>
  The constants: the first 32 bits of the fractional parts of the cube roots of the first 64 primes,
  and of the square roots of the first 8. A root is found bit by bit, at a precision of 32 bits.
\<close>

definition small_primes :: "int list" where
  "small_primes = filter (\<lambda>n. list_all (\<lambda>d. n mod d \<noteq> 0) [2..n - 1]) [2..311]"

definition scaled_root :: "nat \<Rightarrow> int \<Rightarrow> int" where
  "scaled_root k n =
     foldl (\<lambda>r b. if (r + 2 ^ b) ^ k \<le> n * 2 ^ (32 * k) then r + 2 ^ b else r) 0 (rev [0..<37])"

definition sha_K :: "32 word list" where
  "sha_K = map (\<lambda>p. of_int (scaled_root 3 p)) small_primes"

definition sha_init :: sha_state where
  "sha_init = map (\<lambda>p. of_int (scaled_root 2 p)) [2, 3, 5, 7, 11, 13, 17, 19]"

definition rotr32 :: "nat \<Rightarrow> 32 word \<Rightarrow> 32 word" where
  "rotr32 n x = drop_bit n x OR push_bit (32 - n) x"

text \<open>Padding: a one bit, zeros, and the length in bits as a 64-bit number.\<close>

definition sha_pad :: "bytes \<Rightarrow> bytes" where
  "sha_pad m =
     (let r = length m mod 64; t = (if r < 56 then 56 - r else 120 - r); bits = of_nat (8 * length m) :: 64 word
      in m @ (0x80 # replicate (t - 1) 0) @ map (\<lambda>i. ucast (drop_bit (8 * i) bits)) [7, 6, 5, 4, 3, 2, 1, 0])"

fun sha_words :: "bytes \<Rightarrow> 32 word list" where
  "sha_words (a # b # c # d # rest) =
     (push_bit 24 (ucast a) OR push_bit 16 (ucast b) OR push_bit 8 (ucast c) OR ucast d) # sha_words rest"
| "sha_words _ = []"

text \<open>The schedule: each new word from those 2, 7, 15 and 16 before it; the words are kept last first.\<close>

fun sha_extend :: "nat \<Rightarrow> 32 word list \<Rightarrow> 32 word list" where
  "sha_extend 0 w = w"
| "sha_extend (Suc n) w =
     (let s1 = w ! 1; t1 = rotr32 17 s1 XOR rotr32 19 s1 XOR drop_bit 10 s1;
          s0 = w ! 14; t0 = rotr32 7 s0 XOR rotr32 18 s0 XOR drop_bit 3 s0
      in sha_extend n ((t1 + w ! 6 + t0 + w ! 15) # w))"

definition sha_schedule :: "32 word list \<Rightarrow> 32 word list" where
  "sha_schedule block = rev (sha_extend 48 (rev block))"

fun sha_round :: "sha_state \<Rightarrow> 32 word \<times> 32 word \<Rightarrow> sha_state" where
  "sha_round [a, b, c, d, e, f, g, h] (k, w) =
     (let t1 = h + (rotr32 6 e XOR rotr32 11 e XOR rotr32 25 e) + ((e AND f) XOR (NOT e AND g)) + k + w;
          t2 = (rotr32 2 a XOR rotr32 13 a XOR rotr32 22 a) + ((a AND b) XOR (a AND c) XOR (b AND c))
      in [t1 + t2, a, b, c, d + t1, e, f, g])"
| "sha_round s _ = s"

definition sha_block :: "sha_state \<Rightarrow> 32 word list \<Rightarrow> sha_state" where
  "sha_block s block = map2 (+) s (foldl sha_round s (zip sha_K (sha_schedule block)))"

function sha_blocks :: "sha_state \<Rightarrow> 32 word list \<Rightarrow> sha_state" where
  "sha_blocks s ws = (if length ws < 16 then s else sha_blocks (sha_block s (take 16 ws)) (drop 16 ws))"
  by pat_completeness auto
termination by (relation "measure (\<lambda>(s, ws). length ws)") auto

declare sha_blocks.simps [simp del]

definition sha_word_bytes :: "32 word \<Rightarrow> bytes" where
  "sha_word_bytes w = [ucast (drop_bit 24 w), ucast (drop_bit 16 w), ucast (drop_bit 8 w), ucast w]"

definition sha256_Sum256 :: "bytes \<Rightarrow> bytes" where
  "sha256_Sum256 m = concat (map sha_word_bytes (sha_blocks sha_init (sha_words (sha_pad m))))"

section \<open>The size of a digest\<close>

lemma length_sha_round: "length (sha_round s x) = length s"
  by (induction s x rule: sha_round.induct) (simp_all add: Let_def)

lemma length_sha_block: "length (sha_block s block) = length s"
proof -
  have "length (foldl sha_round s xs) = length s" for xs
    by (induction xs arbitrary: s) (simp_all add: length_sha_round)
  then show ?thesis by (simp add: sha_block_def)
qed

lemma length_sha_blocks: "length (sha_blocks s ws) = length s"
  by (induction s ws rule: sha_blocks.induct) (subst sha_blocks.simps, simp add: length_sha_block)

lemma length_Sum256: "length (sha256_Sum256 m) = 32"
proof -
  have "length (concat (map sha_word_bytes ws)) = 4 * length ws" for ws
    by (induction ws) (simp_all add: sha_word_bytes_def)
  then show ?thesis by (simp add: sha256_Sum256_def length_sha_blocks sha_init_def)
qed

text \<open>The padded message consists of whole blocks.\<close>

lemma sha_pad_blocks: "length (sha_pad m) mod 64 = 0"
proof -
  define n where "n = length m"
  obtain k r where n: "n = 64 * k + r" "r < 64" by (metis mod_less_divisor mult_div_mod_eq zero_less_numeral)
  then have "n mod 64 = r" by simp
  then have "length (sha_pad m) = (if r < 56 then 64 * (k + 1) else 64 * (k + 2))"
    using n by (simp add: sha_pad_def Let_def n_def [symmetric])
  then show ?thesis by simp
qed

end
