(* ===== verification/KC_Keymat.thy ===== *)
theory KC_Keymat
  imports KC_Sha256
begin

unbundle bit_operations_syntax

text \<open>
  Package \<open>pkg/keymat\<close>: generating, hashing and validating key material.

  The random source is the finite stream of bytes it is going to deliver; reading past its end is
  the error \<open>io.ReadFull\<close> returns. The hash function is an argument \<open>sha\<close> of the definitions: what the
  code relies on is that it is a function with 32-byte results, which is the predicate \<open>sha256_ok\<close>.
  The program passes SHA-256, the function of \<open>KC_Sha256\<close>, which satisfies it.
  Base32 (RFC 4648, no padding) and the constant-time comparison are modelled as the standard
  library documents them.
\<close>

section \<open>Reading entropy\<close>

definition io_ReadFull :: "nat \<Rightarrow> bytes \<Rightarrow> (goerr + bytes) \<times> bytes" where
  "io_ReadFull n r =
     (if n \<le> length r then (Inr (take n r), drop n r)
      else (Inl (Opaque (if r = [] then ''EOF'' else ''unexpected EOF'')), []))"

section \<open>Base32\<close>

definition b32_alphabet :: string where
  "b32_alphabet = ''ABCDEFGHIJKLMNOPQRSTUVWXYZ234567''"

text \<open>The bits of a byte, most significant first, and the number a list of bits denotes.\<close>

definition byte_bits :: "byte \<Rightarrow> bool list" where
  "byte_bits w = map (bit w) [7, 6, 5, 4, 3, 2, 1, 0]"

definition bits_nat :: "bool list \<Rightarrow> nat" where
  "bits_nat bs = foldl (\<lambda>n b. 2 * n + of_bool b) 0 bs"

text \<open>Groups of five bits, the last one filled with zero bits.\<close>

fun quintets :: "bool list \<Rightarrow> bool list list" where
  "quintets [] = []"
| "quintets (b # bs) =
     (take 5 (b # bs) @ replicate (5 - length (b # bs)) False) # quintets (drop 5 (b # bs))"

definition b32_EncodeToString :: "bytes \<Rightarrow> string" where
  "b32_EncodeToString b =
     map (\<lambda>q. b32_alphabet ! bits_nat q) (quintets (concat (map byte_bits b)))"

section \<open>Key material\<close>

definition RandomBytes :: nat where
  "RandomBytes = 32"

definition HashSize :: nat where
  "HashSize = 32"

definition sha256_ok :: "(bytes \<Rightarrow> bytes) \<Rightarrow> bool" where
  "sha256_ok sha \<longleftrightarrow> (\<forall>m. length (sha m) = HashSize)"

text \<open>\<open>keymat.New\<close>: the plaintext and its hash, and the rest of the random stream.\<close>

definition keymat_New :: "(bytes \<Rightarrow> bytes) \<Rightarrow> string \<Rightarrow> bytes \<Rightarrow> (goerr + string \<times> bytes) \<times> bytes" where
  "keymat_New sha prefix rnd =
     (case io_ReadFull RandomBytes rnd of
        (Inl err, rest) \<Rightarrow> (Inl err, rest)
      | (Inr b, rest) \<Rightarrow>
          let plaintext = prefix @ b32_EncodeToString b;
              hash = sha (string_bytes plaintext)
          in (Inr (plaintext, hash), rest))"

definition keymat_Hash :: "(bytes \<Rightarrow> bytes) \<Rightarrow> string \<Rightarrow> bytes" where
  "keymat_Hash sha plaintext = sha (string_bytes plaintext)"

text \<open>
  \<open>subtle.ConstantTimeByteEq\<close> and \<open>subtle.ConstantTimeCompare\<close>: lengths are compared first, then
  the differences of all bytes are accumulated.
\<close>

definition ConstantTimeByteEq :: "byte \<Rightarrow> byte \<Rightarrow> nat" where
  "ConstantTimeByteEq x y = unat (drop_bit 31 (ucast (x XOR y) - 1 :: 32 word))"

definition ConstantTimeCompare :: "bytes \<Rightarrow> bytes \<Rightarrow> nat" where
  "ConstantTimeCompare x y =
     (if length x \<noteq> length y then 0
      else ConstantTimeByteEq (fold (\<lambda>(a, b) v. v OR (a XOR b)) (zip x y) 0) 0)"

definition keymat_HashEqual :: "bytes \<Rightarrow> bytes \<Rightarrow> bool" where
  "keymat_HashEqual a b \<longleftrightarrow> ConstantTimeCompare a b = 1"

datatype keymat_error = ErrEmpty | ErrPrefixMissing

definition HasPrefix :: "string \<Rightarrow> string \<Rightarrow> bool" where
  "HasPrefix s p \<longleftrightarrow> length p \<le> length s \<and> take (length p) s = p"

definition keymat_Validate :: "string \<Rightarrow> string \<Rightarrow> keymat_error option" where
  "keymat_Validate plaintext prefix =
     (if plaintext = [] then Some ErrEmpty
      else if prefix \<noteq> [] \<and> \<not> HasPrefix plaintext prefix then Some ErrPrefixMissing
      else None)"

section \<open>Base32 is injective on inputs of one length\<close>

lemma length_byte_bits [simp]: "length (byte_bits w) = 8"
  by (simp add: byte_bits_def)

lemma byte_bits_inject [simp]: "byte_bits v = byte_bits w \<longleftrightarrow> v = w"
proof
  assume "byte_bits v = byte_bits w"
  then have "bit v n = bit w n" if "n < 8" for n
    using that by (auto simp: byte_bits_def less_Suc_eq numeral_eq_Suc)
  then show "v = w" by (intro bit_word_eqI) simp
qed simp

lemma length_concat_byte_bits [simp]: "length (concat (map byte_bits b)) = 8 * length b"
  by (induction b) simp_all

lemma concat_byte_bits_inject:
  "length a = length b \<Longrightarrow> concat (map byte_bits a) = concat (map byte_bits b) \<longleftrightarrow> a = b"
  by (induction a b rule: list_induct2) auto

lemma bits_nat_snoc [simp]: "bits_nat (bs @ [b]) = 2 * bits_nat bs + of_bool b"
  by (simp add: bits_nat_def)

lemma bits_nat_less: "bits_nat bs < 2 ^ length bs"
proof (induction bs rule: rev_induct)
  case (snoc b bs)
  then show ?case by (cases b) auto
qed (simp add: bits_nat_def)

lemma bits_nat_inject:
  "length xs = length ys \<Longrightarrow> bits_nat xs = bits_nat ys \<longleftrightarrow> xs = ys"
proof (induction xs arbitrary: ys rule: rev_induct)
  case (snoc x xs)
  then obtain y ys' where ys: "ys = ys' @ [y]" "length xs = length ys'"
    by (cases ys rule: rev_cases) auto
  have "2 * bits_nat xs + of_bool x = 2 * bits_nat ys' + of_bool y \<longleftrightarrow>
      bits_nat xs = bits_nat ys' \<and> x = y"
    by (cases x; cases y; simp; presburger)
  then show ?case using snoc.IH [OF ys(2)] ys by simp
qed simp

lemma length_quintets: "length (quintets bs) = (length bs + 4) div 5"
  by (induction bs rule: quintets.induct) (auto simp: div_if)

lemma quintets_length5: "q \<in> set (quintets bs) \<Longrightarrow> length q = 5"
  by (induction bs rule: quintets.induct) auto

lemma take_concat_quintets: "take (length bs) (concat (quintets bs)) = bs"
proof (induction bs rule: quintets.induct)
  case (2 b bs)
  let ?c = "b # bs"
  have "take (length ?c) (concat (quintets ?c)) =
      take (length ?c) (take 5 ?c @ replicate (5 - length ?c) False @ concat (quintets (drop 5 ?c)))"
    by simp
  also have "\<dots> = ?c"
  proof (cases "5 \<le> length ?c")
    case True
    then have "take (length ?c) (take 5 ?c @ concat (quintets (drop 5 ?c))) =
        take 5 ?c @ take (length (drop 5 ?c)) (concat (quintets (drop 5 ?c)))"
      by simp
    with True "2.IH" show ?thesis by (simp only: append_take_drop_id) simp
  qed simp
  finally show ?case .
qed simp

lemma quintets_inject:
  "length as = length bs \<Longrightarrow> quintets as = quintets bs \<longleftrightarrow> as = bs"
  by (metis take_concat_quintets)

lemma distinct_b32_alphabet: "distinct b32_alphabet"
  by (simp add: b32_alphabet_def)

lemma length_b32_alphabet [simp]: "length b32_alphabet = 32"
  by (simp add: b32_alphabet_def)

lemma b32_char_inject:
  assumes "length p = 5" "length q = 5"
  shows "b32_alphabet ! bits_nat p = b32_alphabet ! bits_nat q \<longleftrightarrow> p = q"
  using assms bits_nat_less [of p] bits_nat_less [of q]
  by (simp add: nth_eq_iff_index_eq [OF distinct_b32_alphabet] bits_nat_inject)

lemma b32_EncodeToString_inject:
  assumes "length a = length b"
  shows "b32_EncodeToString a = b32_EncodeToString b \<longleftrightarrow> a = b"
proof
  let ?qs = "\<lambda>b. quintets (concat (map byte_bits b))"
  assume eq: "b32_EncodeToString a = b32_EncodeToString b"
  have "?qs a = ?qs b"
  proof (rule map_inj_on [OF eq [unfolded b32_EncodeToString_def]])
    show "inj_on (\<lambda>q. b32_alphabet ! bits_nat q) (set (?qs a) \<union> set (?qs b))"
      by (rule inj_onI) (metis UnE b32_char_inject quintets_length5)
  qed
  then show "a = b" using assms by (simp add: quintets_inject concat_byte_bits_inject)
qed simp

lemma length_b32_EncodeToString: "length (b32_EncodeToString b) = (8 * length b + 4) div 5"
  by (simp add: b32_EncodeToString_def length_quintets)

lemma set_b32_EncodeToString: "set (b32_EncodeToString b) \<subseteq> set b32_alphabet"
proof
  fix c
  assume "c \<in> set (b32_EncodeToString b)"
  then obtain q where q: "q \<in> set (quintets (concat (map byte_bits b)))" "c = b32_alphabet ! bits_nat q"
    by (auto simp: b32_EncodeToString_def)
  then have "bits_nat q < 32" using quintets_length5 bits_nat_less [of q] by fastforce
  then show "c \<in> set b32_alphabet" using q by simp
qed

section \<open>The constant-time comparison\<close>

lemma or_xor_zero: "v OR (a XOR b) = (0 :: byte) \<longleftrightarrow> v = 0 \<and> a = b"
  by (simp add: bit_eq_iff bit_simps) blast

lemma ConstantTimeByteEq_iff: "ConstantTimeByteEq x y = (if x = y then 1 else 0)"
proof -
  have "unat (drop_bit 31 (ucast z - 1 :: 32 word)) = (if z = 0 then 1 else 0)" for z :: byte
  proof (cases "z = 0")
    case True
    then show ?thesis by (simp add: drop_bit_eq_div)
  next
    case False
    then have pos: "0 < unat z" by (simp add: unat_gt_0)
    have lt: "unat z < 256" using unsigned_less [of z, where ?'a = nat] by simp
    have "unat (ucast z :: 32 word) = unat z" using lt by (simp add: unsigned_ucast_eq take_bit_nat_eq_self)
    then have "unat (ucast z - 1 :: 32 word) = unat z - 1"
      using pos unat_minus_one [of "ucast z :: 32 word"] by (metis One_nat_def less_irrefl unsigned_0)
    then have "unat (drop_bit 31 (ucast z - 1 :: 32 word)) = (unat z - 1) div 2 ^ 31"
      by (simp add: drop_bit_eq_div unat_div_distrib)
    with lt False show ?thesis by simp
  qed
  then show ?thesis using or_xor_zero [of 0 x y] by (simp add: ConstantTimeByteEq_def)
qed

lemma fold_diff_zero:
  "fold (\<lambda>(a, b) v. v OR (a XOR b)) ps v = (0 :: byte) \<longleftrightarrow> v = 0 \<and> (\<forall>(a, b) \<in> set ps. a = b)"
  by (induction ps arbitrary: v) (auto simp: or_xor_zero)

lemma ConstantTimeCompare_iff: "ConstantTimeCompare a b = 1 \<longleftrightarrow> a = b"
proof (cases "length a = length b")
  case True
  have "(\<forall>(x, y) \<in> set (zip a b). x = y) \<longleftrightarrow> a = b"
    using True by (induction a b rule: list_induct2) auto
  with True show ?thesis
    by (simp add: ConstantTimeCompare_def ConstantTimeByteEq_iff fold_diff_zero)
qed (auto simp: ConstantTimeCompare_def)


section \<open>Properties\<close>

lemma keymat_New_ok:
  assumes "RandomBytes \<le> length rnd"
  shows "keymat_New sha prefix rnd =
    (Inr (prefix @ b32_EncodeToString (take 32 rnd),
          keymat_Hash sha (prefix @ b32_EncodeToString (take 32 rnd))), drop 32 rnd)"
  using assms by (simp add: keymat_New_def io_ReadFull_def Let_def RandomBytes_def keymat_Hash_def)

lemma keymat_New_short:
  assumes "length rnd < RandomBytes"
  shows "\<exists>m. keymat_New sha prefix rnd = (Inl (Opaque m), [])"
  using assms by (simp add: keymat_New_def io_ReadFull_def)

lemma keymat_New_success:
  assumes "keymat_New sha prefix rnd = (Inr (p, h), rest)"
  shows "p = prefix @ b32_EncodeToString (take 32 rnd)" "h = keymat_Hash sha p" "RandomBytes \<le> length rnd"
  using assms keymat_New_ok [of rnd sha prefix] keymat_New_short [of rnd sha prefix]
  by (cases "RandomBytes \<le> length rnd"; auto)+

lemmas keymat_New_hash = keymat_New_success(2)

lemma keymat_New_nonempty:
  assumes "keymat_New sha prefix rnd = (Inr (p, h), rest)"
  shows "p \<noteq> []"
proof -
  have "length (b32_EncodeToString (take 32 rnd)) = 52"
    using keymat_New_success(3) [OF assms] by (simp add: length_b32_EncodeToString RandomBytes_def)
  then show ?thesis using keymat_New_success(1) [OF assms] by auto
qed

lemma Validate_HasPrefix: "p @ q \<noteq> [] \<Longrightarrow> keymat_Validate (p @ q) p = None"
  by (auto simp: keymat_Validate_def HasPrefix_def)

lemma Sum256_ok: "sha256_ok sha256_Sum256"
  by (simp add: sha256_ok_def length_Sum256 HashSize_def)

text \<open>
  C31: A key made from a random source that delivers 32 bytes starts with the prefix, continues
  with exactly 52 characters of the base32 alphabet, passes \<open>Validate\<close> with that prefix and with
  the empty prefix the service uses, and its hash is a 32-byte value equal (in the constant-time
  comparison) to \<open>Hash\<close> of the plaintext; the source is advanced by 32 bytes. With fewer than 32
  bytes no key is made.
\<close>

theorem keymat_New_material:
  assumes "sha256_ok sha"
  shows "case keymat_New sha prefix rnd of
      (Inr (plaintext, hash), rest) \<Rightarrow>
        (\<exists>body. plaintext = prefix @ body \<and> length body = 52 \<and> set body \<subseteq> set b32_alphabet) \<and>
        keymat_Validate plaintext prefix = None \<and> keymat_Validate plaintext [] = None \<and>
        length hash = HashSize \<and> keymat_HashEqual hash (keymat_Hash sha plaintext) \<and>
        rnd = take 32 rnd @ rest \<and> length (take 32 rnd) = 32
    | (Inl err, rest) \<Rightarrow> length rnd < 32"
proof (cases "RandomBytes \<le> length rnd")
  case True
  let ?body = "b32_EncodeToString (take 32 rnd)"
  have len: "length ?body = 52"
    using True by (simp add: length_b32_EncodeToString RandomBytes_def)
  then have ne: "prefix @ ?body \<noteq> []" "prefix @ ?body @ [] \<noteq> []" by auto
  have "keymat_Validate (prefix @ ?body) [] = None"
    using ne by (simp add: keymat_Validate_def)
  with len True assms show ?thesis
    by (simp add: keymat_New_ok Validate_HasPrefix [OF ne(1)] set_b32_EncodeToString sha256_ok_def
        keymat_Hash_def keymat_HashEqual_def ConstantTimeCompare_iff [unfolded One_nat_def] RandomBytes_def)
next
  case False
  then show ?thesis using keymat_New_short [of rnd sha prefix] by (auto simp: RandomBytes_def)
qed

theorem keymat_New_material_witness:
  "\<exists>hash. keymat_New sha256_Sum256 ''ck_'' (replicate 32 (255 :: byte)) =
     (Inr (''ck_'' @ b32_EncodeToString (replicate 32 255), hash), []) \<and> length hash = 32 \<and>
   length (b32_EncodeToString (replicate 32 (255 :: byte))) = 52"
proof -
  have "keymat_New sha256_Sum256 ''ck_'' (replicate 32 (255 :: byte)) =
     (Inr (''ck_'' @ b32_EncodeToString (replicate 32 255),
       keymat_Hash sha256_Sum256 (''ck_'' @ b32_EncodeToString (replicate 32 255))), [])"
    by (simp add: keymat_New_ok RandomBytes_def keymat_Hash_def)
  with keymat_New_material [OF Sum256_ok, of "replicate 32 255" "''ck_''"] show ?thesis
    by (auto simp: HashSize_def)
qed

text \<open>
  Under one prefix, key generation is injective in the 32 random bytes: two keys have the same
  plaintext only if the same bytes were drawn. So the 256 bits of entropy all reach the plaintext.
\<close>

theorem keymat_New_injective:
  assumes "keymat_New sha prefix rnd = (Inr (p, h), rest)"
    and "keymat_New sha prefix rnd' = (Inr (p', h'), rest')"
  shows "p = p' \<longleftrightarrow> take 32 rnd = take 32 rnd'"
proof -
  have long: "RandomBytes \<le> length rnd" "RandomBytes \<le> length rnd'"
    using assms by (simp_all add: keymat_New_def io_ReadFull_def split: if_splits)
  have "p = prefix @ b32_EncodeToString (take 32 rnd)" "p' = prefix @ b32_EncodeToString (take 32 rnd')"
    using assms by (simp_all add: keymat_New_ok long)
  then show ?thesis using long by (simp add: b32_EncodeToString_inject RandomBytes_def)
qed

theorem keymat_New_injective_witness:
  "fst (keymat_New (\<lambda>m. []) ''ck_'' (replicate 32 0)) \<noteq> fst (keymat_New (\<lambda>m. []) ''ck_'' (replicate 32 1))"
proof -
  have new: "keymat_New (\<lambda>m. []) ''ck_'' (replicate 32 b) =
      (Inr (''ck_'' @ b32_EncodeToString (replicate 32 b), []), [])" for b
    by (simp add: keymat_New_ok RandomBytes_def keymat_Hash_def)
  show ?thesis
    using keymat_New_injective [OF new [of 0] new [of 1]] by (simp add: new)
qed

text \<open>
  \<open>HashEqual\<close>, an accumulation of byte differences followed by a branch-free test for zero,
  decides equality of its arguments, of whatever lengths.
\<close>

theorem keymat_HashEqual_iff: "keymat_HashEqual a b \<longleftrightarrow> a = b"
  unfolding keymat_HashEqual_def by (rule ConstantTimeCompare_iff)

end
