(* ===== verification/KC_Wire.thy ===== *)
theory KC_Wire
  imports KC_Prelude
begin

text \<open>
  Package \<open>gen/apikey/v1\<close>: the messages of the service and the getters the handlers call.

  A message pointer that may be nil is an option, and a getter on nil returns the zero value of
  the field. The timestamp message of the protobuf runtime is not part of the sources: it is a
  type parameter \<open>'ts\<close>, and its constructor and accessor are the fields of \<open>timestamppb\<close>, a
  parameter of the handlers. \<open>timestamps_ok\<close> is what the service relies on: a time survives the
  conversion to a timestamp and back.
\<close>

section \<open>Timestamps\<close>

record 'ts timestamppb =
  ts_New :: "gotime \<Rightarrow> 'ts"
  ts_AsTime :: "'ts \<Rightarrow> gotime"

definition timestamps_ok :: "'ts timestamppb \<Rightarrow> bool" where
  "timestamps_ok pb \<longleftrightarrow> (\<forall>t. ts_AsTime pb (ts_New pb t) = t)"

section \<open>Messages\<close>

datatype VerifyResult =
    VERIFY_RESULT_UNSPECIFIED
  | VERIFY_RESULT_VALID
  | VERIFY_RESULT_NOT_FOUND
  | VERIFY_RESULT_REVOKED
  | VERIFY_RESULT_EXPIRED
  | VERIFY_RESULT_DEPLETED
  | VERIFY_RESULT_FORBIDDEN
  | VERIFY_RESULT_RATE_LIMITED

record 'ts PB_Workspace =
  Workspace_WorkspaceId :: string
  Workspace_Name :: string
  Workspace_OwnerPrincipalId :: string
  Workspace_CreatedAt :: "'ts option"
  Workspace_UpdatedAt :: "'ts option"
  Workspace_Metadata :: gomap

record 'ts PB_Api =
  Api_ApiId :: string
  Api_WorkspaceId :: string
  Api_Name :: string
  Api_KeyPrefix :: string
  Api_CreatedAt :: "'ts option"
  Api_UpdatedAt :: "'ts option"
  Api_Metadata :: gomap

record PB_LimitRef =
  LimitRef_LimitId :: string
  LimitRef_ScopeKey :: string

record 'ts PB_ApiKey =
  ApiKey_KeyId :: string
  ApiKey_ApiId :: string
  ApiKey_WorkspaceId :: string
  ApiKey_OwnerPrincipalId :: string
  ApiKey_Name :: string
  ApiKey_Permissions :: "string list"
  ApiKey_LimitRefs :: "PB_LimitRef option list"
  ApiKey_ExpiresAt :: "'ts option"
  ApiKey_RemainingUses :: int64
  ApiKey_Enabled :: bool
  ApiKey_CreatedAt :: "'ts option"
  ApiKey_UpdatedAt :: "'ts option"
  ApiKey_LastVerifiedAt :: "'ts option"
  ApiKey_Metadata :: gomap

record PB_CreateWorkspaceRequest =
  CreateWorkspaceRequest_Name :: string
  CreateWorkspaceRequest_OwnerPrincipalId :: string
  CreateWorkspaceRequest_Metadata :: gomap

record 'ts PB_CreateWorkspaceResponse =
  CreateWorkspaceResponse_Workspace :: "'ts PB_Workspace option"

record PB_GetWorkspaceRequest =
  GetWorkspaceRequest_WorkspaceId :: string

record 'ts PB_GetWorkspaceResponse =
  GetWorkspaceResponse_Workspace :: "'ts PB_Workspace option"

record PB_CreateApiRequest =
  CreateApiRequest_WorkspaceId :: string
  CreateApiRequest_Name :: string
  CreateApiRequest_KeyPrefix :: string
  CreateApiRequest_Metadata :: gomap

record 'ts PB_CreateApiResponse =
  CreateApiResponse_Api :: "'ts PB_Api option"

record PB_GetApiRequest =
  GetApiRequest_ApiId :: string

record 'ts PB_GetApiResponse =
  GetApiResponse_Api :: "'ts PB_Api option"

record 'ts PB_CreateKeyRequest =
  CreateKeyRequest_ApiId :: string
  CreateKeyRequest_OwnerPrincipalId :: string
  CreateKeyRequest_Name :: string
  CreateKeyRequest_Permissions :: "string list"
  CreateKeyRequest_LimitRefs :: "PB_LimitRef option list"
  CreateKeyRequest_ExpiresAt :: "'ts option"
  CreateKeyRequest_RemainingUses :: int64
  CreateKeyRequest_Metadata :: gomap

record 'ts PB_CreateKeyResponse =
  CreateKeyResponse_Key :: "'ts PB_ApiKey option"
  CreateKeyResponse_Plaintext :: string

record PB_VerifyKeyRequest =
  VerifyKeyRequest_Plaintext :: string
  VerifyKeyRequest_RequiredPermissions :: "string list"
  VerifyKeyRequest_Action :: string
  VerifyKeyRequest_Cost :: int64
  VerifyKeyRequest_RequestId :: string
  VerifyKeyRequest_SkipRatelimit :: bool

record PB_LimitDecision =
  LimitDecision_LimitId :: string
  LimitDecision_ScopeKey :: string
  LimitDecision_Allowed :: bool
  LimitDecision_Remaining :: int64
  LimitDecision_RetryAfterMs :: int64

record PB_VerifyKeyResponse =
  VerifyKeyResponse_Valid :: bool
  VerifyKeyResponse_Result :: VerifyResult
  VerifyKeyResponse_KeyId :: string
  VerifyKeyResponse_ApiId :: string
  VerifyKeyResponse_WorkspaceId :: string
  VerifyKeyResponse_OwnerPrincipalId :: string
  VerifyKeyResponse_Permissions :: "string list"
  VerifyKeyResponse_LimitDecisions :: "PB_LimitDecision option list"

record PB_RevokeKeyRequest =
  RevokeKeyRequest_KeyId :: string

record PB_RotateKeyRequest =
  RotateKeyRequest_KeyId :: string

record 'ts PB_RotateKeyResponse =
  RotateKeyResponse_Key :: "'ts PB_ApiKey option"
  RotateKeyResponse_Plaintext :: string

record PB_ListKeysRequest =
  ListKeysRequest_ApiId :: string
  ListKeysRequest_OwnerPrincipalId :: string
  ListKeysRequest_PageSize :: int32
  ListKeysRequest_PageToken :: string

record 'ts PB_ListKeysResponse =
  ListKeysResponse_Keys :: "'ts PB_ApiKey option list"
  ListKeysResponse_NextPageToken :: string

record PB_GetKeyRequest =
  GetKeyRequest_KeyId :: string

record 'ts PB_GetKeyResponse =
  GetKeyResponse_Key :: "'ts PB_ApiKey option"

datatype PB_RevokeKeyResponse = PB_RevokeKeyResponse

section \<open>Getters\<close>

definition LimitRef_GetLimitId :: "PB_LimitRef option \<Rightarrow> string" where
  "LimitRef_GetLimitId x = (case x of Some m \<Rightarrow> LimitRef_LimitId m | None \<Rightarrow> [])"

definition LimitRef_GetScopeKey :: "PB_LimitRef option \<Rightarrow> string" where
  "LimitRef_GetScopeKey x = (case x of Some m \<Rightarrow> LimitRef_ScopeKey m | None \<Rightarrow> [])"

definition CreateWorkspaceRequest_GetName :: "PB_CreateWorkspaceRequest option \<Rightarrow> string" where
  "CreateWorkspaceRequest_GetName x = (case x of Some m \<Rightarrow> CreateWorkspaceRequest_Name m | None \<Rightarrow> [])"

definition CreateWorkspaceRequest_GetOwnerPrincipalId :: "PB_CreateWorkspaceRequest option \<Rightarrow> string" where
  "CreateWorkspaceRequest_GetOwnerPrincipalId x = (case x of Some m \<Rightarrow> CreateWorkspaceRequest_OwnerPrincipalId m | None \<Rightarrow> [])"

definition CreateWorkspaceRequest_GetMetadata :: "PB_CreateWorkspaceRequest option \<Rightarrow> gomap" where
  "CreateWorkspaceRequest_GetMetadata x = (case x of Some m \<Rightarrow> CreateWorkspaceRequest_Metadata m | None \<Rightarrow> None)"

definition GetWorkspaceRequest_GetWorkspaceId :: "PB_GetWorkspaceRequest option \<Rightarrow> string" where
  "GetWorkspaceRequest_GetWorkspaceId x = (case x of Some m \<Rightarrow> GetWorkspaceRequest_WorkspaceId m | None \<Rightarrow> [])"

definition CreateApiRequest_GetWorkspaceId :: "PB_CreateApiRequest option \<Rightarrow> string" where
  "CreateApiRequest_GetWorkspaceId x = (case x of Some m \<Rightarrow> CreateApiRequest_WorkspaceId m | None \<Rightarrow> [])"

definition CreateApiRequest_GetName :: "PB_CreateApiRequest option \<Rightarrow> string" where
  "CreateApiRequest_GetName x = (case x of Some m \<Rightarrow> CreateApiRequest_Name m | None \<Rightarrow> [])"

definition CreateApiRequest_GetKeyPrefix :: "PB_CreateApiRequest option \<Rightarrow> string" where
  "CreateApiRequest_GetKeyPrefix x = (case x of Some m \<Rightarrow> CreateApiRequest_KeyPrefix m | None \<Rightarrow> [])"

definition CreateApiRequest_GetMetadata :: "PB_CreateApiRequest option \<Rightarrow> gomap" where
  "CreateApiRequest_GetMetadata x = (case x of Some m \<Rightarrow> CreateApiRequest_Metadata m | None \<Rightarrow> None)"

definition GetApiRequest_GetApiId :: "PB_GetApiRequest option \<Rightarrow> string" where
  "GetApiRequest_GetApiId x = (case x of Some m \<Rightarrow> GetApiRequest_ApiId m | None \<Rightarrow> [])"

definition CreateKeyRequest_GetApiId :: "'ts PB_CreateKeyRequest option \<Rightarrow> string" where
  "CreateKeyRequest_GetApiId x = (case x of Some m \<Rightarrow> CreateKeyRequest_ApiId m | None \<Rightarrow> [])"

definition CreateKeyRequest_GetOwnerPrincipalId :: "'ts PB_CreateKeyRequest option \<Rightarrow> string" where
  "CreateKeyRequest_GetOwnerPrincipalId x = (case x of Some m \<Rightarrow> CreateKeyRequest_OwnerPrincipalId m | None \<Rightarrow> [])"

definition CreateKeyRequest_GetName :: "'ts PB_CreateKeyRequest option \<Rightarrow> string" where
  "CreateKeyRequest_GetName x = (case x of Some m \<Rightarrow> CreateKeyRequest_Name m | None \<Rightarrow> [])"

definition CreateKeyRequest_GetPermissions :: "'ts PB_CreateKeyRequest option \<Rightarrow> string list" where
  "CreateKeyRequest_GetPermissions x = (case x of Some m \<Rightarrow> CreateKeyRequest_Permissions m | None \<Rightarrow> [])"

definition CreateKeyRequest_GetLimitRefs :: "'ts PB_CreateKeyRequest option \<Rightarrow> PB_LimitRef option list" where
  "CreateKeyRequest_GetLimitRefs x = (case x of Some m \<Rightarrow> CreateKeyRequest_LimitRefs m | None \<Rightarrow> [])"

definition CreateKeyRequest_GetExpiresAt :: "'ts PB_CreateKeyRequest option \<Rightarrow> 'ts option" where
  "CreateKeyRequest_GetExpiresAt x = (case x of Some m \<Rightarrow> CreateKeyRequest_ExpiresAt m | None \<Rightarrow> None)"

definition CreateKeyRequest_GetRemainingUses :: "'ts PB_CreateKeyRequest option \<Rightarrow> int64" where
  "CreateKeyRequest_GetRemainingUses x = (case x of Some m \<Rightarrow> CreateKeyRequest_RemainingUses m | None \<Rightarrow> 0)"

definition CreateKeyRequest_GetMetadata :: "'ts PB_CreateKeyRequest option \<Rightarrow> gomap" where
  "CreateKeyRequest_GetMetadata x = (case x of Some m \<Rightarrow> CreateKeyRequest_Metadata m | None \<Rightarrow> None)"

definition VerifyKeyRequest_GetPlaintext :: "PB_VerifyKeyRequest option \<Rightarrow> string" where
  "VerifyKeyRequest_GetPlaintext x = (case x of Some m \<Rightarrow> VerifyKeyRequest_Plaintext m | None \<Rightarrow> [])"

definition VerifyKeyRequest_GetRequiredPermissions :: "PB_VerifyKeyRequest option \<Rightarrow> string list" where
  "VerifyKeyRequest_GetRequiredPermissions x = (case x of Some m \<Rightarrow> VerifyKeyRequest_RequiredPermissions m | None \<Rightarrow> [])"

definition VerifyKeyRequest_GetAction :: "PB_VerifyKeyRequest option \<Rightarrow> string" where
  "VerifyKeyRequest_GetAction x = (case x of Some m \<Rightarrow> VerifyKeyRequest_Action m | None \<Rightarrow> [])"

definition VerifyKeyRequest_GetCost :: "PB_VerifyKeyRequest option \<Rightarrow> int64" where
  "VerifyKeyRequest_GetCost x = (case x of Some m \<Rightarrow> VerifyKeyRequest_Cost m | None \<Rightarrow> 0)"

definition VerifyKeyRequest_GetRequestId :: "PB_VerifyKeyRequest option \<Rightarrow> string" where
  "VerifyKeyRequest_GetRequestId x = (case x of Some m \<Rightarrow> VerifyKeyRequest_RequestId m | None \<Rightarrow> [])"

definition VerifyKeyRequest_GetSkipRatelimit :: "PB_VerifyKeyRequest option \<Rightarrow> bool" where
  "VerifyKeyRequest_GetSkipRatelimit x = (case x of Some m \<Rightarrow> VerifyKeyRequest_SkipRatelimit m | None \<Rightarrow> False)"

definition RevokeKeyRequest_GetKeyId :: "PB_RevokeKeyRequest option \<Rightarrow> string" where
  "RevokeKeyRequest_GetKeyId x = (case x of Some m \<Rightarrow> RevokeKeyRequest_KeyId m | None \<Rightarrow> [])"

definition RotateKeyRequest_GetKeyId :: "PB_RotateKeyRequest option \<Rightarrow> string" where
  "RotateKeyRequest_GetKeyId x = (case x of Some m \<Rightarrow> RotateKeyRequest_KeyId m | None \<Rightarrow> [])"

definition ListKeysRequest_GetApiId :: "PB_ListKeysRequest option \<Rightarrow> string" where
  "ListKeysRequest_GetApiId x = (case x of Some m \<Rightarrow> ListKeysRequest_ApiId m | None \<Rightarrow> [])"

definition ListKeysRequest_GetOwnerPrincipalId :: "PB_ListKeysRequest option \<Rightarrow> string" where
  "ListKeysRequest_GetOwnerPrincipalId x = (case x of Some m \<Rightarrow> ListKeysRequest_OwnerPrincipalId m | None \<Rightarrow> [])"

definition ListKeysRequest_GetPageSize :: "PB_ListKeysRequest option \<Rightarrow> int32" where
  "ListKeysRequest_GetPageSize x = (case x of Some m \<Rightarrow> ListKeysRequest_PageSize m | None \<Rightarrow> 0)"

definition ListKeysRequest_GetPageToken :: "PB_ListKeysRequest option \<Rightarrow> string" where
  "ListKeysRequest_GetPageToken x = (case x of Some m \<Rightarrow> ListKeysRequest_PageToken m | None \<Rightarrow> [])"

definition GetKeyRequest_GetKeyId :: "PB_GetKeyRequest option \<Rightarrow> string" where
  "GetKeyRequest_GetKeyId x = (case x of Some m \<Rightarrow> GetKeyRequest_KeyId m | None \<Rightarrow> [])"

lemmas getter_defs =
  LimitRef_GetLimitId_def LimitRef_GetScopeKey_def CreateWorkspaceRequest_GetName_def
  CreateWorkspaceRequest_GetOwnerPrincipalId_def CreateWorkspaceRequest_GetMetadata_def
  GetWorkspaceRequest_GetWorkspaceId_def CreateApiRequest_GetWorkspaceId_def
  CreateApiRequest_GetName_def CreateApiRequest_GetKeyPrefix_def
  CreateApiRequest_GetMetadata_def GetApiRequest_GetApiId_def CreateKeyRequest_GetApiId_def
  CreateKeyRequest_GetOwnerPrincipalId_def CreateKeyRequest_GetName_def
  CreateKeyRequest_GetPermissions_def CreateKeyRequest_GetLimitRefs_def
  CreateKeyRequest_GetExpiresAt_def CreateKeyRequest_GetRemainingUses_def
  CreateKeyRequest_GetMetadata_def VerifyKeyRequest_GetPlaintext_def
  VerifyKeyRequest_GetRequiredPermissions_def VerifyKeyRequest_GetAction_def
  VerifyKeyRequest_GetCost_def VerifyKeyRequest_GetRequestId_def
  VerifyKeyRequest_GetSkipRatelimit_def RevokeKeyRequest_GetKeyId_def
  RotateKeyRequest_GetKeyId_def ListKeysRequest_GetApiId_def
  ListKeysRequest_GetOwnerPrincipalId_def ListKeysRequest_GetPageSize_def
  ListKeysRequest_GetPageToken_def GetKeyRequest_GetKeyId_def

text \<open>On a present message a getter is the field.\<close>

lemma getters_Some [simp]:
  "LimitRef_GetLimitId (Some mLimitRef) = LimitRef_LimitId mLimitRef"
  "LimitRef_GetScopeKey (Some mLimitRef) = LimitRef_ScopeKey mLimitRef"
  "CreateWorkspaceRequest_GetName (Some mCreateWorkspaceRequest) = CreateWorkspaceRequest_Name mCreateWorkspaceRequest"
  "CreateWorkspaceRequest_GetOwnerPrincipalId (Some mCreateWorkspaceRequest) = CreateWorkspaceRequest_OwnerPrincipalId mCreateWorkspaceRequest"
  "CreateWorkspaceRequest_GetMetadata (Some mCreateWorkspaceRequest) = CreateWorkspaceRequest_Metadata mCreateWorkspaceRequest"
  "GetWorkspaceRequest_GetWorkspaceId (Some mGetWorkspaceRequest) = GetWorkspaceRequest_WorkspaceId mGetWorkspaceRequest"
  "CreateApiRequest_GetWorkspaceId (Some mCreateApiRequest) = CreateApiRequest_WorkspaceId mCreateApiRequest"
  "CreateApiRequest_GetName (Some mCreateApiRequest) = CreateApiRequest_Name mCreateApiRequest"
  "CreateApiRequest_GetKeyPrefix (Some mCreateApiRequest) = CreateApiRequest_KeyPrefix mCreateApiRequest"
  "CreateApiRequest_GetMetadata (Some mCreateApiRequest) = CreateApiRequest_Metadata mCreateApiRequest"
  "GetApiRequest_GetApiId (Some mGetApiRequest) = GetApiRequest_ApiId mGetApiRequest"
  "CreateKeyRequest_GetApiId (Some mCreateKeyRequest) = CreateKeyRequest_ApiId mCreateKeyRequest"
  "CreateKeyRequest_GetOwnerPrincipalId (Some mCreateKeyRequest) = CreateKeyRequest_OwnerPrincipalId mCreateKeyRequest"
  "CreateKeyRequest_GetName (Some mCreateKeyRequest) = CreateKeyRequest_Name mCreateKeyRequest"
  "CreateKeyRequest_GetPermissions (Some mCreateKeyRequest) = CreateKeyRequest_Permissions mCreateKeyRequest"
  "CreateKeyRequest_GetLimitRefs (Some mCreateKeyRequest) = CreateKeyRequest_LimitRefs mCreateKeyRequest"
  "CreateKeyRequest_GetExpiresAt (Some mCreateKeyRequest) = CreateKeyRequest_ExpiresAt mCreateKeyRequest"
  "CreateKeyRequest_GetRemainingUses (Some mCreateKeyRequest) = CreateKeyRequest_RemainingUses mCreateKeyRequest"
  "CreateKeyRequest_GetMetadata (Some mCreateKeyRequest) = CreateKeyRequest_Metadata mCreateKeyRequest"
  "VerifyKeyRequest_GetPlaintext (Some mVerifyKeyRequest) = VerifyKeyRequest_Plaintext mVerifyKeyRequest"
  "VerifyKeyRequest_GetRequiredPermissions (Some mVerifyKeyRequest) = VerifyKeyRequest_RequiredPermissions mVerifyKeyRequest"
  "VerifyKeyRequest_GetAction (Some mVerifyKeyRequest) = VerifyKeyRequest_Action mVerifyKeyRequest"
  "VerifyKeyRequest_GetCost (Some mVerifyKeyRequest) = VerifyKeyRequest_Cost mVerifyKeyRequest"
  "VerifyKeyRequest_GetRequestId (Some mVerifyKeyRequest) = VerifyKeyRequest_RequestId mVerifyKeyRequest"
  "VerifyKeyRequest_GetSkipRatelimit (Some mVerifyKeyRequest) = VerifyKeyRequest_SkipRatelimit mVerifyKeyRequest"
  "RevokeKeyRequest_GetKeyId (Some mRevokeKeyRequest) = RevokeKeyRequest_KeyId mRevokeKeyRequest"
  "RotateKeyRequest_GetKeyId (Some mRotateKeyRequest) = RotateKeyRequest_KeyId mRotateKeyRequest"
  "ListKeysRequest_GetApiId (Some mListKeysRequest) = ListKeysRequest_ApiId mListKeysRequest"
  "ListKeysRequest_GetOwnerPrincipalId (Some mListKeysRequest) = ListKeysRequest_OwnerPrincipalId mListKeysRequest"
  "ListKeysRequest_GetPageSize (Some mListKeysRequest) = ListKeysRequest_PageSize mListKeysRequest"
  "ListKeysRequest_GetPageToken (Some mListKeysRequest) = ListKeysRequest_PageToken mListKeysRequest"
  "GetKeyRequest_GetKeyId (Some mGetKeyRequest) = GetKeyRequest_KeyId mGetKeyRequest"
  by (simp_all add: getter_defs)

end
