(* ===== verification/KC_Server.thy ===== *)
theory KC_Server
  imports KC_Store KC_Keymat KC_Wire
begin

text \<open>
  Package \<open>keychainserver\<close>: the options, the server and its ten RPC handlers, over any store.

  A handler takes the server, what the world supplies during the call, the store's state and the
  request; \<open>VerifyKey\<close> also takes the state of the rate limiter. It returns the response or a gRPC
  status, and the new states. \<open>c_env n\<close> is the environment of the handler's n-th store call,
  \<open>c_now\<close> and \<open>c_now'\<close> the two readings of the server's clock, \<open>c_rand\<close> what the random source
  delivers. Logging is not modelled.
\<close>

section \<open>Options, server, statuses\<close>

record LimitDecision =
  ld_LimitID :: string
  ld_ScopeKey :: string
  ld_Allowed :: bool
  ld_Remaining :: int64
  ld_RetryAfterMs :: int64

type_synonym 'r RateLimiter =
  "'r \<Rightarrow> LimitRef list \<Rightarrow> int64 \<Rightarrow> string \<Rightarrow> (goerr + LimitDecision list) \<times> 'r"

record ('e, 's, 'r) Options =
  opt_Store :: "('e, 's) Store option"
  opt_RateLimiter :: "'r RateLimiter option"

record ('e, 's, 'r) Server =
  srv_store :: "('e, 's) Store"
  srv_rl :: "'r RateLimiter option"

definition Server_New :: "('e, 's, 'r) Options \<Rightarrow> goerr + ('e, 's, 'r) Server" where
  "Server_New opts =
     (case opt_Store opts of
        None \<Rightarrow> Inl (Opaque ''keychainserver: Options.Store is required'')
      | Some st \<Rightarrow> Inr \<lparr>srv_store = st, srv_rl = opt_RateLimiter opts\<rparr>)"

text \<open>The libraries the handlers call: SHA-256 and the protobuf timestamps.\<close>

record 'ts libs =
  lib_sha :: "bytes \<Rightarrow> bytes"
  lib_pb :: "'ts timestamppb"

record 'e call =
  c_env :: "nat \<Rightarrow> 'e"
  c_now :: gotime
  c_now' :: gotime
  c_rand :: bytes

datatype grpc_code =
  InvalidArgument | NotFound | AlreadyExists | FailedPrecondition | Internal | Unavailable | Unimplemented

datatype status_message = Msg string | MsgErr goerr | MsgErrorf string goerr

datatype grpc_status = Status grpc_code status_message

section \<open>Helpers\<close>

definition mapStoreErr :: "goerr \<Rightarrow> grpc_status" where
  "mapStoreErr err =
     (if errors_Is err ErrNotFound then Status NotFound (MsgErr err)
      else if errors_Is err ErrConflict then Status AlreadyExists (MsgErr err)
      else Status Internal (MsgErr err))"

definition defaultLimitCost :: int64 where
  "defaultLimitCost = 1"

definition limitCost :: "int64 \<Rightarrow> int64" where
  "limitCost cost = (if sint cost \<le> 0 then defaultLimitCost else cost)"

text \<open>The two loops of \<open>hasAllPermissions\<close>: fill a set, then stop at the first absent permission.\<close>

fun permission_set :: "string list \<Rightarrow> (string \<rightharpoonup> unit) \<Rightarrow> (string \<rightharpoonup> unit)" where
  "permission_set [] m = m"
| "permission_set (p # ps) m = permission_set ps (m(p \<mapsto> ()))"

fun all_in_set :: "(string \<rightharpoonup> unit) \<Rightarrow> string list \<Rightarrow> bool" where
  "all_in_set m [] = True"
| "all_in_set m (p # ps) = (case m p of None \<Rightarrow> False | Some _ \<Rightarrow> all_in_set m ps)"

definition hasAllPermissions :: "string list \<Rightarrow> string list \<Rightarrow> bool" where
  "hasAllPermissions have required =
     (if length required = 0 then True
      else all_in_set (permission_set have Map.empty) required)"

definition notFound :: PB_VerifyKeyResponse where
  "notFound = \<lparr>VerifyKeyResponse_Valid = False, VerifyKeyResponse_Result = VERIFY_RESULT_NOT_FOUND,
     VerifyKeyResponse_KeyId = [], VerifyKeyResponse_ApiId = [], VerifyKeyResponse_WorkspaceId = [],
     VerifyKeyResponse_OwnerPrincipalId = [], VerifyKeyResponse_Permissions = [],
     VerifyKeyResponse_LimitDecisions = []\<rparr>"

section \<open>Converters\<close>

definition workspaceToProto :: "'ts libs \<Rightarrow> Workspace \<Rightarrow> 'ts PB_Workspace" where
  "workspaceToProto L w = \<lparr>Workspace_WorkspaceId = w_WorkspaceID w, Workspace_Name = w_Name w,
     Workspace_OwnerPrincipalId = w_OwnerPrincipalID w,
     Workspace_CreatedAt = Some (ts_New (lib_pb L) (w_CreatedAt w)),
     Workspace_UpdatedAt = Some (ts_New (lib_pb L) (w_UpdatedAt w)),
     Workspace_Metadata = w_Metadata w\<rparr>"

definition apiToProto :: "'ts libs \<Rightarrow> API \<Rightarrow> 'ts PB_Api" where
  "apiToProto L a = \<lparr>Api_ApiId = a_APIID a, Api_WorkspaceId = a_WorkspaceID a, Api_Name = a_Name a,
     Api_KeyPrefix = a_KeyPrefix a,
     Api_CreatedAt = Some (ts_New (lib_pb L) (a_CreatedAt a)),
     Api_UpdatedAt = Some (ts_New (lib_pb L) (a_UpdatedAt a)),
     Api_Metadata = a_Metadata a\<rparr>"

definition limitRefsToProto :: "LimitRef list \<Rightarrow> PB_LimitRef option list" where
  "limitRefsToProto rs = map (\<lambda>r. Some \<lparr>LimitRef_LimitId = lr_LimitID r, LimitRef_ScopeKey = lr_ScopeKey r\<rparr>) rs"

definition limitRefsFromProto :: "PB_LimitRef option list \<Rightarrow> LimitRef list" where
  "limitRefsFromProto rs =
     map (\<lambda>r. \<lparr>lr_LimitID = LimitRef_GetLimitId r, lr_ScopeKey = LimitRef_GetScopeKey r\<rparr>) rs"

definition keyToProto :: "'ts libs \<Rightarrow> Key \<Rightarrow> 'ts PB_ApiKey" where
  "keyToProto L k =
     (let out = \<lparr>ApiKey_KeyId = k_KeyID k, ApiKey_ApiId = k_APIID k,
        ApiKey_WorkspaceId = k_WorkspaceID k, ApiKey_OwnerPrincipalId = k_OwnerPrincipalID k,
        ApiKey_Name = k_Name k, ApiKey_Permissions = k_Permissions k,
        ApiKey_LimitRefs = limitRefsToProto (k_LimitRefs k), ApiKey_ExpiresAt = None,
        ApiKey_RemainingUses = k_RemainingUses k, ApiKey_Enabled = k_Enabled k,
        ApiKey_CreatedAt = Some (ts_New (lib_pb L) (k_CreatedAt k)),
        ApiKey_UpdatedAt = Some (ts_New (lib_pb L) (k_UpdatedAt k)),
        ApiKey_LastVerifiedAt = None, ApiKey_Metadata = k_Metadata k\<rparr>;
      out = (case k_ExpiresAt k of None \<Rightarrow> out
             | Some t \<Rightarrow> out\<lparr>ApiKey_ExpiresAt := Some (ts_New (lib_pb L) t)\<rparr>)
      in (case k_LastVerifiedAt k of None \<Rightarrow> out
          | Some t \<Rightarrow> out\<lparr>ApiKey_LastVerifiedAt := Some (ts_New (lib_pb L) t)\<rparr>))"

definition limitDecisionsToProto :: "LimitDecision list \<Rightarrow> PB_LimitDecision option list" where
  "limitDecisionsToProto ds = map (\<lambda>d. Some \<lparr>LimitDecision_LimitId = ld_LimitID d,
     LimitDecision_ScopeKey = ld_ScopeKey d, LimitDecision_Allowed = ld_Allowed d,
     LimitDecision_Remaining = ld_Remaining d, LimitDecision_RetryAfterMs = ld_RetryAfterMs d\<rparr>) ds"

definition timeFromProto :: "'ts libs \<Rightarrow> 'ts option \<Rightarrow> gotime option" where
  "timeFromProto L t = (case t of None \<Rightarrow> None | Some ts \<Rightarrow> Some (ts_AsTime (lib_pb L) ts))"

section \<open>Workspace and API handlers\<close>

definition Server_CreateWorkspace ::
  "'ts libs \<Rightarrow> ('e, 's, 'r) Server \<Rightarrow> 'e call \<Rightarrow> 's \<Rightarrow> PB_CreateWorkspaceRequest option \<Rightarrow>
   (grpc_status + 'ts PB_CreateWorkspaceResponse) \<times> 's" where
  "Server_CreateWorkspace L srv c s req =
     (if CreateWorkspaceRequest_GetName req = []
      then (Inl (Status InvalidArgument (Msg ''name is required'')), s)
      else if CreateWorkspaceRequest_GetOwnerPrincipalId req = []
      then (Inl (Status InvalidArgument (Msg ''owner_principal_id is required'')), s)
      else
        case CreateWorkspace (srv_store srv) (c_env c 0) s
               \<lparr>w_WorkspaceID = [], w_Name = CreateWorkspaceRequest_GetName req,
                w_OwnerPrincipalID = CreateWorkspaceRequest_GetOwnerPrincipalId req,
                w_CreatedAt = zero_time, w_UpdatedAt = zero_time,
                w_Metadata = CreateWorkspaceRequest_GetMetadata req\<rparr> of
          (Inl err, s') \<Rightarrow> (Inl (mapStoreErr err), s')
        | (Inr w, s') \<Rightarrow>
            (Inr \<lparr>CreateWorkspaceResponse_Workspace = Some (workspaceToProto L w)\<rparr>, s'))"

definition Server_GetWorkspace ::
  "'ts libs \<Rightarrow> ('e, 's, 'r) Server \<Rightarrow> 'e call \<Rightarrow> 's \<Rightarrow> PB_GetWorkspaceRequest option \<Rightarrow>
   (grpc_status + 'ts PB_GetWorkspaceResponse) \<times> 's" where
  "Server_GetWorkspace L srv c s req =
     (if GetWorkspaceRequest_GetWorkspaceId req = []
      then (Inl (Status InvalidArgument (Msg ''workspace_id is required'')), s)
      else
        case GetWorkspace (srv_store srv) (c_env c 0) s (GetWorkspaceRequest_GetWorkspaceId req) of
          (Inl err, s') \<Rightarrow> (Inl (mapStoreErr err), s')
        | (Inr w, s') \<Rightarrow>
            (Inr \<lparr>GetWorkspaceResponse_Workspace = Some (workspaceToProto L w)\<rparr>, s'))"

definition Server_CreateApi ::
  "'ts libs \<Rightarrow> ('e, 's, 'r) Server \<Rightarrow> 'e call \<Rightarrow> 's \<Rightarrow> PB_CreateApiRequest option \<Rightarrow>
   (grpc_status + 'ts PB_CreateApiResponse) \<times> 's" where
  "Server_CreateApi L srv c s req =
     (if CreateApiRequest_GetWorkspaceId req = []
      then (Inl (Status InvalidArgument (Msg ''workspace_id is required'')), s)
      else if CreateApiRequest_GetName req = []
      then (Inl (Status InvalidArgument (Msg ''name is required'')), s)
      else
        case CreateAPI (srv_store srv) (c_env c 0) s
               \<lparr>a_APIID = [], a_WorkspaceID = CreateApiRequest_GetWorkspaceId req,
                a_Name = CreateApiRequest_GetName req, a_KeyPrefix = CreateApiRequest_GetKeyPrefix req,
                a_CreatedAt = zero_time, a_UpdatedAt = zero_time, a_Metadata = CreateApiRequest_GetMetadata req\<rparr> of
          (Inl err, s') \<Rightarrow> (Inl (mapStoreErr err), s')
        | (Inr a, s') \<Rightarrow> (Inr \<lparr>CreateApiResponse_Api = Some (apiToProto L a)\<rparr>, s'))"

definition Server_GetApi ::
  "'ts libs \<Rightarrow> ('e, 's, 'r) Server \<Rightarrow> 'e call \<Rightarrow> 's \<Rightarrow> PB_GetApiRequest option \<Rightarrow>
   (grpc_status + 'ts PB_GetApiResponse) \<times> 's" where
  "Server_GetApi L srv c s req =
     (if GetApiRequest_GetApiId req = []
      then (Inl (Status InvalidArgument (Msg ''api_id is required'')), s)
      else
        case GetAPI (srv_store srv) (c_env c 0) s (GetApiRequest_GetApiId req) of
          (Inl err, s') \<Rightarrow> (Inl (mapStoreErr err), s')
        | (Inr a, s') \<Rightarrow> (Inr \<lparr>GetApiResponse_Api = Some (apiToProto L a)\<rparr>, s'))"

section \<open>Key handlers\<close>

text \<open>The \<open>store.Key\<close> literal of \<open>CreateKey\<close>.\<close>

definition key_of_request ::
  "'ts libs \<Rightarrow> 'ts PB_CreateKeyRequest option \<Rightarrow> API \<Rightarrow> bytes \<Rightarrow> int64 \<Rightarrow> Key" where
  "key_of_request L req api hash remaining =
     \<lparr>k_KeyID = [], k_APIID = a_APIID api, k_WorkspaceID = a_WorkspaceID api,
      k_OwnerPrincipalID = CreateKeyRequest_GetOwnerPrincipalId req,
      k_Name = CreateKeyRequest_GetName req, k_KeyHash = hash,
      k_Permissions = CreateKeyRequest_GetPermissions req,
      k_LimitRefs = limitRefsFromProto (CreateKeyRequest_GetLimitRefs req),
      k_ExpiresAt = timeFromProto L (CreateKeyRequest_GetExpiresAt req),
      k_RemainingUses = remaining, k_Enabled = True,
      k_CreatedAt = zero_time, k_UpdatedAt = zero_time, k_LastVerifiedAt = None,
      k_Metadata = CreateKeyRequest_GetMetadata req\<rparr>"

definition Server_CreateKey ::
  "'ts libs \<Rightarrow> ('e, 's, 'r) Server \<Rightarrow> 'e call \<Rightarrow> 's \<Rightarrow> 'ts PB_CreateKeyRequest option \<Rightarrow>
   (grpc_status + 'ts PB_CreateKeyResponse) \<times> 's" where
  "Server_CreateKey L srv c s req =
     (if CreateKeyRequest_GetApiId req = []
      then (Inl (Status InvalidArgument (Msg ''api_id is required'')), s)
      else if CreateKeyRequest_GetOwnerPrincipalId req = []
      then (Inl (Status InvalidArgument (Msg ''owner_principal_id is required'')), s)
      else
        case GetAPI (srv_store srv) (c_env c 0) s (CreateKeyRequest_GetApiId req) of
          (Inl err, s1) \<Rightarrow> (Inl (mapStoreErr err), s1)
        | (Inr api, s1) \<Rightarrow>
            (case fst (keymat_New (lib_sha L) (a_KeyPrefix api) (c_rand c)) of
               Inl err \<Rightarrow> (Inl (Status Internal (MsgErrorf ''generate key material: %v'' err)), s1)
             | Inr (plaintext, hash) \<Rightarrow>
                 let remaining = CreateKeyRequest_GetRemainingUses req;
                     remaining = (if sint remaining \<le> 0 then -1 else remaining);
                     k = key_of_request L req api hash remaining
                 in (case CreateKey (srv_store srv) (c_env c 1) s1 k of
                       (Inl err, s2) \<Rightarrow> (Inl (mapStoreErr err), s2)
                     | (Inr created, s2) \<Rightarrow>
                         (Inr \<lparr>CreateKeyResponse_Key = Some (keyToProto L created),
                               CreateKeyResponse_Plaintext = plaintext\<rparr>, s2))))"

definition Server_GetKey ::
  "'ts libs \<Rightarrow> ('e, 's, 'r) Server \<Rightarrow> 'e call \<Rightarrow> 's \<Rightarrow> PB_GetKeyRequest option \<Rightarrow>
   (grpc_status + 'ts PB_GetKeyResponse) \<times> 's" where
  "Server_GetKey L srv c s req =
     (if GetKeyRequest_GetKeyId req = []
      then (Inl (Status InvalidArgument (Msg ''key_id is required'')), s)
      else
        case GetKeyByID (srv_store srv) (c_env c 0) s (GetKeyRequest_GetKeyId req) of
          (Inl err, s') \<Rightarrow> (Inl (mapStoreErr err), s')
        | (Inr k, s') \<Rightarrow> (Inr \<lparr>GetKeyResponse_Key = Some (keyToProto L k)\<rparr>, s'))"

definition Server_RevokeKey ::
  "('e, 's, 'r) Server \<Rightarrow> 'e call \<Rightarrow> 's \<Rightarrow> PB_RevokeKeyRequest option \<Rightarrow>
   (grpc_status + PB_RevokeKeyResponse) \<times> 's" where
  "Server_RevokeKey srv c s req =
     (if RevokeKeyRequest_GetKeyId req = []
      then (Inl (Status InvalidArgument (Msg ''key_id is required'')), s)
      else
        case RevokeKey (srv_store srv) (c_env c 0) s (RevokeKeyRequest_GetKeyId req) of
          (Inl err, s') \<Rightarrow> (Inl (mapStoreErr err), s')
        | (Inr _, s') \<Rightarrow> (Inr PB_RevokeKeyResponse, s'))"

definition Server_RotateKey ::
  "'ts libs \<Rightarrow> ('e, 's, 'r) Server \<Rightarrow> 'e call \<Rightarrow> 's \<Rightarrow> PB_RotateKeyRequest option \<Rightarrow>
   (grpc_status + 'ts PB_RotateKeyResponse) \<times> 's" where
  "Server_RotateKey L srv c s req =
     (if RotateKeyRequest_GetKeyId req = []
      then (Inl (Status InvalidArgument (Msg ''key_id is required'')), s)
      else
        case GetKeyByID (srv_store srv) (c_env c 0) s (RotateKeyRequest_GetKeyId req) of
          (Inl err, s1) \<Rightarrow> (Inl (mapStoreErr err), s1)
        | (Inr existing, s1) \<Rightarrow>
            (case GetAPI (srv_store srv) (c_env c 1) s1 (k_APIID existing) of
               (Inl err, s2) \<Rightarrow> (Inl (mapStoreErr err), s2)
             | (Inr api, s2) \<Rightarrow>
                 (case fst (keymat_New (lib_sha L) (a_KeyPrefix api) (c_rand c)) of
                    Inl err \<Rightarrow> (Inl (Status Internal (MsgErrorf ''generate key material: %v'' err)), s2)
                  | Inr (plaintext, hash) \<Rightarrow>
                      (case RotateKey (srv_store srv) (c_env c 2) s2 (RotateKeyRequest_GetKeyId req) hash of
                         (Inl err, s3) \<Rightarrow> (Inl (mapStoreErr err), s3)
                       | (Inr rotated, s3) \<Rightarrow>
                           (Inr \<lparr>RotateKeyResponse_Key = Some (keyToProto L rotated),
                                 RotateKeyResponse_Plaintext = plaintext\<rparr>, s3)))))"

definition Server_ListKeys ::
  "'ts libs \<Rightarrow> ('e, 's, 'r) Server \<Rightarrow> 'e call \<Rightarrow> 's \<Rightarrow> PB_ListKeysRequest option \<Rightarrow>
   (grpc_status + 'ts PB_ListKeysResponse) \<times> 's" where
  "Server_ListKeys L srv c s req =
     (if ListKeysRequest_GetApiId req = []
      then (Inl (Status InvalidArgument (Msg ''api_id is required'')), s)
      else
        case ListKeys (srv_store srv) (c_env c 0) s
               \<lparr>o_APIID = ListKeysRequest_GetApiId req,
                o_OwnerPrincipalID = ListKeysRequest_GetOwnerPrincipalId req,
                o_PageSize = ListKeysRequest_GetPageSize req,
                o_PageToken = ListKeysRequest_GetPageToken req\<rparr> of
          (Inl err, s') \<Rightarrow> (Inl (mapStoreErr err), s')
        | (Inr res, s') \<Rightarrow>
            (Inr \<lparr>ListKeysResponse_Keys = map (\<lambda>k. Some (keyToProto L k)) (r_Keys res),
                  ListKeysResponse_NextPageToken = r_NextPageToken res\<rparr>, s'))"

section \<open>VerifyKey\<close>

definition verify_response :: "Key \<Rightarrow> PB_VerifyKeyResponse" where
  "verify_response k = \<lparr>VerifyKeyResponse_Valid = False,
     VerifyKeyResponse_Result = VERIFY_RESULT_UNSPECIFIED,
     VerifyKeyResponse_KeyId = k_KeyID k, VerifyKeyResponse_ApiId = k_APIID k,
     VerifyKeyResponse_WorkspaceId = k_WorkspaceID k,
     VerifyKeyResponse_OwnerPrincipalId = k_OwnerPrincipalID k,
     VerifyKeyResponse_Permissions = k_Permissions k, VerifyKeyResponse_LimitDecisions = []\<rparr>"

definition rejected :: "PB_VerifyKeyResponse \<Rightarrow> VerifyResult \<Rightarrow> PB_VerifyKeyResponse" where
  "rejected resp res = resp\<lparr>VerifyKeyResponse_Result := res\<rparr>"

text \<open>The tail of the handler: decrement, then touch, then report a valid key.\<close>

definition verify_commit ::
  "('e, 's, 'r) Server \<Rightarrow> 'e call \<Rightarrow> 's \<Rightarrow> Key \<Rightarrow> PB_VerifyKeyResponse \<Rightarrow>
   (grpc_status + PB_VerifyKeyResponse) \<times> 's" where
  "verify_commit srv c s k resp =
     (let touch = (\<lambda>s1.
            (Inr (resp\<lparr>VerifyKeyResponse_Valid := True,
                       VerifyKeyResponse_Result := VERIFY_RESULT_VALID\<rparr>),
             snd (TouchLastVerified (srv_store srv) (c_env c 2) s1 (k_KeyID k) (c_now' c))))
      in if 0 < sint (k_RemainingUses k) then
           (case DecrementRemainingUses (srv_store srv) (c_env c 1) s (k_KeyID k) of
              ((_, Some err), s1) \<Rightarrow>
                if errors_Is err ErrDepleted then (Inr (rejected resp VERIFY_RESULT_DEPLETED), s1)
                else (Inl (Status Internal (MsgErrorf ''decrement remaining uses: %v'' err)), s1)
            | ((_, None), s1) \<Rightarrow> touch s1)
         else touch s)"

definition Server_VerifyKey ::
  "'ts libs \<Rightarrow> ('e, 's, 'r) Server \<Rightarrow> 'e call \<Rightarrow> 's \<Rightarrow> 'r \<Rightarrow> PB_VerifyKeyRequest option \<Rightarrow>
   (grpc_status + PB_VerifyKeyResponse) \<times> 's \<times> 'r" where
  "Server_VerifyKey L srv c s r req =
     (if keymat_Validate (VerifyKeyRequest_GetPlaintext req) [] \<noteq> None then (Inr notFound, s, r)
      else
        let hash = keymat_Hash (lib_sha L) (VerifyKeyRequest_GetPlaintext req) in
        case GetKeyByHash (srv_store srv) (c_env c 0) s hash of
          (Inl err, s1) \<Rightarrow>
            if errors_Is err ErrNotFound then (Inr notFound, s1, r)
            else (Inl (Status Internal (MsgErrorf ''lookup key: %v'' err)), s1, r)
        | (Inr k, s1) \<Rightarrow>
            let resp = verify_response k in
            if \<not> k_Enabled k then (Inr (rejected resp VERIFY_RESULT_REVOKED), s1, r)
            else if (case k_ExpiresAt k of None \<Rightarrow> False | Some t \<Rightarrow> \<not> c_now c < t)
            then (Inr (rejected resp VERIFY_RESULT_EXPIRED), s1, r)
            else if k_RemainingUses k = 0 then (Inr (rejected resp VERIFY_RESULT_DEPLETED), s1, r)
            else if \<not> hasAllPermissions (k_Permissions k) (VerifyKeyRequest_GetRequiredPermissions req)
            then (Inr (rejected resp VERIFY_RESULT_FORBIDDEN), s1, r)
            else if \<not> VerifyKeyRequest_GetSkipRatelimit req \<and> 0 < length (k_LimitRefs k) then
              (case srv_rl srv of
                 None \<Rightarrow>
                   (Inl (Status FailedPrecondition
                      (Msg ''rate-limiter client not configured but key has limit_refs'')), s1, r)
               | Some consume \<Rightarrow>
                   (case consume r (k_LimitRefs k) (limitCost (VerifyKeyRequest_GetCost req))
                           (VerifyKeyRequest_GetRequestId req) of
                      (Inl err, r') \<Rightarrow>
                        (Inl (Status Unavailable (MsgErrorf ''rate-limiter consume: %v'' err)), s1, r')
                    | (Inr decisions, r') \<Rightarrow>
                        let resp = resp\<lparr>VerifyKeyResponse_LimitDecisions := limitDecisionsToProto decisions\<rparr>
                        in if \<exists>d \<in> set decisions. \<not> ld_Allowed d
                           then (Inr (rejected resp VERIFY_RESULT_RATE_LIMITED), s1, r')
                           else (case verify_commit srv c s1 k resp of (res, s2) \<Rightarrow> (res, s2, r'))))
            else (case verify_commit srv c s1 k resp of (res, s2) \<Rightarrow> (res, s2, r)))"

section \<open>The shape of a verification\<close>

definition decision_denied :: "PB_LimitDecision option \<Rightarrow> bool" where
  "decision_denied d = (case d of None \<Rightarrow> False | Some x \<Rightarrow> \<not> LimitDecision_Allowed x)"

lemma denied_iff: "(\<exists>d \<in> set (limitDecisionsToProto ds). decision_denied d) \<longleftrightarrow> (\<exists>d \<in> set ds. \<not> ld_Allowed d)"
  by (auto simp: limitDecisionsToProto_def decision_denied_def)

definition response_shape :: "PB_VerifyKeyResponse \<Rightarrow> bool" where
  "response_shape resp \<longleftrightarrow>
     (VerifyKeyResponse_Valid resp \<longleftrightarrow> VerifyKeyResponse_Result resp = VERIFY_RESULT_VALID) \<and>
     VerifyKeyResponse_Result resp \<noteq> VERIFY_RESULT_UNSPECIFIED \<and>
     (VerifyKeyResponse_Result resp = VERIFY_RESULT_NOT_FOUND \<longleftrightarrow> resp = notFound) \<and>
     (VerifyKeyResponse_Result resp = VERIFY_RESULT_RATE_LIMITED \<longleftrightarrow>
       (\<exists>d \<in> set (VerifyKeyResponse_LimitDecisions resp). decision_denied d))"

lemma notFound_sel [simp]:
  "VerifyKeyResponse_Result notFound = VERIFY_RESULT_NOT_FOUND" "\<not> VerifyKeyResponse_Valid notFound"
  "VerifyKeyResponse_LimitDecisions notFound = []"
  by (simp_all add: notFound_def)

lemma shape_intros:
  "response_shape notFound"
  "\<forall>d \<in> set (VerifyKeyResponse_LimitDecisions resp). \<not> decision_denied d \<Longrightarrow>
     response_shape (resp\<lparr>VerifyKeyResponse_Valid := True, VerifyKeyResponse_Result := VERIFY_RESULT_VALID\<rparr>)"
  "\<not> VerifyKeyResponse_Valid resp \<Longrightarrow> x \<notin> {VERIFY_RESULT_VALID, VERIFY_RESULT_UNSPECIFIED, VERIFY_RESULT_NOT_FOUND} \<Longrightarrow>
     (x = VERIFY_RESULT_RATE_LIMITED \<longleftrightarrow> (\<exists>d \<in> set (VerifyKeyResponse_LimitDecisions resp). decision_denied d)) \<Longrightarrow>
     response_shape (rejected resp x)"
  by (auto simp: response_shape_def rejected_def dest!: arg_cong [of _ notFound VerifyKeyResponse_Result])

definition answer_shape :: "grpc_status + PB_VerifyKeyResponse \<Rightarrow> bool" where
  "answer_shape res \<longleftrightarrow>
     (case res of
        Inl (Status code m) \<Rightarrow> code \<in> {Internal, FailedPrecondition, Unavailable}
      | Inr resp \<Rightarrow> response_shape resp)"

lemma answer_shape_simps [simp]:
  "answer_shape (Inl (Status code m)) \<longleftrightarrow> code \<in> {Internal, FailedPrecondition, Unavailable}"
  "answer_shape (Inr resp) = response_shape resp"
  by (simp_all add: answer_shape_def)

lemma commit_shape:
  assumes "\<not> VerifyKeyResponse_Valid resp" "\<forall>d \<in> set (VerifyKeyResponse_LimitDecisions resp). \<not> decision_denied d"
    and "verify_commit srv c s k resp = (res, s')"
  shows "answer_shape res"
  using assms shape_intros(2) [OF assms(2)] shape_intros(3) [OF assms(1), of VERIFY_RESULT_DEPLETED]
  by (auto simp: verify_commit_def Let_def split: prod.splits option.splits if_splits)

text \<open>
  C25: Every answer of \<open>VerifyKey\<close> is well formed, whatever the store, the limiter and their faults do.
  An error carries one of the codes Internal, FailedPrecondition and Unavailable. A response is marked
  valid exactly when its result is VALID, never has an unspecified result, says NOT_FOUND exactly when
  it is the empty not-found response that names no key, and says RATE_LIMITED exactly when one of the
  limit decisions it carries is a denial.
\<close>

theorem verify_response_shape: "answer_shape (fst (Server_VerifyKey L srv c s r req))"
proof -
  have fresh: "\<not> VerifyKeyResponse_Valid (verify_response k)" "VerifyKeyResponse_LimitDecisions (verify_response k) = []" for k
    by (simp_all add: verify_response_def)
  note rejections = shape_intros(1) shape_intros(3) [OF fresh(1)]
  have limited: "response_shape (rejected (verify_response k\<lparr>VerifyKeyResponse_LimitDecisions := limitDecisionsToProto ds\<rparr>)
      VERIFY_RESULT_RATE_LIMITED)" if "\<exists>d \<in> set ds. \<not> ld_Allowed d" for k ds
    by (rule shape_intros(3)) (use that in \<open>simp_all add: fresh(1) denied_iff\<close>)
  have allowed: "answer_shape res" if "\<forall>d \<in> set ds. ld_Allowed d"
    "verify_commit srv c s1 k (verify_response k\<lparr>VerifyKeyResponse_LimitDecisions := limitDecisionsToProto ds\<rparr>) = (res, s2)"
    for res s1 k ds s2
    by (rule commit_shape [OF _ _ that(2)]) (use that(1) denied_iff [of ds] in \<open>auto simp: fresh(1)\<close>)
  have plain: "answer_shape res" if "verify_commit srv c s1 k (verify_response k) = (res, s2)" for res s1 k s2
    by (rule commit_shape [OF _ _ that]) (simp_all add: fresh)
  show ?thesis
    unfolding Server_VerifyKey_def Let_def
    by (auto simp: rejections fresh limited split: prod.split sum.split option.split intro: allowed plain)
qed

section \<open>Statuses\<close>

lemma mapStoreErr_code:
  "\<exists>code. mapStoreErr err = Status code (MsgErr err) \<and> code \<in> {NotFound, AlreadyExists, Internal}"
  by (simp add: mapStoreErr_def)

lemma mapStoreErr_not_invalid [simp]: "mapStoreErr err \<noteq> Status InvalidArgument m"
  by (simp add: mapStoreErr_def)

text \<open>The response refuses the request as malformed.\<close>

definition refused :: "(grpc_status + 'a) \<times> 's \<Rightarrow> bool" where
  "refused res \<longleftrightarrow> (\<exists>m. fst res = Inl (Status InvalidArgument m))"

lemma refused_simps [simp]:
  "refused (Inl (Status InvalidArgument m), s)" "\<not> refused (Inr x, s)" "\<not> refused (Inl (mapStoreErr err), s)"
  "\<not> refused (Inl (Status Internal m), s)"
  by (simp_all add: refused_def)

text \<open>
  C32: The handlers refuse a request as an invalid argument exactly when one of its required fields
  is empty (the name and owner of a workspace, the workspace and name of an API, the API and owner
  of a key, the identifier of a lookup, revocation or rotation, the API of a listing); no error of
  the store and no failure to draw key material is ever reported that way.
\<close>

theorem invalid_argument_iff:
  "(refused (Server_CreateWorkspace L srv c s req1) \<longleftrightarrow>
      CreateWorkspaceRequest_GetName req1 = [] \<or> CreateWorkspaceRequest_GetOwnerPrincipalId req1 = []) \<and>
   (refused (Server_GetWorkspace L srv c s req2) \<longleftrightarrow> GetWorkspaceRequest_GetWorkspaceId req2 = []) \<and>
   (refused (Server_CreateApi L srv c s req3) \<longleftrightarrow>
      CreateApiRequest_GetWorkspaceId req3 = [] \<or> CreateApiRequest_GetName req3 = []) \<and>
   (refused (Server_GetApi L srv c s req4) \<longleftrightarrow> GetApiRequest_GetApiId req4 = []) \<and>
   (refused (Server_CreateKey L srv c s req5) \<longleftrightarrow>
      CreateKeyRequest_GetApiId req5 = [] \<or> CreateKeyRequest_GetOwnerPrincipalId req5 = []) \<and>
   (refused (Server_GetKey L srv c s req6) \<longleftrightarrow> GetKeyRequest_GetKeyId req6 = []) \<and>
   (refused (Server_RevokeKey srv c s req7) \<longleftrightarrow> RevokeKeyRequest_GetKeyId req7 = []) \<and>
   (refused (Server_RotateKey L srv c s req8) \<longleftrightarrow> RotateKeyRequest_GetKeyId req8 = []) \<and>
   (refused (Server_ListKeys L srv c s req9) \<longleftrightarrow> ListKeysRequest_GetApiId req9 = [])"
  by (intro conjI)
    (auto simp: Server_CreateWorkspace_def Server_GetWorkspace_def Server_CreateApi_def Server_GetApi_def
      Server_CreateKey_def Server_GetKey_def Server_RevokeKey_def Server_RotateKey_def Server_ListKeys_def
      Let_def split: prod.splits sum.splits)

text \<open>
  How an error of the store is reported: as NotFound, AlreadyExists or Internal, with the error
  itself as the message; it is NotFound exactly when \<open>ErrNotFound\<close> is on its chain and
  AlreadyExists exactly when \<open>ErrConflict\<close> is, however often the error was wrapped.
\<close>

theorem mapStoreErr_classifies:
  "\<exists>code. mapStoreErr err = Status code (MsgErr err) \<and> code \<in> {NotFound, AlreadyExists, Internal} \<and>
     (code = NotFound \<longleftrightarrow> errors_Is err ErrNotFound) \<and> (code = AlreadyExists \<longleftrightarrow> errors_Is err ErrConflict)"
  using errors_Is_unique [of err ErrNotFound ErrConflict] by (auto simp: mapStoreErr_def)

text \<open>
  Limit references survive the trip from a stored key to the wire and back into a stored key.
\<close>

theorem limitRefs_roundtrip: "limitRefsFromProto (limitRefsToProto refs) = refs"
  by (induction refs) (simp_all add: limitRefsFromProto_def limitRefsToProto_def LimitRef_GetLimitId_def
      LimitRef_GetScopeKey_def)

text \<open>
  The key a client sees carries the stored times: with timestamps that round-trip, reading back
  the expiry of the wire form of a key gives the stored expiry, and the same holds of its last
  verification, creation and update times.
\<close>

theorem keyToProto_times:
  assumes "timestamps_ok (lib_pb L)"
  shows "timeFromProto L (ApiKey_ExpiresAt (keyToProto L k)) = k_ExpiresAt k \<and>
    timeFromProto L (ApiKey_LastVerifiedAt (keyToProto L k)) = k_LastVerifiedAt k \<and>
    timeFromProto L (ApiKey_CreatedAt (keyToProto L k)) = Some (k_CreatedAt k) \<and>
    timeFromProto L (ApiKey_UpdatedAt (keyToProto L k)) = Some (k_UpdatedAt k)"
  using assms
  by (auto simp: keyToProto_def timeFromProto_def timestamps_ok_def Let_def split: option.splits)

theorem keyToProto_times_witness:
  "let L = \<lparr>lib_sha = (\<lambda>m. m), lib_pb = \<lparr>ts_New = (\<lambda>t :: int. t + 1), ts_AsTime = (\<lambda>t. t - 1)\<rparr>\<rparr>;
       k = key_of_request L None \<lparr>a_APIID = ''a'', a_WorkspaceID = ''w'', a_Name = [], a_KeyPrefix = [],
         a_CreatedAt = 0, a_UpdatedAt = 0, a_Metadata = None\<rparr> [] 0
   in timeFromProto L (ApiKey_CreatedAt (keyToProto L k)) = Some zero_time"
proof -
  let ?L = "\<lparr>lib_sha = (\<lambda>m. m), lib_pb = \<lparr>ts_New = (\<lambda>t :: int. t + 1), ts_AsTime = (\<lambda>t. t - 1)\<rparr>\<rparr>"
  have ok: "timestamps_ok (lib_pb ?L)" by (simp add: timestamps_ok_def)
  show ?thesis unfolding Let_def by (subst keyToProto_times [OF ok, THEN conjunct2, THEN conjunct2, THEN conjunct1])
      (simp add: key_of_request_def)
qed

end
