(* ===== verification/KC_Memory.thy ===== *)
theory KC_Memory
  imports KC_Store
begin

text \<open>
  Package \<open>keychainserver/store/memory\<close>: the in-memory driver. Its mutex is held for the whole of
  every method, so a method is one atomic step on the state (\<open>KC_Mutex\<close> shows that it may
  be taken so). The environment of a call holds the clock reading \<open>s.now()\<close> returned, the string
  \<open>uuid.NewString()\<close> returned, and the order in which \<open>range s.keys\<close> visited the keys, which Go leaves
  open.

  The driver satisfies the store contract; its representation invariant ties \<open>hashIndex\<close> to the
  hashes of the stored keys.
\<close>

section \<open>State\<close>

record mem_store =
  m_workspaces :: "string \<rightharpoonup> Workspace"
  m_apis :: "string \<rightharpoonup> API"
  m_keys :: "string \<rightharpoonup> Key"
  m_hashIndex :: "string \<rightharpoonup> string"

record mem_env =
  me_now :: gotime
  me_uuid :: string
  me_range :: "string list"

definition mem_New :: mem_store where
  "mem_New = \<lparr>m_workspaces = Map.empty, m_apis = Map.empty, m_keys = Map.empty,
              m_hashIndex = Map.empty\<rparr>"

section \<open>Helpers\<close>

definition newID :: "string \<Rightarrow> string \<Rightarrow> string" where
  "newID prefix uuid = prefix @ ''_'' @ uuid"

text \<open>
  The clone helpers copy every slice, map and pointed-to time. On values a copy is the original.
\<close>

definition cloneWorkspace :: "Workspace \<Rightarrow> Workspace" where
  "cloneWorkspace w = w\<lparr>w_Metadata := map_option (\<lambda>m. m) (w_Metadata w)\<rparr>"

definition cloneAPI :: "API \<Rightarrow> API" where
  "cloneAPI a = a\<lparr>a_Metadata := map_option (\<lambda>m. m) (a_Metadata a)\<rparr>"

definition cloneTimePtr :: "gotime option \<Rightarrow> gotime option" where
  "cloneTimePtr t = (case t of None \<Rightarrow> None | Some v \<Rightarrow> Some v)"

definition cloneKey :: "Key \<Rightarrow> Key" where
  "cloneKey k = k\<lparr>k_KeyHash := [] @ k_KeyHash k, k_Permissions := [] @ k_Permissions k,
     k_LimitRefs := [] @ k_LimitRefs k, k_ExpiresAt := cloneTimePtr (k_ExpiresAt k),
     k_LastVerifiedAt := cloneTimePtr (k_LastVerifiedAt k),
     k_Metadata := map_option (\<lambda>m. m) (k_Metadata k)\<rparr>"

lemma cloneTimePtr_ident [simp]: "cloneTimePtr t = t"
  by (simp add: cloneTimePtr_def split: option.split)

lemma clone_ident [simp]: "cloneWorkspace w = w" "cloneAPI a = a" "cloneKey k = k"
  by (simp_all add: cloneWorkspace_def cloneAPI_def cloneKey_def option.map_ident)

text \<open>The zero value \<open>store.Key{}\<close>, which a Go map returns for an absent key.\<close>

definition zero_Key :: Key where
  "zero_Key = \<lparr>k_KeyID = [], k_APIID = [], k_WorkspaceID = [], k_OwnerPrincipalID = [], k_Name = [],
     k_KeyHash = [], k_Permissions = [], k_LimitRefs = [], k_ExpiresAt = None, k_RemainingUses = 0,
     k_Enabled = False, k_CreatedAt = zero_time, k_UpdatedAt = zero_time, k_LastVerifiedAt = None,
     k_Metadata = None\<rparr>"

section \<open>Workspaces and APIs\<close>

definition mem_CreateWorkspace ::
  "mem_env \<Rightarrow> mem_store \<Rightarrow> Workspace \<Rightarrow> (goerr + Workspace) \<times> mem_store" where
  "mem_CreateWorkspace e s w =
     (let now = me_now e;
          w = w\<lparr>w_WorkspaceID := newID ''ws'' (me_uuid e)\<rparr>;
          w = w\<lparr>w_CreatedAt := now\<rparr>;
          w = w\<lparr>w_UpdatedAt := now\<rparr>
      in (Inr (cloneWorkspace w),
          s\<lparr>m_workspaces := (m_workspaces s)(w_WorkspaceID w \<mapsto> cloneWorkspace w)\<rparr>))"

definition mem_GetWorkspace ::
  "mem_env \<Rightarrow> mem_store \<Rightarrow> string \<Rightarrow> (goerr + Workspace) \<times> mem_store" where
  "mem_GetWorkspace e s i =
     (case m_workspaces s i of
        None \<Rightarrow> (Inl (Sentinel ErrNotFound), s)
      | Some w \<Rightarrow> (Inr (cloneWorkspace w), s))"

definition mem_CreateAPI :: "mem_env \<Rightarrow> mem_store \<Rightarrow> API \<Rightarrow> (goerr + API) \<times> mem_store" where
  "mem_CreateAPI e s a =
     (if a_WorkspaceID a \<notin> dom (m_workspaces s)
      then (Inl (Wrapf ''workspace %q: %w'' (Some (a_WorkspaceID a)) (Sentinel ErrNotFound)), s)
      else
        let now = me_now e;
            a = a\<lparr>a_APIID := newID ''api'' (me_uuid e)\<rparr>;
            a = a\<lparr>a_CreatedAt := now\<rparr>;
            a = a\<lparr>a_UpdatedAt := now\<rparr>
        in (Inr (cloneAPI a), s\<lparr>m_apis := (m_apis s)(a_APIID a \<mapsto> cloneAPI a)\<rparr>))"

definition mem_GetAPI :: "mem_env \<Rightarrow> mem_store \<Rightarrow> string \<Rightarrow> (goerr + API) \<times> mem_store" where
  "mem_GetAPI e s i =
     (case m_apis s i of
        None \<Rightarrow> (Inl (Sentinel ErrNotFound), s)
      | Some a \<Rightarrow> (Inr (cloneAPI a), s))"

section \<open>Keys\<close>

definition mem_CreateKey :: "mem_env \<Rightarrow> mem_store \<Rightarrow> Key \<Rightarrow> (goerr + Key) \<times> mem_store" where
  "mem_CreateKey e s k =
     (if k_APIID k \<notin> dom (m_apis s)
      then (Inl (Wrapf ''api %q: %w'' (Some (k_APIID k)) (Sentinel ErrNotFound)), s)
      else
        let hashKey = bytes_string (k_KeyHash k)
        in if hashKey \<in> dom (m_hashIndex s) then (Inl (Sentinel ErrConflict), s)
           else
             let now = me_now e;
                 k = k\<lparr>k_KeyID := newID ''key'' (me_uuid e)\<rparr>;
                 k = k\<lparr>k_CreatedAt := now\<rparr>;
                 k = k\<lparr>k_UpdatedAt := now\<rparr>;
                 k = cloneKey k
             in (Inr (cloneKey k),
                 s\<lparr>m_keys := (m_keys s)(k_KeyID k \<mapsto> k),
                   m_hashIndex := (m_hashIndex s)(hashKey \<mapsto> k_KeyID k)\<rparr>))"

definition mem_GetKeyByID :: "mem_env \<Rightarrow> mem_store \<Rightarrow> string \<Rightarrow> (goerr + Key) \<times> mem_store" where
  "mem_GetKeyByID e s i =
     (case m_keys s i of
        None \<Rightarrow> (Inl (Sentinel ErrNotFound), s)
      | Some k \<Rightarrow> (Inr (cloneKey k), s))"

definition mem_GetKeyByHash :: "mem_env \<Rightarrow> mem_store \<Rightarrow> bytes \<Rightarrow> (goerr + Key) \<times> mem_store" where
  "mem_GetKeyByHash e s hash =
     (case m_hashIndex s (bytes_string hash) of
        None \<Rightarrow> (Inl (Sentinel ErrNotFound), s)
      | Some i \<Rightarrow> (Inr (cloneKey (case m_keys s i of None \<Rightarrow> zero_Key | Some k \<Rightarrow> k)), s))"

definition mem_RevokeKey :: "mem_env \<Rightarrow> mem_store \<Rightarrow> string \<Rightarrow> (goerr + unit) \<times> mem_store" where
  "mem_RevokeKey e s i =
     (case m_keys s i of
        None \<Rightarrow> (Inl (Sentinel ErrNotFound), s)
      | Some k \<Rightarrow>
          if \<not> k_Enabled k then (Inr (), s)
          else
            let k = k\<lparr>k_Enabled := False\<rparr>;
                k = k\<lparr>k_UpdatedAt := me_now e\<rparr>
            in (Inr (), s\<lparr>m_keys := (m_keys s)(i \<mapsto> k)\<rparr>))"

definition mem_RotateKey ::
  "mem_env \<Rightarrow> mem_store \<Rightarrow> string \<Rightarrow> bytes \<Rightarrow> (goerr + Key) \<times> mem_store" where
  "mem_RotateKey e s i newHash =
     (case m_keys s i of
        None \<Rightarrow> (Inl (Sentinel ErrNotFound), s)
      | Some k \<Rightarrow>
          let newHashKey = bytes_string newHash
          in if (case m_hashIndex s newHashKey of None \<Rightarrow> False | Some existingID \<Rightarrow> existingID \<noteq> i)
             then (Inl (Sentinel ErrConflict), s)
             else
               let idx = (m_hashIndex s)(bytes_string (k_KeyHash k) := None);
                   k = k\<lparr>k_KeyHash := [] @ newHash\<rparr>;
                   k = k\<lparr>k_UpdatedAt := me_now e\<rparr>
               in (Inr (cloneKey k),
                   s\<lparr>m_keys := (m_keys s)(i \<mapsto> k), m_hashIndex := idx(newHashKey \<mapsto> i)\<rparr>))"

definition mem_TouchLastVerified ::
  "mem_env \<Rightarrow> mem_store \<Rightarrow> string \<Rightarrow> gotime \<Rightarrow> (goerr + unit) \<times> mem_store" where
  "mem_TouchLastVerified e s i at =
     (case m_keys s i of
        None \<Rightarrow> (Inl (Sentinel ErrNotFound), s)
      | Some k \<Rightarrow> (Inr (), s\<lparr>m_keys := (m_keys s)(i \<mapsto> k\<lparr>k_LastVerifiedAt := Some at\<rparr>)\<rparr>))"

definition mem_DecrementRemainingUses ::
  "mem_env \<Rightarrow> mem_store \<Rightarrow> string \<Rightarrow> (int64 \<times> goerr option) \<times> mem_store" where
  "mem_DecrementRemainingUses e s i =
     (case m_keys s i of
        None \<Rightarrow> ((0, Some (Sentinel ErrNotFound)), s)
      | Some k \<Rightarrow>
          if sint (k_RemainingUses k) < 0 then ((-1, None), s)
          else if k_RemainingUses k = 0 then ((0, Some (Sentinel ErrDepleted)), s)
          else
            let k = k\<lparr>k_RemainingUses := k_RemainingUses k - 1\<rparr>;
                k = k\<lparr>k_UpdatedAt := me_now e\<rparr>
            in ((k_RemainingUses k, None), s\<lparr>m_keys := (m_keys s)(i \<mapsto> k)\<rparr>))"

section \<open>Listing\<close>

text \<open>The loop that collects the identifiers, in the order the map was ranged over.\<close>

primrec collect_ids :: "ListKeysOpts \<Rightarrow> (string \<rightharpoonup> Key) \<Rightarrow> string list \<Rightarrow> string list" where
  "collect_ids opts ks [] = []"
| "collect_ids opts ks (i # order) =
     (case ks i of
        None \<Rightarrow> collect_ids opts ks order
      | Some k \<Rightarrow>
          if k_APIID k \<noteq> o_APIID opts then collect_ids opts ks order
          else if o_OwnerPrincipalID opts \<noteq> [] \<and> k_OwnerPrincipalID k \<noteq> o_OwnerPrincipalID opts
          then collect_ids opts ks order
          else i # collect_ids opts ks order)"

text \<open>\<open>sort.Search\<close>: the binary search of the standard library, as its loop runs.\<close>

function sort_Search :: "(nat \<Rightarrow> bool) \<Rightarrow> nat \<Rightarrow> nat \<Rightarrow> nat" where
  "sort_Search f i j =
     (if i < j then
        let h = (i + j) div 2 in if \<not> f h then sort_Search f (h + 1) j else sort_Search f i h
      else i)"
  by pat_completeness auto
termination
  by (relation "measure (\<lambda>(f, i, j). j - i)") auto

declare sort_Search.simps [simp del]

definition sort_SearchStrings :: "string list \<Rightarrow> string \<Rightarrow> nat" where
  "sort_SearchStrings a x = sort_Search (\<lambda>i. a ! i \<ge> x) 0 (length a)"

definition mem_ListKeys ::
  "mem_env \<Rightarrow> mem_store \<Rightarrow> ListKeysOpts \<Rightarrow> (goerr + ListKeysResult) \<times> mem_store" where
  "mem_ListKeys e s opts =
     (let ids = sort (collect_ids opts (m_keys s) (me_range e));
          start = (if o_PageToken opts \<noteq> [] then
                     let i = sort_SearchStrings ids (o_PageToken opts)
                     in if i < length ids \<and> ids ! i = o_PageToken opts then i + 1 else i
                   else 0);
          pageSize = (if sint (o_PageSize opts) \<le> 0 then 50 else nat (sint (o_PageSize opts)));
          stop = (if start + pageSize > length ids then length ids else start + pageSize);
          out = map (\<lambda>i. cloneKey (case m_keys s i of None \<Rightarrow> zero_Key | Some k \<Rightarrow> k))
                    (drop start (take stop ids));
          nxt = (if stop < length ids then ids ! (stop - 1) else [])
      in (Inr \<lparr>r_Keys = out, r_NextPageToken = nxt\<rparr>, s))"

section \<open>The driver as a Store\<close>

definition mem_Store :: "(mem_env, mem_store) Store" where
  "mem_Store = \<lparr>
     CreateWorkspace = mem_CreateWorkspace, GetWorkspace = mem_GetWorkspace,
     CreateAPI = mem_CreateAPI, GetAPI = mem_GetAPI,
     CreateKey = mem_CreateKey, GetKeyByID = mem_GetKeyByID, GetKeyByHash = mem_GetKeyByHash,
     RevokeKey = mem_RevokeKey, RotateKey = mem_RotateKey, ListKeys = mem_ListKeys,
     TouchLastVerified = mem_TouchLastVerified,
     DecrementRemainingUses = mem_DecrementRemainingUses\<rparr>"

lemma mem_Store_sel [simp]:
  "CreateWorkspace mem_Store = mem_CreateWorkspace" "GetWorkspace mem_Store = mem_GetWorkspace"
  "CreateAPI mem_Store = mem_CreateAPI" "GetAPI mem_Store = mem_GetAPI"
  "CreateKey mem_Store = mem_CreateKey" "GetKeyByID mem_Store = mem_GetKeyByID"
  "GetKeyByHash mem_Store = mem_GetKeyByHash" "RevokeKey mem_Store = mem_RevokeKey"
  "RotateKey mem_Store = mem_RotateKey" "ListKeys mem_Store = mem_ListKeys"
  "TouchLastVerified mem_Store = mem_TouchLastVerified"
  "DecrementRemainingUses mem_Store = mem_DecrementRemainingUses"
  by (simp_all add: mem_Store_def)

section \<open>Binary search\<close>

text \<open>
  On a monotone predicate the search returns the least index at which it holds, or the upper
  bound when there is none.
\<close>

lemma sort_Search_correct:
  assumes "i \<le> j" "\<And>a b. a \<le> b \<Longrightarrow> b < j \<Longrightarrow> f a \<Longrightarrow> f b"
  shows "i \<le> sort_Search f i j \<and> sort_Search f i j \<le> j \<and>
    (\<forall>a. i \<le> a \<longrightarrow> a < sort_Search f i j \<longrightarrow> \<not> f a) \<and>
    (\<forall>a. sort_Search f i j \<le> a \<longrightarrow> a < j \<longrightarrow> f a)"
  using assms
proof (induction f i j rule: sort_Search.induct)
  case (1 f i j)
  show ?case
  proof (cases "i < j")
    case False
    with "1.prems"(1) have "i = j" by simp
    then show ?thesis by (simp add: sort_Search.simps [of f j j])
  next
    case True
    let ?h = "(i + j) div 2"
    have h: "i \<le> ?h" "?h < j" using True by auto
    show ?thesis
    proof (cases "f ?h")
      case False
      have "\<not> f a" if "a \<le> ?h" for a
        using "1.prems"(2) [OF that h(2)] False by blast
      with "1.IH"(1) [OF True refl False] "1.prems"(2) h True False show ?thesis
        by (simp add: sort_Search.simps [of f i j] Let_def)
          (metis Suc_leI not_less_eq_eq less_Suc_eq_le order.trans)
    next
      case f: True
      have "f a" if "?h \<le> a" "a < j" for a
        using "1.prems"(2) [OF that] f by blast
      with "1.IH"(2) [OF True refl] "1.prems"(2) h True f show ?thesis
        by (simp add: sort_Search.simps [of f i j] Let_def)
          (meson dual_order.strict_trans less_imp_le_nat linorder_not_less order.trans)
    qed
  qed
qed


text \<open>
  The start index of a page: past the elements up to and including the token, whether or not the
  token itself is in the list.
\<close>

definition token_start :: "string list \<Rightarrow> string \<Rightarrow> nat" where
  "token_start ids t =
     (let i = sort_SearchStrings ids t in if i < length ids \<and> ids ! i = t then i + 1 else i)"

lemma sort_SearchStrings_bounds:
  assumes "sorted ids"
  shows "sort_SearchStrings ids t \<le> length ids"
    and "a < sort_SearchStrings ids t \<Longrightarrow> ids ! a < t"
    and "sort_SearchStrings ids t \<le> a \<Longrightarrow> a < length ids \<Longrightarrow> t \<le> ids ! a"
proof -
  have mono: "t \<le> ids ! a \<Longrightarrow> t \<le> ids ! b" if "a \<le> b" "b < length ids" for a b
    using sorted_nth_mono [OF assms that] by (rule order.trans [rotated])
  note c = sort_Search_correct [of 0 "length ids" "\<lambda>i. ids ! i \<ge> t", OF _ mono, simplified,
      folded sort_SearchStrings_def]
  show "sort_SearchStrings ids t \<le> length ids"
    and "a < sort_SearchStrings ids t \<Longrightarrow> ids ! a < t"
    and "sort_SearchStrings ids t \<le> a \<Longrightarrow> a < length ids \<Longrightarrow> t \<le> ids ! a"
    using c by (auto simp: not_le)
qed

lemma drop_token_start:
  assumes "sorted ids" "distinct ids"
  shows "drop (token_start ids t) ids = filter (\<lambda>i. t < i) ids"
proof -
  let ?i = "sort_SearchStrings ids t"
  note b = sort_SearchStrings_bounds [OF assms(1), where t = t]
  have lo: "filter (\<lambda>i. t < i) (take ?i ids) = []"
    using b(1) by (auto simp: filter_empty_conv in_set_conv_nth not_less intro!: less_imp_le b(2))
  have hi: "t \<le> x" if "x \<in> set (drop ?i ids)" for x
    using that b(1) by (auto simp: in_set_conv_nth intro!: b(3))
  have "filter (\<lambda>i. t < i) (drop ?i ids) = drop (token_start ids t) ids"
  proof (cases "?i < length ids \<and> ids ! ?i = t")
    case True
    then have d: "drop ?i ids = t # drop (?i + 1) ids"
      by (metis Cons_nth_drop_Suc Suc_eq_plus1)
    have "t \<notin> set (drop (?i + 1) ids)"
      using assms(2) d distinct_drop [of ids ?i] by simp
    then have "\<forall>x \<in> set (drop (?i + 1) ids). t < x"
      using hi d by (metis list.set_intros(2) order_le_less)
    then have "filter (\<lambda>i. t < i) (drop (?i + 1) ids) = drop (?i + 1) ids"
      by (simp add: filter_id_conv)
    with True d show ?thesis by (simp add: token_start_def Let_def)
  next
    case False
    have "t \<notin> set (drop ?i ids)"
    proof
      assume "t \<in> set (drop ?i ids)"
      then obtain a where a: "?i + a < length ids" "ids ! (?i + a) = t"
        by (auto simp: in_set_conv_nth add.commute less_diff_conv)
      have "ids ! ?i \<le> t" using a assms(1) by (metis le_add1 sorted_nth_mono)
      moreover have "t \<le> ids ! ?i" using a b(3) [of ?i] by simp
      ultimately show False using False a(1) by simp
    qed
    then have "\<forall>x \<in> set (drop ?i ids). t < x"
      using hi by (metis order_le_less)
    then have "filter (\<lambda>i. t < i) (drop ?i ids) = drop ?i ids"
      by (simp add: filter_id_conv)
    with False show ?thesis by (auto simp: token_start_def Let_def)
  qed
  moreover have "filter (\<lambda>i. t < i) ids = filter (\<lambda>i. t < i) (take ?i ids @ drop ?i ids)"
    by simp
  ultimately show ?thesis using lo by (simp only: filter_append append_Nil)
qed


section \<open>The listing implements the reference page\<close>

lemma collect_ids_filter:
  "collect_ids opts ks order = filter (\<lambda>i. \<exists>k. ks i = Some k \<and> key_matches opts k) order"
  by (induction order) (auto simp: key_matches_def split: option.split)

lemma set_collect_ids:
  assumes "set order = dom ks"
  shows "set (collect_ids opts ks order) = matching_ids ks opts"
  using assms by (auto simp: collect_ids_filter matching_ids_def)

lemma mem_ListKeys_page:
  assumes order: "distinct (me_range e)" "set (me_range e) = dom (m_keys s)"
    and ids: "distinct ids" "set ids = matching_ids (m_keys s) opts"
  shows "mem_ListKeys e s opts = (Inr (page_of (\<lambda>i. i) (m_keys s) opts ids), s)"
proof -
  let ?ids = "sort (collect_ids opts (m_keys s) (me_range e))"
  let ?n = "page_size (o_PageSize opts)"
  let ?rest = "after_token (\<lambda>i. i) (o_PageToken opts) ?ids"
  define start where "start = (if o_PageToken opts \<noteq> [] then token_start ?ids (o_PageToken opts) else 0)"
  define stop where "stop = (if start + ?n > length ?ids then length ?ids else start + ?n)"
  have cset: "set (collect_ids opts (m_keys s) (me_range e)) = matching_ids (m_keys s) opts"
    by (rule set_collect_ids [OF order(2)])
  have dist: "distinct ?ids" using order(1) by (simp add: collect_ids_filter)
  have rest: "?rest = drop start ?ids"
    using drop_token_start [OF _ dist] by (simp add: start_def after_token_def)
  have page: "drop start (take stop ?ids) = take ?n ?rest"
    by (simp add: rest stop_def drop_take)
  have nxt: "(if stop < length ?ids then ?ids ! (stop - 1) else []) =
      (if ?n < length ?rest then ?rest ! (?n - 1) else [])"
    by (simp add: rest stop_def nth_drop less_diff_conv Suc_le_eq ac_simps)
  have look: "(case m_keys s i of None \<Rightarrow> zero_Key | Some k \<Rightarrow> k) = (the \<circ> m_keys s) i"
    if "i \<in> set (take ?n ?rest)" for i
  proof -
    from that have "i \<in> set ?ids" unfolding rest by (meson in_set_dropD in_set_takeD)
    then have "i \<in> matching_ids (m_keys s) opts" by (simp add: cset)
    then show ?thesis by (auto simp: matching_ids_def)
  qed
  have out: "map (\<lambda>i. cloneKey (case m_keys s i of None \<Rightarrow> zero_Key | Some k \<Rightarrow> k)) (take ?n ?rest) =
      map (the \<circ> m_keys s) (take ?n ?rest)"
    using look by simp
  have "mem_ListKeys e s opts =
      (Inr \<lparr>r_Keys = map (the \<circ> m_keys s) (take ?n ?rest),
            r_NextPageToken = (if ?n < length ?rest then ?rest ! (?n - 1) else [])\<rparr>, s)"
    unfolding mem_ListKeys_def Let_def page_size_def [symmetric]
    unfolding token_start_def [symmetric, unfolded Let_def]
    unfolding start_def [symmetric] unfolding stop_def [symmetric]
    by (simp only: page nxt out)
  also have "\<dots> = (Inr (page_of (\<lambda>i. i) (m_keys s) opts (collect_ids opts (m_keys s) (me_range e))), s)"
    by (simp add: page_of_def page_ids_def)
  also have "\<dots> = (Inr (page_of (\<lambda>i. i) (m_keys s) opts ids), s)"
    using ids cset dist by (subst page_of_perm [where ys = ids]) simp_all
  finally show ?thesis .
qed

section \<open>Invariant and contract\<close>

definition mem_view :: "mem_store \<Rightarrow> view" where
  "mem_view s = \<lparr>v_workspaces = m_workspaces s, v_apis = m_apis s, v_keys = m_keys s\<rparr>"

lemma mem_view_sel [simp]:
  "v_workspaces (mem_view s) = m_workspaces s" "v_apis (mem_view s) = m_apis s"
  "v_keys (mem_view s) = m_keys s"
  by (simp_all add: mem_view_def)

text \<open>The hash index maps exactly the hashes of the stored keys, each to its key.\<close>

definition index_ok :: "(string \<rightharpoonup> Key) \<Rightarrow> (string \<rightharpoonup> string) \<Rightarrow> bool" where
  "index_ok ks idx \<longleftrightarrow>
     (\<forall>h i. idx h = Some i \<longleftrightarrow> (\<exists>k. ks i = Some k \<and> bytes_string (k_KeyHash k) = h))"

definition mem_inv :: "mem_store \<Rightarrow> bool" where
  "mem_inv s \<longleftrightarrow> view_ok (mem_view s) \<and> index_ok (m_keys s) (m_hashIndex s)"

definition mem_env_fresh :: "mem_env \<Rightarrow> mem_store \<Rightarrow> bool" where
  "mem_env_fresh e s \<longleftrightarrow>
     newID ''ws'' (me_uuid e) \<notin> dom (m_workspaces s) \<and>
     newID ''api'' (me_uuid e) \<notin> dom (m_apis s) \<and>
     newID ''key'' (me_uuid e) \<notin> dom (m_keys s)"

definition mem_env_range :: "mem_env \<Rightarrow> mem_store \<Rightarrow> bool" where
  "mem_env_range e s \<longleftrightarrow> distinct (me_range e) \<and> set (me_range e) = dom (m_keys s)"

lemma mem_inv_New [simp]: "mem_inv mem_New"
proof -
  have "mem_view mem_New = empty_view"
    by (simp add: mem_view_def mem_New_def empty_view_def)
  then show ?thesis by (simp add: mem_inv_def index_ok_def) (simp add: mem_New_def)
qed

lemma newID_nonempty [simp]: "newID p u \<noteq> []"
  by (simp add: newID_def)

lemma index_ok_dom:
  assumes "index_ok (m_keys s) (m_hashIndex s)"
  shows "bytes_string h \<in> dom (m_hashIndex s) \<longleftrightarrow> hash_taken (mem_view s) h"
  using assms by (auto simp: index_ok_def hash_taken_def)

lemma index_ok_update:
  assumes "index_ok ks idx" "ks i = Some k" "k_KeyHash k' = k_KeyHash k"
  shows "index_ok (ks(i \<mapsto> k')) idx"
  using assms by (auto simp: index_ok_def)

lemma index_ok_insert:
  assumes "index_ok ks idx" "ks i = None" "idx (bytes_string (k_KeyHash k)) = None"
  shows "index_ok (ks(i \<mapsto> k)) (idx(bytes_string (k_KeyHash k) \<mapsto> i))"
  using assms by (auto simp: index_ok_def) (metis option.distinct(1))

lemma index_ok_rotate:
  assumes ix: "index_ok ks idx" and k: "ks i = Some k" and h: "k_KeyHash k' = h"
    and own: "idx (bytes_string h) = None \<or> idx (bytes_string h) = Some i"
  shows "index_ok (ks(i \<mapsto> k')) (idx(bytes_string (k_KeyHash k) := None, bytes_string h \<mapsto> i))"
  unfolding index_ok_def
proof (intro allI)
  fix h' i'
  have old: "idx (bytes_string (k_KeyHash k)) = Some i" using ix k by (auto simp: index_ok_def)
  show "(idx(bytes_string (k_KeyHash k) := None, bytes_string h \<mapsto> i)) h' = Some i' \<longleftrightarrow>
      (\<exists>k''. (ks(i \<mapsto> k')) i' = Some k'' \<and> bytes_string (k_KeyHash k'') = h')"
  proof (cases "i' = i")
    case True
    have "idx h' = Some i \<longleftrightarrow> h' = bytes_string (k_KeyHash k)"
      using ix k by (auto simp: index_ok_def)
    then show ?thesis using True h by auto
  next
    case False
    have "idx h' = Some i' \<Longrightarrow> h' \<noteq> bytes_string (k_KeyHash k) \<and> h' \<noteq> bytes_string h"
      using False old own by auto
    moreover have "idx h' = Some i' \<longleftrightarrow> (\<exists>k. ks i' = Some k \<and> bytes_string (k_KeyHash k) = h')"
      using ix by (simp add: index_ok_def)
    ultimately show ?thesis using False by auto
  qed
qed


lemma mem_inv_update:
  assumes "mem_inv s" "m_keys s i = Some k"
    and "k_KeyID k' = k_KeyID k" "k_APIID k' = k_APIID k" "k_KeyHash k' = k_KeyHash k"
  shows "mem_inv (s\<lparr>m_keys := (m_keys s)(i \<mapsto> k')\<rparr>)"
  using assms view_ok_update_key [of "mem_view s" i k k'] index_ok_update [of "m_keys s" "m_hashIndex s" i k k']
  by (simp add: mem_inv_def mem_view_def)

text \<open>What each creating or rotating method establishes.\<close>

lemma mem_CreateWorkspace_spec:
  assumes "mem_inv s"
  shows "mem_inv (snd (mem_CreateWorkspace e s w))"
  using assms
    view_ok_put_workspace [of "mem_view s" "stamp_workspace (newID ''ws'' (me_uuid e)) (me_now e) w"]
  by (simp add: mem_CreateWorkspace_def Let_def go_defs mem_inv_def mem_view_def)

lemma mem_CreateAPI_spec:
  assumes "mem_inv s"
  shows "mem_inv (snd (mem_CreateAPI e s a))"
  using assms
    view_ok_put_api [of "mem_view s" "stamp_api (newID ''api'' (me_uuid e)) (me_now e) a"]
  by (simp add: mem_CreateAPI_def Let_def go_defs mem_inv_def mem_view_def)

lemma mem_CreateKey_spec:
  assumes inv: "mem_inv s" and ok: "newID ''key'' (me_uuid e) \<notin> dom (m_keys s)"
  shows "mem_inv (snd (mem_CreateKey e s k))"
proof (cases "k_APIID k \<notin> dom (m_apis s) \<or> bytes_string (k_KeyHash k) \<in> dom (m_hashIndex s)")
  case True
  then show ?thesis using inv by (auto simp: mem_CreateKey_def Let_def)
next
  case False
  let ?k = "stamp_key (newID ''key'' (me_uuid e)) (me_now e) k"
  from inv have ix: "index_ok (m_keys s) (m_hashIndex s)" and vok: "view_ok (mem_view s)"
    by (simp_all add: mem_inv_def)
  from False have api: "k_APIID k \<in> dom (m_apis s)" and
    free: "bytes_string (k_KeyHash k) \<notin> dom (m_hashIndex s)" by auto
  from free have "\<not> hash_taken (mem_view s) (k_KeyHash k)" by (simp add: index_ok_dom [OF ix])
  then have "view_ok ((mem_view s)\<lparr>v_keys := (v_keys (mem_view s))(newID ''key'' (me_uuid e) \<mapsto> ?k)\<rparr>)"
    using api by (intro view_ok_put_key [OF vok]) (auto simp: go_defs hash_taken_def)
  moreover have "index_ok ((m_keys s)(newID ''key'' (me_uuid e) \<mapsto> ?k))
      ((m_hashIndex s)(bytes_string (k_KeyHash ?k) \<mapsto> newID ''key'' (me_uuid e)))"
    using ok free by (intro index_ok_insert [OF ix]) (auto simp: go_defs)
  ultimately show ?thesis using api free
    by (simp add: mem_CreateKey_def Let_def mem_inv_def mem_view_def go_defs del: fun_upd_apply)
qed

lemma mem_RotateKey_cases:
  assumes inv: "mem_inv s" and k: "m_keys s i = Some k"
  shows "\<not> hash_free_for (mem_view s) i h \<Longrightarrow>
      mem_RotateKey e s i h = (Inl (Sentinel ErrConflict), s)"
    and "hash_free_for (mem_view s) i h \<Longrightarrow>
      fst (mem_RotateKey e s i h) = Inr (k\<lparr>k_KeyHash := h, k_UpdatedAt := me_now e\<rparr>) \<and>
      mem_inv (snd (mem_RotateKey e s i h)) \<and>
      mem_view (snd (mem_RotateKey e s i h)) =
        (mem_view s)\<lparr>v_keys := (m_keys s)(i \<mapsto> k\<lparr>k_KeyHash := h, k_UpdatedAt := me_now e\<rparr>)\<rparr>"
proof -
  from inv have ix: "index_ok (m_keys s) (m_hashIndex s)" and vok: "view_ok (mem_view s)"
    by (simp_all add: mem_inv_def)
  {
    assume "\<not> hash_free_for (mem_view s) i h"
    then obtain i' where "m_hashIndex s (bytes_string h) = Some i'" "i' \<noteq> i"
      using ix by (auto simp: index_ok_def hash_free_for_def)
    then show "mem_RotateKey e s i h = (Inl (Sentinel ErrConflict), s)"
      using k by (simp add: mem_RotateKey_def)
  next
    assume "hash_free_for (mem_view s) i h"
    then have own: "\<And>i' k'. m_keys s i' = Some k' \<Longrightarrow> k_KeyHash k' = h \<Longrightarrow> i' = i"
      by (auto simp: hash_free_for_def)
    let ?k = "k\<lparr>k_KeyHash := h, k_UpdatedAt := me_now e\<rparr>"
    have free: "m_hashIndex s (bytes_string h) = None \<or> m_hashIndex s (bytes_string h) = Some i"
    proof (cases "m_hashIndex s (bytes_string h)")
      case (Some j)
      then obtain k' where "m_keys s j = Some k'" "k_KeyHash k' = h"
        using ix by (auto simp: index_ok_def)
      then show ?thesis using own Some by blast
    qed simp
    have "view_ok ((mem_view s)\<lparr>v_keys := (v_keys (mem_view s))(i \<mapsto> ?k)\<rparr>)"
      using own view_okD_key [OF vok, of i k] k by (intro view_ok_put_key [OF vok]) auto
    moreover have "index_ok ((m_keys s)(i \<mapsto> ?k))
        ((m_hashIndex s)(bytes_string (k_KeyHash k) := None, bytes_string h \<mapsto> i))"
      using free by (intro index_ok_rotate [OF ix k]) auto
    ultimately show "fst (mem_RotateKey e s i h) = Inr ?k \<and>
      mem_inv (snd (mem_RotateKey e s i h)) \<and>
      mem_view (snd (mem_RotateKey e s i h)) = (mem_view s)\<lparr>v_keys := (m_keys s)(i \<mapsto> ?k)\<rparr>"
      using k free
      by (auto simp: mem_RotateKey_def Let_def mem_inv_def mem_view_def simp del: fun_upd_apply)
  }
qed


lemma mem_RevokeKey_spec:
  assumes "mem_inv s" "m_keys s i = Some k"
  shows "\<exists>s' u. mem_RevokeKey e s i = (Inr (), s') \<and> mem_inv s' \<and> (k_Enabled k \<longrightarrow> u = me_now e) \<and>
    mem_view s' = (mem_view s)\<lparr>v_keys := (m_keys s)(i \<mapsto> k\<lparr>k_Enabled := False, k_UpdatedAt := u\<rparr>)\<rparr>"
proof (cases "k_Enabled k")
  case True
  let ?s = "s\<lparr>m_keys := (m_keys s)(i \<mapsto> k\<lparr>k_Enabled := False, k_UpdatedAt := me_now e\<rparr>)\<rparr>"
  have "mem_inv ?s" by (intro mem_inv_update [OF assms]) simp_all
  moreover have "mem_RevokeKey e s i = (Inr (), ?s)"
    using True assms(2) by (simp add: mem_RevokeKey_def Let_def)
  ultimately show ?thesis
    by (intro exI [of _ ?s] exI [of _ "me_now e"]) (simp add: mem_view_def)
next
  case False
  then have "k\<lparr>k_Enabled := False, k_UpdatedAt := k_UpdatedAt k\<rparr> = k" by simp
  then have "(m_keys s)(i \<mapsto> k\<lparr>k_Enabled := False, k_UpdatedAt := k_UpdatedAt k\<rparr>) = m_keys s"
    using assms(2) by (simp only: fun_upd_idem)
  with False assms show ?thesis
    by (intro exI [of _ s] exI [of _ "k_UpdatedAt k"]) (simp add: mem_RevokeKey_def mem_view_def)
qed

lemmas mem_op_defs [store_ops_simps] =
  mem_CreateWorkspace_def mem_GetWorkspace_def mem_CreateAPI_def mem_GetAPI_def mem_CreateKey_def
  mem_GetKeyByID_def mem_GetKeyByHash_def mem_RevokeKey_def mem_TouchLastVerified_def
  mem_DecrementRemainingUses_def

interpretation mem: store_contract mem_Store mem_inv "\<lambda>e. True" mem_env_fresh mem_env_range mem_view me_now
  "\<lambda>p e. newID p (me_uuid e)" "\<lambda>t. t" "\<lambda>m. m" "\<lambda>r. r" "\<lambda>i. i"
proof (unfold_locales, goal_cases)
  case (1 s)
  then show ?case by (simp add: mem_inv_def)
next
  case 2
  show ?case by simp
next
  case 3
  show ?case by simp
next
  case 4
  show ?case by simp
next
  case 5
  show ?case by simp
next
  case (6 s e w)
  then show ?case using mem_CreateWorkspace_spec [of s e w]
    by (simp add: mem_CreateWorkspace_def Let_def go_defs mem_env_fresh_def mem_view_def)
next
  case (7 s e i)
  then show ?case by (simp add: mem_GetWorkspace_def split: option.split)
next
  case (8 s e a)
  then show ?case by (simp add: mem_CreateAPI_def)
next
  case (9 s e a)
  then show ?case using mem_CreateAPI_spec [of s e a]
    by (simp add: mem_CreateAPI_def Let_def go_defs mem_env_fresh_def mem_view_def)
next
  case (10 s e i)
  then show ?case by (simp add: mem_GetAPI_def split: option.split)
next
  case (11 s e k)
  then show ?case by (simp add: mem_CreateKey_def)
next
  case (12 s e k)
  then show ?case by (simp add: mem_CreateKey_def Let_def mem_inv_def index_ok_dom)
next
  case (13 s e k)
  then show ?case using mem_CreateKey_spec [of s e k]
    by (simp add: mem_CreateKey_def Let_def go_defs mem_env_fresh_def mem_view_def mem_inv_def index_ok_dom)
next
  case (14 s e i)
  then show ?case by (simp add: mem_GetKeyByID_def split: option.split)
next
  case (15 s e h)
  then have "bytes_string h \<notin> dom (m_hashIndex s)" by (simp add: mem_inv_def index_ok_dom)
  then show ?case by (simp add: mem_GetKeyByHash_def domIff)
next
  case (16 s e i k h)
  then have "m_hashIndex s (bytes_string h) = Some i" by (auto simp: mem_inv_def index_ok_def)
  with 16 show ?case by (simp add: mem_GetKeyByHash_def)
next
  case (17 s e i)
  then show ?case by (simp add: mem_RevokeKey_def)
next
  case (18 s e i k)
  then show ?case using mem_RevokeKey_spec [of s i k e] by simp
next
  case (19 s e i h)
  then show ?case by (simp add: mem_RotateKey_def)
next
  case (20 s e i k h)
  then show ?case using mem_RotateKey_cases(1) [of s i k h e] by auto
next
  case (21 s e i k h)
  then show ?case using mem_RotateKey_cases(2) [of s i k h e]
    by (cases "mem_RotateKey e s i h") auto
next
  case (22 s e ids opts)
  then show ?case by (simp add: mem_ListKeys_page mem_env_range_def)
next
  case (23 s e i t)
  then show ?case by (simp add: mem_TouchLastVerified_def)
next
  case (24 s e i k t)
  then have "mem_inv (s\<lparr>m_keys := (m_keys s)(i \<mapsto> k\<lparr>k_LastVerifiedAt := Some t\<rparr>)\<rparr>)"
    by (intro mem_inv_update [where k = k]) simp_all
  with 24 show ?case by (simp add: mem_TouchLastVerified_def mem_view_def)
next
  case (25 s e i)
  then show ?case by (simp add: mem_DecrementRemainingUses_def)
next
  case (26 s e i k)
  then show ?case by (simp add: mem_DecrementRemainingUses_def)
next
  case (27 s e i k)
  then show ?case by (simp add: mem_DecrementRemainingUses_def)
next
  case (28 s e i k)
  then have "mem_inv (s\<lparr>m_keys := (m_keys s)(i \<mapsto>
      k\<lparr>k_RemainingUses := k_RemainingUses k - 1, k_UpdatedAt := me_now e\<rparr>)\<rparr>)"
    by (intro mem_inv_update [where k = k]) simp_all
  with 28 show ?case by (auto simp: mem_DecrementRemainingUses_def mem_view_def Let_def)
next
  case (29 s e k)
  then show ?case by (simp add: mem_CreateKey_def)
qed

interpretation mem_strict: strict_store_contract mem_Store mem_inv "\<lambda>e. True" mem_env_fresh mem_env_range mem_view
  me_now "\<lambda>p e. newID p (me_uuid e)" "\<lambda>t. t" "\<lambda>m. m" "\<lambda>r. r" "\<lambda>i. i"
proof (unfold_locales, goal_cases)
  case (1 s e k)
  then show ?case by (simp add: mem_CreateKey_def)
next
  case (2 s e i k)
  then show ?case by (simp add: mem_RevokeKey_def)
qed

section \<open>Properties\<close>

text \<open>
  C12: The in-memory driver keeps the store contract, and keeps it as the comments of the interface
  word it: every law, its error cases included, holds of the driver's methods on states that satisfy
  its invariant, and every method preserves the invariant. Creating a key under a missing API is
  \<open>ErrNotFound\<close> whatever its hash, and revoking a revoked key leaves the whole store as it is.
\<close>

theorem mem_keeps_contract:
  "store_contract mem_Store mem_inv (\<lambda>e. True) mem_env_fresh mem_env_range mem_view me_now
     (\<lambda>p e. newID p (me_uuid e)) (\<lambda>t. t) (\<lambda>m. m) (\<lambda>r. r) (\<lambda>i. i) \<and>
   strict_store_contract mem_Store mem_inv (\<lambda>e. True) mem_env_fresh mem_env_range mem_view me_now
     (\<lambda>p e. newID p (me_uuid e)) (\<lambda>t. t) (\<lambda>m. m) (\<lambda>r. r) (\<lambda>i. i)"
  by (intro conjI mem.store_contract_axioms mem_strict.strict_store_contract_axioms)

text \<open>
  The binary search of the listing: on a sorted list of identifiers it returns the number of
  identifiers that are smaller than the token, which is where the token is or would be inserted.
\<close>

theorem SearchStrings_insertion_point:
  assumes "sorted ids"
  shows "sort_SearchStrings ids t = length (filter (\<lambda>i. i < t) ids)"
proof -
  let ?n = "sort_SearchStrings ids t"
  note b = sort_SearchStrings_bounds [OF assms, where t = t]
  have lt: "\<forall>x \<in> set (take ?n ids). x < t"
    using b(2) by (auto simp: in_set_conv_nth)
  have ge: "\<forall>x \<in> set (drop ?n ids). \<not> x < t"
  proof (intro ballI)
    fix x assume "x \<in> set (drop ?n ids)"
    then obtain a where "a < length ids - ?n" "x = ids ! (?n + a)" by (auto simp: in_set_conv_nth)
    then show "\<not> x < t" using b(3) [of "?n + a"] by (simp add: less_diff_conv add.commute not_less)
  qed
  have "filter (\<lambda>i. i < t) (take ?n ids @ drop ?n ids) = take ?n ids"
    unfolding filter_append using lt ge by (simp add: filter_empty_conv filter_id_conv)
  then have "filter (\<lambda>i. i < t) ids = take ?n ids" by simp
  then show ?thesis using b(1) by simp
qed

theorem SearchStrings_insertion_point_witness:
  "sort_SearchStrings [''a'', ''c'', ''e''] ''d'' = 2"
proof -
  have "sorted [''a'', ''c'', ''e'']" "filter (\<lambda>i. i < ''d'') [''a'', ''c'', ''e''] = [''a'', ''c'']"
    by code_simp+
  with SearchStrings_insertion_point [of "[''a'', ''c'', ''e'']" "''d''"] show ?thesis by simp
qed

text \<open>
  \<open>ListKeys\<close> returns the reference page: of the keys of the API (and of the owner, when one is
  given), sorted by identifier, those after the page token, at most the page size many (50 by
  default), and as next token the last identifier of the page when more are left, in whatever order
  the map of keys was ranged over.
\<close>

theorem mem_ListKeys_reference:
  assumes "mem_inv s" "mem_env_range e s" "distinct ids" "set ids = matching_ids (m_keys s) opts"
  shows "mem_ListKeys e s opts = (Inr (page_of (\<lambda>i. i) (m_keys s) opts ids), s)"
  using mem.list_keys [OF assms(1) TrueI assms(2,3), of opts] assms(4) by simp

definition two_keys :: mem_store where
  "two_keys = \<lparr>
     m_workspaces = [''w'' \<mapsto> \<lparr>w_WorkspaceID = ''w'', w_Name = [], w_OwnerPrincipalID = [], w_CreatedAt = 0,
       w_UpdatedAt = 0, w_Metadata = None\<rparr>],
     m_apis = [''a'' \<mapsto> \<lparr>a_APIID = ''a'', a_WorkspaceID = ''w'', a_Name = [], a_KeyPrefix = [],
       a_CreatedAt = 0, a_UpdatedAt = 0, a_Metadata = None\<rparr>],
     m_keys = [''k'' \<mapsto> zero_Key\<lparr>k_KeyID := ''k'', k_APIID := ''a'', k_KeyHash := [1]\<rparr>,
       ''l'' \<mapsto> zero_Key\<lparr>k_KeyID := ''l'', k_APIID := ''a'', k_KeyHash := [2]\<rparr>],
     m_hashIndex = [bytes_string [1] \<mapsto> ''k'', bytes_string [2] \<mapsto> ''l'']\<rparr>"

lemma two_keys_inv: "mem_inv two_keys"
  by (auto simp: mem_inv_def mem_view_def view_ok_def view_part_defs index_ok_def two_keys_def zero_Key_def
      split: if_splits)

theorem mem_ListKeys_reference_witness:
  "mem_ListKeys \<lparr>me_now = 0, me_uuid = [], me_range = [''l'', ''k'']\<rparr> two_keys
     \<lparr>o_APIID = ''a'', o_OwnerPrincipalID = [], o_PageSize = 1, o_PageToken = []\<rparr> =
   (Inr \<lparr>r_Keys = [zero_Key\<lparr>k_KeyID := ''k'', k_APIID := ''a'', k_KeyHash := [1]\<rparr>], r_NextPageToken = ''k''\<rparr>, two_keys)"
proof -
  let ?e = "\<lparr>me_now = 0, me_uuid = [], me_range = [''l'', ''k'']\<rparr>"
  let ?o = "\<lparr>o_APIID = ''a'', o_OwnerPrincipalID = [], o_PageSize = 1, o_PageToken = []\<rparr>"
  have range: "mem_env_range ?e two_keys" by (auto simp: mem_env_range_def two_keys_def)
  have ids: "set [''k'', ''l''] = matching_ids (m_keys two_keys) ?o"
    by (auto simp: matching_ids_def two_keys_def key_matches_def split: if_splits)
  have sort: "sort_key (\<lambda>i. i) [''k'', ''l''] = [''k'', ''l'']" by code_simp
  have size: "page_size 1 = 1" by (simp add: page_size_def)
  have "mem_ListKeys ?e two_keys ?o = (Inr (page_of (\<lambda>i. i) (m_keys two_keys) ?o [''k'', ''l'']), two_keys)"
    by (rule mem_ListKeys_reference [OF two_keys_inv range _ ids]) simp
  also have "page_of (\<lambda>i. i) (m_keys two_keys) ?o [''k'', ''l''] =
      \<lparr>r_Keys = [zero_Key\<lparr>k_KeyID := ''k'', k_APIID := ''a'', k_KeyHash := [1]\<rparr>], r_NextPageToken = ''k''\<rparr>"
    by (simp add: page_of_def page_ids_def after_token_def sort size two_keys_def del: sort_key_simps)
  finally show ?thesis .
qed

end
