(* ===== verification/KC_Postgres.thy ===== *)
theory KC_Postgres
  imports KC_Store
begin

text \<open>
  Package \<open>keychainserver/store/postgres\<close>: the Postgres driver over the schema of
  \<open>migrations/0001_init.up.sql\<close>.

  A table is the list of its rows. Each SQL statement of the driver is a function on the database
  that checks the constraints the migration declares: primary keys and the unique hash (error
  23505) when the row is written, then the foreign keys (23503). What is not in the sources is a
  parameter \<open>P\<close>: the resolution of \<open>TIMESTAMPTZ\<close>, the collation of \<open>TEXT\<close>, the JSON codec and the
  normal form of \<open>JSONB\<close>. The environment of a call holds the clock reading, the uuid, and the
  faults: the error the n-th statement of the call fails with, if any (a failed statement changes
  nothing), the row at which a scan fails, and the point where the delivery of rows breaks off.

  The hash is passed as a non-nil slice, as the service and the conformance suite do (a nil
  \<open>[]byte\<close> would be sent as NULL and rejected by the column's NOT NULL).
\<close>

section \<open>Libraries, schema, database\<close>

record 'j pg_libs =
  pl_time :: "gotime \<Rightarrow> gotime"
  pl_coll :: "string \<Rightarrow> string"
  pl_jsonb :: "'j \<Rightarrow> 'j"
  pl_json_len :: "'j \<Rightarrow> nat"
  pl_json_empty_object :: 'j
  pl_Marshal_refs :: "LimitRef list \<Rightarrow> 'j"
  pl_Unmarshal_refs :: "'j \<Rightarrow> goerr + LimitRef list"
  pl_Marshal_map :: "(string \<rightharpoonup> string) \<Rightarrow> 'j"
  pl_Unmarshal_map :: "'j \<Rightarrow> (string \<rightharpoonup> string)"

record 'j ws_row =
  wr_workspace_id :: string
  wr_name :: string
  wr_owner_principal_id :: string
  wr_created_at :: gotime
  wr_updated_at :: gotime
  wr_metadata :: 'j

record 'j api_row =
  ar_api_id :: string
  ar_workspace_id :: string
  ar_name :: string
  ar_key_prefix :: string
  ar_created_at :: gotime
  ar_updated_at :: gotime
  ar_metadata :: 'j

record 'j key_row =
  kr_key_id :: string
  kr_api_id :: string
  kr_workspace_id :: string
  kr_owner_principal_id :: string
  kr_name :: string
  kr_key_hash :: bytes
  kr_permissions :: "string list"
  kr_limit_refs :: 'j
  kr_expires_at :: "gotime option"
  kr_remaining_uses :: int64
  kr_enabled :: bool
  kr_created_at :: gotime
  kr_updated_at :: gotime
  kr_last_verified_at :: "gotime option"
  kr_metadata :: 'j

record 'j pg_db =
  db_workspaces :: "'j ws_row list"
  db_apis :: "'j api_row list"
  db_keys :: "'j key_row list"

definition pg_empty :: "'j pg_db" where
  "pg_empty = \<lparr>db_workspaces = [], db_apis = [], db_keys = []\<rparr>"

text \<open>Errors of pgx: no rows, an error reported by the server with its code, anything else.\<close>

datatype db_err = ErrNoRows | PgError string string | DriverErr string

definition err_of :: "db_err \<Rightarrow> goerr" where
  "err_of e = (case e of ErrNoRows \<Rightarrow> Opaque ''no rows in result set''
     | PgError code msg \<Rightarrow> Opaque (msg @ '' (SQLSTATE '' @ code @ '')'') | DriverErr msg \<Rightarrow> Opaque msg)"

definition isFKViolation :: "db_err \<Rightarrow> bool" where
  "isFKViolation err \<longleftrightarrow> (case err of PgError code _ \<Rightarrow> code = ''23503'' | _ \<Rightarrow> False)"

definition isUniqueViolation :: "db_err \<Rightarrow> bool" where
  "isUniqueViolation err \<longleftrightarrow> (case err of PgError code _ \<Rightarrow> code = ''23505'' | _ \<Rightarrow> False)"

record pg_env =
  pe_now :: gotime
  pe_uuid :: string
  pe_fault :: "nat \<Rightarrow> db_err option"
  pe_scan_fault :: "nat \<Rightarrow> db_err option"
  pe_rows_fault :: "(nat \<times> db_err) option"

section \<open>Helpers of the driver\<close>

definition pg_newID :: "string \<Rightarrow> string \<Rightarrow> string" where
  "pg_newID prefix uuid = prefix @ ''_'' @ uuid"

text \<open>A possibly nil slice is an option here, the one place where nil matters.\<close>

definition nonNilStrings :: "string list option \<Rightarrow> string list" where
  "nonNilStrings xs = (case xs of None \<Rightarrow> [] | Some l \<Rightarrow> l)"

definition marshalMetadata :: "'j pg_libs \<Rightarrow> gomap \<Rightarrow> 'j" where
  "marshalMetadata P m =
     (case m of None \<Rightarrow> pl_json_empty_object P | Some f \<Rightarrow> pl_Marshal_map P f)"

definition unmarshalMetadata :: "'j pg_libs \<Rightarrow> 'j \<Rightarrow> gomap" where
  "unmarshalMetadata P b =
     (if pl_json_len P b = 0 then None
      else let m = pl_Unmarshal_map P b in if m = Map.empty then None else Some m)"

section \<open>SQL statements\<close>

definition unique_err :: db_err where
  "unique_err = PgError ''23505'' ''duplicate key value violates unique constraint''"

definition fk_err :: db_err where
  "fk_err = PgError ''23503'' ''violates foreign key constraint''"

definition sql_insert_workspace :: "'j pg_libs \<Rightarrow> 'j ws_row \<Rightarrow> 'j pg_db \<Rightarrow> (db_err + unit) \<times> 'j pg_db" where
  "sql_insert_workspace P r db =
     (let r = r\<lparr>wr_created_at := pl_time P (wr_created_at r), wr_updated_at := pl_time P (wr_updated_at r),
                wr_metadata := pl_jsonb P (wr_metadata r)\<rparr>
      in if wr_workspace_id r \<in> wr_workspace_id ` set (db_workspaces db) then (Inl unique_err, db)
         else (Inr (), db\<lparr>db_workspaces := db_workspaces db @ [r]\<rparr>))"

definition sql_insert_api :: "'j pg_libs \<Rightarrow> 'j api_row \<Rightarrow> 'j pg_db \<Rightarrow> (db_err + unit) \<times> 'j pg_db" where
  "sql_insert_api P r db =
     (let r = r\<lparr>ar_created_at := pl_time P (ar_created_at r), ar_updated_at := pl_time P (ar_updated_at r),
                ar_metadata := pl_jsonb P (ar_metadata r)\<rparr>
      in if ar_api_id r \<in> ar_api_id ` set (db_apis db) then (Inl unique_err, db)
         else if ar_workspace_id r \<notin> wr_workspace_id ` set (db_workspaces db) then (Inl fk_err, db)
         else (Inr (), db\<lparr>db_apis := db_apis db @ [r]\<rparr>))"

definition sql_insert_key :: "'j pg_libs \<Rightarrow> 'j key_row \<Rightarrow> 'j pg_db \<Rightarrow> (db_err + unit) \<times> 'j pg_db" where
  "sql_insert_key P r db =
     (let r = r\<lparr>kr_limit_refs := pl_jsonb P (kr_limit_refs r),
                kr_expires_at := map_option (pl_time P) (kr_expires_at r),
                kr_created_at := pl_time P (kr_created_at r), kr_updated_at := pl_time P (kr_updated_at r),
                kr_last_verified_at := map_option (pl_time P) (kr_last_verified_at r),
                kr_metadata := pl_jsonb P (kr_metadata r)\<rparr>
      in if kr_key_id r \<in> kr_key_id ` set (db_keys db) then (Inl unique_err, db)
         else if kr_key_hash r \<in> kr_key_hash ` set (db_keys db) then (Inl unique_err, db)
         else if kr_api_id r \<notin> ar_api_id ` set (db_apis db) then (Inl fk_err, db)
         else if kr_workspace_id r \<notin> wr_workspace_id ` set (db_workspaces db) then (Inl fk_err, db)
         else (Inr (), db\<lparr>db_keys := db_keys db @ [r]\<rparr>))"

text \<open>The first row of a query, as \<open>QueryRow\<close> delivers it.\<close>

definition query_row :: "('row \<Rightarrow> bool) \<Rightarrow> 'row list \<Rightarrow> db_err + 'row" where
  "query_row p rows = (case filter p rows of [] \<Rightarrow> Inl ErrNoRows | r # _ \<Rightarrow> Inr r)"

text \<open>\<open>UPDATE keys SET ... WHERE ...\<close>: the updated rows and the new table.\<close>

definition update_rows :: "('row \<Rightarrow> bool) \<Rightarrow> ('row \<Rightarrow> 'row) \<Rightarrow> 'row list \<Rightarrow> 'row list \<times> 'row list" where
  "update_rows p f rows = (map f (filter p rows), map (\<lambda>r. if p r then f r else r) rows)"

text \<open>The hash column is checked for uniqueness on update too.\<close>

definition sql_update_hash ::
  "'j pg_libs \<Rightarrow> bytes \<Rightarrow> gotime \<Rightarrow> string \<Rightarrow> 'j pg_db \<Rightarrow> (db_err + unit) \<times> 'j pg_db" where
  "sql_update_hash P h t i db =
     (let rows = snd (update_rows (\<lambda>r. kr_key_id r = i)
                   (\<lambda>r. r\<lparr>kr_key_hash := h, kr_updated_at := pl_time P t\<rparr>) (db_keys db))
      in if distinct (map kr_key_hash rows) then (Inr (), db\<lparr>db_keys := rows\<rparr>)
         else (Inl unique_err, db))"

text \<open>A statement that fails with the fault of its position leaves the database alone.\<close>

definition pg_exec ::
  "pg_env \<Rightarrow> nat \<Rightarrow> ('j pg_db \<Rightarrow> (db_err + 'a) \<times> 'j pg_db) \<Rightarrow> 'j pg_db \<Rightarrow> (db_err + 'a) \<times> 'j pg_db" where
  "pg_exec e n stmt db = (case pe_fault e n of Some err \<Rightarrow> (Inl err, db) | None \<Rightarrow> stmt db)"

section \<open>Workspaces and APIs\<close>

definition pg_CreateWorkspace ::
  "'j pg_libs \<Rightarrow> pg_env \<Rightarrow> 'j pg_db \<Rightarrow> Workspace \<Rightarrow> (goerr + Workspace) \<times> 'j pg_db" where
  "pg_CreateWorkspace P e db w =
     (let w = w\<lparr>w_WorkspaceID := pg_newID ''ws'' (pe_uuid e)\<rparr>;
          now = pe_now e;
          w = w\<lparr>w_CreatedAt := now\<rparr>;
          w = w\<lparr>w_UpdatedAt := now\<rparr>;
          meta = marshalMetadata P (w_Metadata w)
      in case pg_exec e 0 (sql_insert_workspace P
                \<lparr>wr_workspace_id = w_WorkspaceID w, wr_name = w_Name w,
                 wr_owner_principal_id = w_OwnerPrincipalID w, wr_created_at = w_CreatedAt w,
                 wr_updated_at = w_UpdatedAt w, wr_metadata = meta\<rparr>) db of
           (Inl err, db') \<Rightarrow> (Inl (Wrapf ''insert workspace: %w'' None (err_of err)), db')
         | (Inr _, db') \<Rightarrow> (Inr w, db'))"

definition pg_GetWorkspace ::
  "'j pg_libs \<Rightarrow> pg_env \<Rightarrow> 'j pg_db \<Rightarrow> string \<Rightarrow> (goerr + Workspace) \<times> 'j pg_db" where
  "pg_GetWorkspace P e db i =
     (case pg_exec e 0 (\<lambda>db. (query_row (\<lambda>r. wr_workspace_id r = i) (db_workspaces db), db)) db of
        (Inl err, db') \<Rightarrow>
          if err = ErrNoRows then (Inl (Sentinel ErrNotFound), db')
          else (Inl (Wrapf ''select workspace: %w'' None (err_of err)), db')
      | (Inr r, db') \<Rightarrow>
          (Inr \<lparr>w_WorkspaceID = wr_workspace_id r, w_Name = wr_name r,
                w_OwnerPrincipalID = wr_owner_principal_id r, w_CreatedAt = wr_created_at r,
                w_UpdatedAt = wr_updated_at r, w_Metadata = unmarshalMetadata P (wr_metadata r)\<rparr>, db'))"

definition pg_CreateAPI ::
  "'j pg_libs \<Rightarrow> pg_env \<Rightarrow> 'j pg_db \<Rightarrow> API \<Rightarrow> (goerr + API) \<times> 'j pg_db" where
  "pg_CreateAPI P e db a =
     (let a = a\<lparr>a_APIID := pg_newID ''api'' (pe_uuid e)\<rparr>;
          now = pe_now e;
          a = a\<lparr>a_CreatedAt := now\<rparr>;
          a = a\<lparr>a_UpdatedAt := now\<rparr>;
          meta = marshalMetadata P (a_Metadata a)
      in case pg_exec e 0 (sql_insert_api P
                \<lparr>ar_api_id = a_APIID a, ar_workspace_id = a_WorkspaceID a, ar_name = a_Name a,
                 ar_key_prefix = a_KeyPrefix a, ar_created_at = a_CreatedAt a,
                 ar_updated_at = a_UpdatedAt a, ar_metadata = meta\<rparr>) db of
           (Inl err, db') \<Rightarrow>
             if isFKViolation err
             then (Inl (Wrapf ''workspace %q: %w'' (Some (a_WorkspaceID a)) (Sentinel ErrNotFound)), db')
             else (Inl (Wrapf ''insert api: %w'' None (err_of err)), db')
         | (Inr _, db') \<Rightarrow> (Inr a, db'))"

definition pg_GetAPI ::
  "'j pg_libs \<Rightarrow> pg_env \<Rightarrow> 'j pg_db \<Rightarrow> string \<Rightarrow> (goerr + API) \<times> 'j pg_db" where
  "pg_GetAPI P e db i =
     (case pg_exec e 0 (\<lambda>db. (query_row (\<lambda>r. ar_api_id r = i) (db_apis db), db)) db of
        (Inl err, db') \<Rightarrow>
          if err = ErrNoRows then (Inl (Sentinel ErrNotFound), db')
          else (Inl (Wrapf ''select api: %w'' None (err_of err)), db')
      | (Inr r, db') \<Rightarrow>
          (Inr \<lparr>a_APIID = ar_api_id r, a_WorkspaceID = ar_workspace_id r, a_Name = ar_name r,
                a_KeyPrefix = ar_key_prefix r, a_CreatedAt = ar_created_at r,
                a_UpdatedAt = ar_updated_at r, a_Metadata = unmarshalMetadata P (ar_metadata r)\<rparr>, db'))"

section \<open>Keys\<close>

definition pg_CreateKey ::
  "'j pg_libs \<Rightarrow> pg_env \<Rightarrow> 'j pg_db \<Rightarrow> Key \<Rightarrow> (goerr + Key) \<times> 'j pg_db" where
  "pg_CreateKey P e db k =
     (let k = k\<lparr>k_KeyID := pg_newID ''key'' (pe_uuid e)\<rparr>;
          now = pe_now e;
          k = k\<lparr>k_CreatedAt := now\<rparr>;
          k = k\<lparr>k_UpdatedAt := now\<rparr>;
          limitRefsJSON = pl_Marshal_refs P (k_LimitRefs k);
          meta = marshalMetadata P (k_Metadata k);
          perms = nonNilStrings (Some (k_Permissions k))
      in case pg_exec e 0 (sql_insert_key P
                \<lparr>kr_key_id = k_KeyID k, kr_api_id = k_APIID k, kr_workspace_id = k_WorkspaceID k,
                 kr_owner_principal_id = k_OwnerPrincipalID k, kr_name = k_Name k,
                 kr_key_hash = k_KeyHash k, kr_permissions = perms, kr_limit_refs = limitRefsJSON,
                 kr_expires_at = k_ExpiresAt k, kr_remaining_uses = k_RemainingUses k,
                 kr_enabled = k_Enabled k, kr_created_at = k_CreatedAt k,
                 kr_updated_at = k_UpdatedAt k, kr_last_verified_at = k_LastVerifiedAt k,
                 kr_metadata = meta\<rparr>) db of
           (Inl err, db') \<Rightarrow>
             if isFKViolation err
             then (Inl (Wrapf ''api %q: %w'' (Some (k_APIID k)) (Sentinel ErrNotFound)), db')
             else if isUniqueViolation err then (Inl (Sentinel ErrConflict), db')
             else (Inl (Wrapf ''insert key: %w'' None (err_of err)), db')
         | (Inr _, db') \<Rightarrow> (Inr k, db'))"

text \<open>A scanned row as a \<open>store.Key\<close>; \<open>sql.NullTime\<close> is an option.\<close>

definition key_of_row :: "'j pg_libs \<Rightarrow> 'j key_row \<Rightarrow> goerr + Key" where
  "key_of_row P r =
     (case pl_Unmarshal_refs P (kr_limit_refs r) of
        Inl err \<Rightarrow> Inl (Wrapf ''unmarshal limit_refs: %w'' None err)
      | Inr refs \<Rightarrow>
          Inr \<lparr>k_KeyID = kr_key_id r, k_APIID = kr_api_id r, k_WorkspaceID = kr_workspace_id r,
               k_OwnerPrincipalID = kr_owner_principal_id r, k_Name = kr_name r,
               k_KeyHash = kr_key_hash r, k_Permissions = kr_permissions r, k_LimitRefs = refs,
               k_ExpiresAt = kr_expires_at r, k_RemainingUses = kr_remaining_uses r,
               k_Enabled = kr_enabled r, k_CreatedAt = kr_created_at r,
               k_UpdatedAt = kr_updated_at r, k_LastVerifiedAt = kr_last_verified_at r,
               k_Metadata = unmarshalMetadata P (kr_metadata r)\<rparr>)"

definition queryKey ::
  "'j pg_libs \<Rightarrow> pg_env \<Rightarrow> nat \<Rightarrow> 'j pg_db \<Rightarrow> ('j key_row \<Rightarrow> bool) \<Rightarrow> (goerr + Key) \<times> 'j pg_db" where
  "queryKey P e n db cond =
     (case pg_exec e n (\<lambda>db. (query_row cond (db_keys db), db)) db of
        (Inl err, db') \<Rightarrow>
          if err = ErrNoRows then (Inl (Sentinel ErrNotFound), db')
          else (Inl (Wrapf ''select key: %w'' None (err_of err)), db')
      | (Inr r, db') \<Rightarrow> (key_of_row P r, db'))"

definition pg_GetKeyByID ::
  "'j pg_libs \<Rightarrow> pg_env \<Rightarrow> 'j pg_db \<Rightarrow> string \<Rightarrow> (goerr + Key) \<times> 'j pg_db" where
  "pg_GetKeyByID P e db i = queryKey P e 0 db (\<lambda>r. kr_key_id r = i)"

definition pg_GetKeyByHash ::
  "'j pg_libs \<Rightarrow> pg_env \<Rightarrow> 'j pg_db \<Rightarrow> bytes \<Rightarrow> (goerr + Key) \<times> 'j pg_db" where
  "pg_GetKeyByHash P e db h = queryKey P e 0 db (\<lambda>r. kr_key_hash r = h)"

definition pg_RevokeKey ::
  "'j pg_libs \<Rightarrow> pg_env \<Rightarrow> 'j pg_db \<Rightarrow> string \<Rightarrow> (goerr + unit) \<times> 'j pg_db" where
  "pg_RevokeKey P e db i =
     (case pg_exec e 0 (\<lambda>db.
             let (hit, rows) = update_rows (\<lambda>r. kr_key_id r = i)
                   (\<lambda>r. r\<lparr>kr_enabled := False, kr_updated_at := pl_time P (pe_now e)\<rparr>) (db_keys db)
             in (case hit of [] \<Rightarrow> Inl ErrNoRows | _ # _ \<Rightarrow> Inr (), db\<lparr>db_keys := rows\<rparr>)) db of
        (Inl err, db') \<Rightarrow>
          if err = ErrNoRows then (Inl (Sentinel ErrNotFound), db')
          else (Inl (Wrapf ''update key: %w'' None (err_of err)), db')
      | (Inr _, db') \<Rightarrow> (Inr (), db'))"

definition pg_RotateKey ::
  "'j pg_libs \<Rightarrow> pg_env \<Rightarrow> 'j pg_db \<Rightarrow> string \<Rightarrow> bytes \<Rightarrow> (goerr + Key) \<times> 'j pg_db" where
  "pg_RotateKey P e db i newHash =
     (case pg_exec e 0 (sql_update_hash P newHash (pe_now e) i) db of
        (Inl err, db') \<Rightarrow>
          if isUniqueViolation err then (Inl (Sentinel ErrConflict), db')
          else (Inl (Wrapf ''update key hash: %w'' None (err_of err)), db')
      | (Inr _, db') \<Rightarrow> queryKey P e 1 db' (\<lambda>r. kr_key_id r = i))"

text \<open>The loop over the rows: scan, decode, append; a scan error or a decode error ends it.\<close>

fun scan_rows :: "'j pg_libs \<Rightarrow> pg_env \<Rightarrow> nat \<Rightarrow> 'j key_row list \<Rightarrow> Key list \<Rightarrow> goerr + Key list" where
  "scan_rows P e n [] out = Inr out"
| "scan_rows P e n (r # rows) out =
     (case pe_scan_fault e n of
        Some err \<Rightarrow> Inl (Wrapf ''scan key: %w'' None (err_of err))
      | None \<Rightarrow>
          (case key_of_row P r of
             Inl err \<Rightarrow> Inl err
           | Inr k \<Rightarrow> scan_rows P e (Suc n) rows (out @ [k])))"

definition pg_ListKeys ::
  "'j pg_libs \<Rightarrow> pg_env \<Rightarrow> 'j pg_db \<Rightarrow> ListKeysOpts \<Rightarrow> (goerr + ListKeysResult) \<times> 'j pg_db" where
  "pg_ListKeys P e db opts =
     (let pageSize = (if sint (o_PageSize opts) \<le> 0 then 50 else nat (sint (o_PageSize opts)))
      in case pg_exec e 0 (\<lambda>db.
             (Inr (take (pageSize + 1) (sort_key (\<lambda>r. pl_coll P (kr_key_id r))
                (filter (\<lambda>r. kr_api_id r = o_APIID opts \<and>
                   (o_OwnerPrincipalID opts = [] \<or> kr_owner_principal_id r = o_OwnerPrincipalID opts) \<and>
                   (o_PageToken opts = [] \<or> pl_coll P (o_PageToken opts) < pl_coll P (kr_key_id r)))
                 (db_keys db)))), db)) db of
           (Inl err, db') \<Rightarrow> (Inl (Wrapf ''select keys: %w'' None (err_of err)), db')
         | (Inr rows, db') \<Rightarrow>
             let delivered = (case pe_rows_fault e of None \<Rightarrow> rows | Some (n, _) \<Rightarrow> take n rows)
             in case scan_rows P e 0 delivered [] of
                  Inl err \<Rightarrow> (Inl err, db')
                | Inr out \<Rightarrow>
                    (case pe_rows_fault e of
                       Some (_, err) \<Rightarrow> (Inl (Wrapf ''iterate keys: %w'' None (err_of err)), db')
                     | None \<Rightarrow>
                         if length out > pageSize
                         then (Inr \<lparr>r_Keys = take pageSize out,
                                    r_NextPageToken = k_KeyID (out ! (pageSize - 1))\<rparr>, db')
                         else (Inr \<lparr>r_Keys = out, r_NextPageToken = []\<rparr>, db')))"

definition pg_TouchLastVerified ::
  "'j pg_libs \<Rightarrow> pg_env \<Rightarrow> 'j pg_db \<Rightarrow> string \<Rightarrow> gotime \<Rightarrow> (goerr + unit) \<times> 'j pg_db" where
  "pg_TouchLastVerified P e db i at =
     (case pg_exec e 0 (\<lambda>db.
             let (hit, rows) = update_rows (\<lambda>r. kr_key_id r = i)
                   (\<lambda>r. r\<lparr>kr_last_verified_at := Some (pl_time P at)\<rparr>) (db_keys db)
             in (Inr (length hit), db\<lparr>db_keys := rows\<rparr>)) db of
        (Inl err, db') \<Rightarrow> (Inl (Wrapf ''touch last_verified_at: %w'' None (err_of err)), db')
      | (Inr rowsAffected, db') \<Rightarrow>
          if rowsAffected = 0 then (Inl (Sentinel ErrNotFound), db') else (Inr (), db'))"

definition pg_DecrementRemainingUses ::
  "'j pg_libs \<Rightarrow> pg_env \<Rightarrow> 'j pg_db \<Rightarrow> string \<Rightarrow> (int64 \<times> goerr option) \<times> 'j pg_db" where
  "pg_DecrementRemainingUses P e db i =
     (case pg_exec e 0 (\<lambda>db.
             let (hit, rows) = update_rows (\<lambda>r. kr_key_id r = i \<and> 0 < sint (kr_remaining_uses r))
                   (\<lambda>r. r\<lparr>kr_remaining_uses := kr_remaining_uses r - 1,
                          kr_updated_at := pl_time P (pe_now e)\<rparr>) (db_keys db)
             in (case hit of [] \<Rightarrow> Inl ErrNoRows | r # _ \<Rightarrow> Inr (kr_remaining_uses r),
                 db\<lparr>db_keys := rows\<rparr>)) db of
        (Inr remaining, db') \<Rightarrow> ((remaining, None), db')
      | (Inl err, db') \<Rightarrow>
          if err \<noteq> ErrNoRows
          then ((0, Some (Wrapf ''decrement remaining: %w'' None (err_of err))), db')
          else
            (case pg_exec e 1 (\<lambda>db. (query_row (\<lambda>r. kr_key_id r = i) (db_keys db), db)) db' of
               (Inl err, db'') \<Rightarrow>
                 if err = ErrNoRows then ((0, Some (Sentinel ErrNotFound)), db'')
                 else ((0, Some (Wrapf ''select remaining: %w'' None (err_of err))), db'')
             | (Inr r, db'') \<Rightarrow>
                 if sint (kr_remaining_uses r) < 0 then ((-1, None), db'')
                 else ((kr_remaining_uses r, Some (Sentinel ErrDepleted)), db'')))"

section \<open>The driver as a Store\<close>

definition pg_Store :: "'j pg_libs \<Rightarrow> (pg_env, 'j pg_db) Store" where
  "pg_Store P = \<lparr>
     CreateWorkspace = pg_CreateWorkspace P, GetWorkspace = pg_GetWorkspace P,
     CreateAPI = pg_CreateAPI P, GetAPI = pg_GetAPI P,
     CreateKey = pg_CreateKey P, GetKeyByID = pg_GetKeyByID P, GetKeyByHash = pg_GetKeyByHash P,
     RevokeKey = pg_RevokeKey P, RotateKey = pg_RotateKey P, ListKeys = pg_ListKeys P,
     TouchLastVerified = pg_TouchLastVerified P,
     DecrementRemainingUses = pg_DecrementRemainingUses P\<rparr>"

lemma pg_Store_sel [simp]:
  "CreateWorkspace (pg_Store P) = pg_CreateWorkspace P" "GetWorkspace (pg_Store P) = pg_GetWorkspace P"
  "CreateAPI (pg_Store P) = pg_CreateAPI P" "GetAPI (pg_Store P) = pg_GetAPI P"
  "CreateKey (pg_Store P) = pg_CreateKey P" "GetKeyByID (pg_Store P) = pg_GetKeyByID P"
  "GetKeyByHash (pg_Store P) = pg_GetKeyByHash P" "RevokeKey (pg_Store P) = pg_RevokeKey P"
  "RotateKey (pg_Store P) = pg_RotateKey P" "ListKeys (pg_Store P) = pg_ListKeys P"
  "TouchLastVerified (pg_Store P) = pg_TouchLastVerified P"
  "DecrementRemainingUses (pg_Store P) = pg_DecrementRemainingUses P"
  by (simp_all add: pg_Store_def)

section \<open>Tables as maps\<close>

definition lookup :: "('row \<Rightarrow> string) \<Rightarrow> 'row list \<Rightarrow> string \<rightharpoonup> 'row" where
  "lookup pk rows i = find (\<lambda>r. pk r = i) rows"

lemma lookup_Nil [simp]: "lookup pk [] = Map.empty"
  by (simp add: lookup_def fun_eq_iff)

lemma lookup_eq_None [simp]: "lookup pk rows i = None \<longleftrightarrow> i \<notin> pk ` set rows"
  by (auto simp: lookup_def find_None_iff)

lemma dom_lookup [simp]: "dom (lookup pk rows) = pk ` set rows"
  by (rule set_eqI) (metis domIff lookup_eq_None)

lemma lookup_SomeD: "lookup pk rows i = Some r \<Longrightarrow> r \<in> set rows \<and> pk r = i"
  by (auto simp: lookup_def find_Some_iff)

lemma lookup_eq_Some:
  assumes "distinct (map pk rows)"
  shows "lookup pk rows i = Some r \<longleftrightarrow> r \<in> set rows \<and> pk r = i"
proof
  assume r: "r \<in> set rows \<and> pk r = i"
  then obtain r' where "lookup pk rows i = Some r'"
    by (metis lookup_eq_None image_eqI option.exhaust)
  moreover from this have "r' \<in> set rows" "pk r' = i" by (auto dest: lookup_SomeD)
  ultimately show "lookup pk rows i = Some r" using r assms by (auto simp: distinct_map inj_on_def)
qed (rule lookup_SomeD)

lemma lookup_append:
  assumes "pk r \<notin> pk ` set rows"
  shows "lookup pk (rows @ [r]) = (lookup pk rows)(pk r \<mapsto> r)"
  using assms by (induction rows) (auto simp: lookup_def fun_eq_iff)

lemma lookup_update:
  assumes "\<And>r. pk (f r) = pk r"
  shows "lookup pk (map (\<lambda>r. if pk r = i then f r else r) rows) =
    (lookup pk rows)(i := map_option f (lookup pk rows i))"
  by (induction rows) (auto simp: lookup_def fun_eq_iff assms)

lemma query_row_lookup: "query_row (\<lambda>r. pk r = i) rows =
    (case lookup pk rows i of None \<Rightarrow> Inl ErrNoRows | Some r \<Rightarrow> Inr r)"
  by (induction rows) (auto simp: query_row_def lookup_def)

lemma update_rows_hit: "fst (update_rows p f rows) = map f (filter p rows)"
  and update_rows_rows: "snd (update_rows p f rows) = map (\<lambda>r. if p r then f r else r) rows"
  by (simp_all add: update_rows_def)

lemma filter_pk:
  assumes "distinct (map pk rows)"
  shows "filter (\<lambda>r. pk r = i) rows = (case lookup pk rows i of None \<Rightarrow> [] | Some r \<Rightarrow> [r])"
  using assms
proof (induction rows)
  case (Cons r rows)
  show ?case
  proof (cases "pk r = i")
    case True
    with Cons.prems have "i \<notin> pk ` set rows" by simp
    then have "filter (\<lambda>r. pk r = i) rows = []" unfolding filter_empty_conv by blast
    with True show ?thesis by (simp add: lookup_def)
  next
    case False
    with Cons show ?thesis by (simp add: lookup_def)
  qed
qed simp

section \<open>View, invariant, environment\<close>

definition ws_of_row :: "'j pg_libs \<Rightarrow> 'j ws_row \<Rightarrow> Workspace" where
  "ws_of_row P r = \<lparr>w_WorkspaceID = wr_workspace_id r, w_Name = wr_name r,
     w_OwnerPrincipalID = wr_owner_principal_id r, w_CreatedAt = wr_created_at r,
     w_UpdatedAt = wr_updated_at r, w_Metadata = unmarshalMetadata P (wr_metadata r)\<rparr>"

definition api_of_row :: "'j pg_libs \<Rightarrow> 'j api_row \<Rightarrow> API" where
  "api_of_row P r = \<lparr>a_APIID = ar_api_id r, a_WorkspaceID = ar_workspace_id r, a_Name = ar_name r,
     a_KeyPrefix = ar_key_prefix r, a_CreatedAt = ar_created_at r, a_UpdatedAt = ar_updated_at r,
     a_Metadata = unmarshalMetadata P (ar_metadata r)\<rparr>"

definition pg_view :: "'j pg_libs \<Rightarrow> 'j pg_db \<Rightarrow> view" where
  "pg_view P db = \<lparr>v_workspaces = map_option (ws_of_row P) \<circ> lookup wr_workspace_id (db_workspaces db),
     v_apis = map_option (api_of_row P) \<circ> lookup ar_api_id (db_apis db),
     v_keys = map_option (projr \<circ> key_of_row P) \<circ> lookup kr_key_id (db_keys db)\<rparr>"

text \<open>
  The constraints of the schema, and that every stored list of limit references decodes. The foreign
  key from keys to workspaces is checked by every insertion (\<open>sql_insert_key\<close>) but is no part of the
  invariant, since no law needs it.
\<close>

definition pg_inv :: "'j pg_libs \<Rightarrow> 'j pg_db \<Rightarrow> bool" where
  "pg_inv P db \<longleftrightarrow>
     distinct (map wr_workspace_id (db_workspaces db)) \<and> distinct (map ar_api_id (db_apis db)) \<and>
     distinct (map kr_key_id (db_keys db)) \<and> distinct (map kr_key_hash (db_keys db)) \<and>
     ar_workspace_id ` set (db_apis db) \<subseteq> wr_workspace_id ` set (db_workspaces db) \<and>
     kr_api_id ` set (db_keys db) \<subseteq> ar_api_id ` set (db_apis db) \<and>
     (\<forall>r \<in> set (db_keys db). kr_key_id r \<noteq> [] \<and> (\<exists>refs. pl_Unmarshal_refs P (kr_limit_refs r) = Inr refs))"

definition pg_env_up :: "pg_env \<Rightarrow> bool" where
  "pg_env_up e \<longleftrightarrow> (\<forall>n. pe_fault e n = None) \<and> (\<forall>n. pe_scan_fault e n = None) \<and> pe_rows_fault e = None"

definition pg_env_fresh :: "pg_env \<Rightarrow> 'j pg_db \<Rightarrow> bool" where
  "pg_env_fresh e db \<longleftrightarrow>
     pg_newID ''ws'' (pe_uuid e) \<notin> wr_workspace_id ` set (db_workspaces db) \<and>
     pg_newID ''api'' (pe_uuid e) \<notin> ar_api_id ` set (db_apis db) \<and>
     pg_newID ''key'' (pe_uuid e) \<notin> kr_key_id ` set (db_keys db)"

text \<open>What metadata and limit references become on their way through the database.\<close>

definition pg_meta :: "'j pg_libs \<Rightarrow> gomap \<Rightarrow> gomap" where
  "pg_meta P m = unmarshalMetadata P (pl_jsonb P (marshalMetadata P m))"

definition pg_refs :: "'j pg_libs \<Rightarrow> LimitRef list \<Rightarrow> LimitRef list" where
  "pg_refs P refs = projr (pl_Unmarshal_refs P (pl_jsonb P (pl_Marshal_refs P refs)))"

text \<open>
  What the driver relies on: the stored resolution of a time is stable, distinct identifiers have
  distinct collation keys, what \<open>json.Marshal\<close> made of limit references decodes after a trip
  through \<open>JSONB\<close>, and no references decode as none.
\<close>

definition pg_libs_ok :: "'j pg_libs \<Rightarrow> bool" where
  "pg_libs_ok P \<longleftrightarrow> (\<forall>t. pl_time P (pl_time P t) = pl_time P t) \<and> inj (pl_coll P) \<and>
     (\<forall>refs. \<exists>refs'. pl_Unmarshal_refs P (pl_jsonb P (pl_Marshal_refs P refs)) = Inr refs') \<and>
     pl_Unmarshal_refs P (pl_jsonb P (pl_Marshal_refs P [])) = Inr []"

lemma pg_exec_up [simp]: "pg_env_up e \<Longrightarrow> pg_exec e n stmt db = stmt db"
  by (simp add: pg_exec_def pg_env_up_def)

lemma pg_newID_nonempty [simp]: "pg_newID p u \<noteq> []"
  by (simp add: pg_newID_def)

lemma pg_violations [simp]:
  "isFKViolation fk_err" "\<not> isFKViolation unique_err" "isUniqueViolation unique_err"
  "\<not> isUniqueViolation fk_err" "isFKViolation ErrNoRows = False"
  by (simp_all add: isFKViolation_def isUniqueViolation_def fk_err_def unique_err_def)

lemma pg_invD_refs:
  assumes "pg_inv P db" "r \<in> set (db_keys db)"
  shows "\<exists>refs. pl_Unmarshal_refs P (kr_limit_refs r) = Inr refs" "kr_key_id r \<noteq> []"
  using assms by (auto simp: pg_inv_def)

lemma key_of_row_Inr:
  assumes "pl_Unmarshal_refs P (kr_limit_refs r) = Inr refs"
  shows "key_of_row P r = Inr (projr (key_of_row P r))"
  using assms by (simp add: key_of_row_def)

lemma key_of_row_sel:
  assumes "pl_Unmarshal_refs P (kr_limit_refs r) = Inr refs"
  shows "k_KeyID (projr (key_of_row P r)) = kr_key_id r" "k_APIID (projr (key_of_row P r)) = kr_api_id r"
    "k_OwnerPrincipalID (projr (key_of_row P r)) = kr_owner_principal_id r"
    "k_KeyHash (projr (key_of_row P r)) = kr_key_hash r"
    "k_RemainingUses (projr (key_of_row P r)) = kr_remaining_uses r"
    "k_Enabled (projr (key_of_row P r)) = kr_enabled r"
  using assms by (simp_all add: key_of_row_def)

text \<open>Reading a key through the view.\<close>

lemma pg_view_key:
  assumes "pg_inv P db" "v_keys (pg_view P db) i = Some k"
  obtains r where "lookup kr_key_id (db_keys db) i = Some r" "key_of_row P r = Inr k"
    "r \<in> set (db_keys db)" "kr_key_id r = i"
proof -
  from assms(2) obtain r where r: "lookup kr_key_id (db_keys db) i = Some r" "k = projr (key_of_row P r)"
    by (auto simp: pg_view_def)
  moreover from this have "r \<in> set (db_keys db)" "kr_key_id r = i" by (auto dest: lookup_SomeD)
  ultimately show thesis using that pg_invD_refs(1) [OF assms(1)] key_of_row_Inr by metis
qed

lemma pg_row_key:
  assumes "pg_inv P db" "r \<in> set (db_keys db)"
  shows "v_keys (pg_view P db) (kr_key_id r) = Some (projr (key_of_row P r))"
proof -
  have "lookup kr_key_id (db_keys db) (kr_key_id r) = Some r"
    using assms by (simp add: lookup_eq_Some pg_inv_def)
  then show ?thesis by (simp add: pg_view_def)
qed

lemma pg_view_ok:
  assumes "pg_inv P db"
  shows "view_ok (pg_view P db)"
proof -
  note D = lookup_SomeD
  have "workspaces_ok (v_workspaces (pg_view P db))"
    by (auto simp: workspaces_ok_def pg_view_def ws_of_row_def dest!: D)
  moreover have "apis_ok (v_workspaces (pg_view P db)) (v_apis (pg_view P db))"
    using assms
    by (fastforce simp: apis_ok_def pg_view_def api_of_row_def pg_inv_def dom_map_option_comp dest!: D)
  moreover have "keys_ok (v_apis (pg_view P db)) (v_keys (pg_view P db))"
    unfolding keys_ok_def
  proof (intro allI impI)
    fix i k assume "v_keys (pg_view P db) i = Some k"
    then obtain r where r: "key_of_row P r = Inr k" "r \<in> set (db_keys db)" "kr_key_id r = i"
      using pg_view_key [OF assms] by metis
    from pg_invD_refs [OF assms r(2)] obtain refs where "pl_Unmarshal_refs P (kr_limit_refs r) = Inr refs"
      "i \<noteq> []" using r(3) by auto
    with key_of_row_sel(1,2) [OF this(1)] r assms
    show "k_KeyID k = i \<and> i \<noteq> [] \<and> k_APIID k \<in> dom (v_apis (pg_view P db))"
      by (auto simp: pg_inv_def pg_view_def dom_map_option_comp)
  qed
  moreover have "hashes_unique (v_keys (pg_view P db))"
    unfolding hashes_unique_def
  proof (intro allI impI)
    fix i j k k'
    assume k: "v_keys (pg_view P db) i = Some k" "v_keys (pg_view P db) j = Some k'" "k_KeyHash k = k_KeyHash k'"
    obtain r r' where r: "key_of_row P r = Inr k" "r \<in> set (db_keys db)" "kr_key_id r = i"
      "key_of_row P r' = Inr k'" "r' \<in> set (db_keys db)" "kr_key_id r' = j"
      using pg_view_key [OF assms k(1)] pg_view_key [OF assms k(2)] by metis
    then have "kr_key_hash r = kr_key_hash r'"
      using k(3) pg_invD_refs(1) [OF assms] key_of_row_sel(4) by (metis sum.sel(2))
    then have "r = r'" using assms r by (auto simp: pg_inv_def distinct_map inj_on_def)
    then show "i = j" using r by simp
  qed
  moreover have "finite (dom (v_keys (pg_view P db)))"
    by (simp add: pg_view_def dom_map_option_comp)
  ultimately show ?thesis by (simp add: view_ok_def)
qed

section \<open>What the statements do to the view\<close>

lemma pg_hash_taken:
  assumes "pg_inv P db"
  shows "hash_taken (pg_view P db) h \<longleftrightarrow> h \<in> kr_key_hash ` set (db_keys db)"
proof
  assume "hash_taken (pg_view P db) h"
  then obtain i k where k: "v_keys (pg_view P db) i = Some k" "k_KeyHash k = h" by (auto simp: hash_taken_def)
  obtain r where "key_of_row P r = Inr k" "r \<in> set (db_keys db)" using pg_view_key [OF assms k(1)] by metis
  then show "h \<in> kr_key_hash ` set (db_keys db)"
    using k(2) pg_invD_refs(1) [OF assms] key_of_row_sel(4) by (metis image_eqI sum.sel(2))
next
  assume "h \<in> kr_key_hash ` set (db_keys db)"
  then obtain r where r: "r \<in> set (db_keys db)" "kr_key_hash r = h" by auto
  then show "hash_taken (pg_view P db) h"
    unfolding hash_taken_def using pg_row_key [OF assms r(1)] pg_invD_refs(1) [OF assms r(1)] key_of_row_sel(4)
    by metis
qed

lemma pg_hash_free_for:
  assumes "pg_inv P db"
  shows "hash_free_for (pg_view P db) i h \<longleftrightarrow>
    (\<forall>r \<in> set (db_keys db). kr_key_hash r = h \<longrightarrow> kr_key_id r = i)"
proof
  assume free: "hash_free_for (pg_view P db) i h"
  show "\<forall>r \<in> set (db_keys db). kr_key_hash r = h \<longrightarrow> kr_key_id r = i"
    using free pg_row_key [OF assms] pg_invD_refs(1) [OF assms] key_of_row_sel(4)
    unfolding hash_free_for_def by metis
next
  assume rows: "\<forall>r \<in> set (db_keys db). kr_key_hash r = h \<longrightarrow> kr_key_id r = i"
  show "hash_free_for (pg_view P db) i h"
    unfolding hash_free_for_def
    using rows pg_view_key [OF assms] pg_invD_refs(1) [OF assms] key_of_row_sel(4) by (metis sum.sel(2))
qed

text \<open>Updating the row of one key.\<close>

lemma pg_update_key:
  assumes inv: "pg_inv P db" and r: "lookup kr_key_id (db_keys db) i = Some r"
    and f: "\<And>r. kr_key_id (f r) = kr_key_id r" "\<And>r. kr_api_id (f r) = kr_api_id r"
      "\<And>r. kr_limit_refs (f r) = kr_limit_refs r"
    and rows: "rows = map (\<lambda>r. if kr_key_id r = i then f r else r) (db_keys db)"
    and hash: "distinct (map kr_key_hash rows)"
  shows "pg_inv P (db\<lparr>db_keys := rows\<rparr>)"
    and "pg_view P (db\<lparr>db_keys := rows\<rparr>) =
      (pg_view P db)\<lparr>v_keys := (v_keys (pg_view P db))(i \<mapsto> projr (key_of_row P (f r)))\<rparr>"
proof -
  have ids: "map kr_key_id rows = map kr_key_id (db_keys db)" by (simp add: rows f)
  have apis: "kr_api_id ` set rows = kr_api_id ` set (db_keys db)"
    unfolding rows set_map image_image by (intro image_cong) (auto simp: f)
  have refs: "\<forall>r \<in> set rows. kr_key_id r \<noteq> [] \<and> (\<exists>refs. pl_Unmarshal_refs P (kr_limit_refs r) = Inr refs)"
    using inv by (auto simp: rows f pg_inv_def)
  show "pg_inv P (db\<lparr>db_keys := rows\<rparr>)"
    using inv refs by (simp add: pg_inv_def ids apis hash)
  show "pg_view P (db\<lparr>db_keys := rows\<rparr>) =
      (pg_view P db)\<lparr>v_keys := (v_keys (pg_view P db))(i \<mapsto> projr (key_of_row P (f r)))\<rparr>"
    by (simp add: pg_view_def rows lookup_update f r fun_eq_iff)
qed

lemma pg_update_same_hash:
  assumes "pg_inv P db" "\<And>r. kr_key_hash (f r) = kr_key_hash r"
  shows "distinct (map kr_key_hash (map (\<lambda>r. if kr_key_id r = i then f r else r) (db_keys db)))"
proof -
  have "map kr_key_hash (map (\<lambda>r. if kr_key_id r = i then f r else r) (db_keys db)) =
      map kr_key_hash (db_keys db)" by (simp add: assms(2))
  then show ?thesis using assms(1) by (simp only: pg_inv_def)
qed

lemma pg_rotate_distinct:
  assumes inv: "pg_inv P db" and r: "lookup kr_key_id (db_keys db) i = Some r"
  shows "distinct (map kr_key_hash (map (\<lambda>r. if kr_key_id r = i
      then r\<lparr>kr_key_hash := h, kr_updated_at := t\<rparr> else r) (db_keys db))) \<longleftrightarrow> hash_free_for (pg_view P db) i h"
proof -
  let ?g = "\<lambda>r. kr_key_hash (if kr_key_id r = i then r\<lparr>kr_key_hash := h, kr_updated_at := t\<rparr> else r)"
  note row = lookup_SomeD [OF r]
  have pk: "inj_on kr_key_id (set (db_keys db))" and uq: "inj_on kr_key_hash (set (db_keys db))"
    and dist: "distinct (db_keys db)" using inv by (auto simp: pg_inv_def distinct_map)
  have "distinct (map ?g (db_keys db)) \<longleftrightarrow> inj_on ?g (set (db_keys db))" by (simp add: distinct_map dist)
  also have "\<dots> \<longleftrightarrow> (\<forall>r' \<in> set (db_keys db). kr_key_hash r' = h \<longrightarrow> kr_key_id r' = i)"
  proof (intro iffI ballI impI)
    fix r' assume "inj_on ?g (set (db_keys db))" "r' \<in> set (db_keys db)" "kr_key_hash r' = h"
    then show "kr_key_id r' = i" using inj_onD [of ?g _ r r'] row by (cases "kr_key_id r' = i") auto
  next
    assume free: "\<forall>r' \<in> set (db_keys db). kr_key_hash r' = h \<longrightarrow> kr_key_id r' = i"
    show "inj_on ?g (set (db_keys db))"
    proof (rule inj_onI)
      fix x y assume "x \<in> set (db_keys db)" "y \<in> set (db_keys db)" "?g x = ?g y"
      then show "x = y" using free inj_onD [OF pk] inj_onD [OF uq] by (auto split: if_splits)
    qed
  qed
  finally show ?thesis by (simp add: pg_hash_free_for [OF inv] comp_def)
qed

text \<open>The creating methods.\<close>

lemma pg_CreateWorkspace_spec:
  assumes inv: "pg_inv P db" and up: "pg_env_up e" and fresh: "pg_env_fresh e db"
  shows "\<exists>db'. pg_CreateWorkspace P e db w =
      (Inr (stamp_workspace (pg_newID ''ws'' (pe_uuid e)) (pe_now e) w), db') \<and> pg_inv P db' \<and>
    pg_view P db' = (pg_view P db)\<lparr>v_workspaces := (v_workspaces (pg_view P db))(pg_newID ''ws'' (pe_uuid e) \<mapsto>
      norm_workspace (pl_time P) (pg_meta P) (stamp_workspace (pg_newID ''ws'' (pe_uuid e)) (pe_now e) w))\<rparr>"
proof -
  let ?i = "pg_newID ''ws'' (pe_uuid e)"
  define r where "r = \<lparr>wr_workspace_id = ?i, wr_name = w_Name w, wr_owner_principal_id = w_OwnerPrincipalID w,
    wr_created_at = pl_time P (pe_now e), wr_updated_at = pl_time P (pe_now e),
    wr_metadata = pl_jsonb P (marshalMetadata P (w_Metadata w))\<rparr>"
  have new: "?i \<notin> wr_workspace_id ` set (db_workspaces db)" using fresh by (simp add: pg_env_fresh_def)
  let ?db = "db\<lparr>db_workspaces := db_workspaces db @ [r]\<rparr>"
  have id: "wr_workspace_id r = ?i" by (simp add: r_def)
  have "pg_CreateWorkspace P e db w = (Inr (stamp_workspace ?i (pe_now e) w), ?db)"
    using up new by (simp add: pg_CreateWorkspace_def sql_insert_workspace_def Let_def go_defs r_def)
  moreover have "pg_inv P ?db" using inv new id by (auto simp: pg_inv_def)
  moreover have "ws_of_row P r = norm_workspace (pl_time P) (pg_meta P) (stamp_workspace ?i (pe_now e) w)"
    by (simp add: ws_of_row_def r_def norm_workspace_def go_defs pg_meta_def)
  then have "pg_view P ?db = (pg_view P db)\<lparr>v_workspaces := (v_workspaces (pg_view P db))(?i \<mapsto>
      norm_workspace (pl_time P) (pg_meta P) (stamp_workspace ?i (pe_now e) w))\<rparr>"
    using lookup_append [of wr_workspace_id r "db_workspaces db"] new id
    by (simp add: pg_view_def fun_eq_iff)
  ultimately show ?thesis by blast
qed

lemma pg_CreateAPI_spec:
  assumes inv: "pg_inv P db" and up: "pg_env_up e" and fresh: "pg_env_fresh e db"
    and ws: "a_WorkspaceID a \<in> dom (v_workspaces (pg_view P db))"
  shows "\<exists>db'. pg_CreateAPI P e db a = (Inr (stamp_api (pg_newID ''api'' (pe_uuid e)) (pe_now e) a), db') \<and>
    pg_inv P db' \<and>
    pg_view P db' = (pg_view P db)\<lparr>v_apis := (v_apis (pg_view P db))(pg_newID ''api'' (pe_uuid e) \<mapsto>
      norm_api (pl_time P) (pg_meta P) (stamp_api (pg_newID ''api'' (pe_uuid e)) (pe_now e) a))\<rparr>"
proof -
  let ?i = "pg_newID ''api'' (pe_uuid e)"
  define r where "r = \<lparr>ar_api_id = ?i, ar_workspace_id = a_WorkspaceID a, ar_name = a_Name a,
    ar_key_prefix = a_KeyPrefix a, ar_created_at = pl_time P (pe_now e),
    ar_updated_at = pl_time P (pe_now e), ar_metadata = pl_jsonb P (marshalMetadata P (a_Metadata a))\<rparr>"
  have new: "?i \<notin> ar_api_id ` set (db_apis db)" using fresh by (simp add: pg_env_fresh_def)
  have ws': "a_WorkspaceID a \<in> wr_workspace_id ` set (db_workspaces db)"
    using ws by (simp add: pg_view_def dom_map_option_comp)
  let ?db = "db\<lparr>db_apis := db_apis db @ [r]\<rparr>"
  have id: "ar_api_id r = ?i" "ar_workspace_id r = a_WorkspaceID a" by (simp_all add: r_def)
  have "pg_CreateAPI P e db a = (Inr (stamp_api ?i (pe_now e) a), ?db)"
    using up new ws' by (simp add: pg_CreateAPI_def sql_insert_api_def Let_def go_defs r_def)
  moreover have "pg_inv P ?db" using inv new id ws' by (auto simp: pg_inv_def)
  moreover have "api_of_row P r = norm_api (pl_time P) (pg_meta P) (stamp_api ?i (pe_now e) a)"
    by (simp add: api_of_row_def r_def norm_api_def go_defs pg_meta_def)
  then have "pg_view P ?db = (pg_view P db)\<lparr>v_apis := (v_apis (pg_view P db))(?i \<mapsto>
      norm_api (pl_time P) (pg_meta P) (stamp_api ?i (pe_now e) a))\<rparr>"
    using lookup_append [of ar_api_id r "db_apis db"] new id
    by (simp add: pg_view_def fun_eq_iff)
  ultimately show ?thesis by blast
qed

lemma pg_CreateKey_spec:
  assumes P: "pg_libs_ok P" and inv: "pg_inv P db" and up: "pg_env_up e" and fresh: "pg_env_fresh e db"
    and api: "k_APIID k \<in> dom (v_apis (pg_view P db))"
    and ws: "k_WorkspaceID k \<in> dom (v_workspaces (pg_view P db))"
    and hash: "\<not> hash_taken (pg_view P db) (k_KeyHash k)"
  shows "\<exists>db'. pg_CreateKey P e db k = (Inr (stamp_key (pg_newID ''key'' (pe_uuid e)) (pe_now e) k), db') \<and>
    pg_inv P db' \<and>
    pg_view P db' = (pg_view P db)\<lparr>v_keys := (v_keys (pg_view P db))(pg_newID ''key'' (pe_uuid e) \<mapsto>
      norm_key (pl_time P) (pg_meta P) (pg_refs P)
        (stamp_key (pg_newID ''key'' (pe_uuid e)) (pe_now e) k))\<rparr>"
proof -
  let ?i = "pg_newID ''key'' (pe_uuid e)"
  define r where "r = \<lparr>kr_key_id = ?i, kr_api_id = k_APIID k, kr_workspace_id = k_WorkspaceID k,
    kr_owner_principal_id = k_OwnerPrincipalID k, kr_name = k_Name k, kr_key_hash = k_KeyHash k,
    kr_permissions = k_Permissions k, kr_limit_refs = pl_jsonb P (pl_Marshal_refs P (k_LimitRefs k)),
    kr_expires_at = map_option (pl_time P) (k_ExpiresAt k), kr_remaining_uses = k_RemainingUses k,
    kr_enabled = k_Enabled k, kr_created_at = pl_time P (pe_now e), kr_updated_at = pl_time P (pe_now e),
    kr_last_verified_at = map_option (pl_time P) (k_LastVerifiedAt k),
    kr_metadata = pl_jsonb P (marshalMetadata P (k_Metadata k))\<rparr>"
  have new: "?i \<notin> kr_key_id ` set (db_keys db)" using fresh by (simp add: pg_env_fresh_def)
  have api': "k_APIID k \<in> ar_api_id ` set (db_apis db)"
    and ws': "k_WorkspaceID k \<in> wr_workspace_id ` set (db_workspaces db)"
    using api ws by (simp_all add: pg_view_def dom_map_option_comp)
  have free: "k_KeyHash k \<notin> kr_key_hash ` set (db_keys db)" using hash by (simp add: pg_hash_taken [OF inv])
  obtain refs where refs: "pl_Unmarshal_refs P (pl_jsonb P (pl_Marshal_refs P (k_LimitRefs k))) = Inr refs"
    using P by (auto simp: pg_libs_ok_def)
  let ?db = "db\<lparr>db_keys := db_keys db @ [r]\<rparr>"
  have id: "kr_key_id r = ?i" by (simp add: r_def)
  have "pg_CreateKey P e db k = (Inr (stamp_key ?i (pe_now e) k), ?db)"
    using up new api' ws' free
    by (simp add: pg_CreateKey_def sql_insert_key_def Let_def go_defs r_def nonNilStrings_def)
  moreover have "pg_inv P ?db" using inv new free api' refs by (auto simp: pg_inv_def r_def)
  moreover have "key_of_row P r = Inr (norm_key (pl_time P) (pg_meta P) (pg_refs P) (stamp_key ?i (pe_now e) k))"
    by (simp add: key_of_row_def r_def refs norm_key_def go_defs pg_meta_def pg_refs_def)
  then have "pg_view P ?db = (pg_view P db)\<lparr>v_keys := (v_keys (pg_view P db))(?i \<mapsto>
      norm_key (pl_time P) (pg_meta P) (pg_refs P) (stamp_key ?i (pe_now e) k))\<rparr>"
    using lookup_append [of kr_key_id r "db_keys db"] new id
    by (simp add: pg_view_def fun_eq_iff)
  ultimately show ?thesis by blast
qed

text \<open>Listing.\<close>

lemma scan_rows_ok:
  assumes "pg_env_up e" "\<And>r. r \<in> set rows \<Longrightarrow> \<exists>refs. pl_Unmarshal_refs P (kr_limit_refs r) = Inr refs"
  shows "scan_rows P e n rows out = Inr (out @ map (projr \<circ> key_of_row P) rows)"
  using assms(2)
proof (induction rows arbitrary: n out)
  case (Cons r rows)
  obtain refs where "pl_Unmarshal_refs P (kr_limit_refs r) = Inr refs" using Cons.prems [of r] by auto
  then obtain k where "key_of_row P r = Inr k" using key_of_row_Inr by blast
  with Cons assms(1) show ?case by (simp add: pg_env_up_def)
qed simp

lemma pg_ListKeys_page:
  assumes coll: "inj (pl_coll P)" and inv: "pg_inv P db" and up: "pg_env_up e"
    and ids: "distinct ids" "set ids = matching_ids (v_keys (pg_view P db)) opts"
  shows "pg_ListKeys P e db opts = (Inr (page_of (pl_coll P) (v_keys (pg_view P db)) opts ids), db)"
proof -
  let ?m = "\<lambda>r. kr_api_id r = o_APIID opts \<and>
    (o_OwnerPrincipalID opts = [] \<or> kr_owner_principal_id r = o_OwnerPrincipalID opts)"
  let ?t = "\<lambda>r. o_PageToken opts = [] \<or> pl_coll P (o_PageToken opts) < pl_coll P (kr_key_id r)"
  let ?key = "\<lambda>r. pl_coll P (kr_key_id r)"
  let ?ms = "filter ?m (db_keys db)"
  define n where "n = page_size (o_PageSize opts)"
  define R where "R = sort_key ?key (filter (\<lambda>r. kr_api_id r = o_APIID opts \<and>
    (o_OwnerPrincipalID opts = [] \<or> kr_owner_principal_id r = o_OwnerPrincipalID opts) \<and> ?t r) (db_keys db))"
  have R: "R = filter ?t (sort_key ?key ?ms)" by (simp add: R_def filter_sort conj_assoc)
  have inR: "r \<in> set (db_keys db)" if "r \<in> set R" for r using that by (auto simp: R_def)
  have dec: "\<exists>refs. pl_Unmarshal_refs P (kr_limit_refs r) = Inr refs" if "r \<in> set R" for r
    using pg_invD_refs(1) [OF inv inR [OF that]] .
  have match: "set (map kr_key_id ?ms) = matching_ids (v_keys (pg_view P db)) opts"
  proof -
    have m: "key_matches opts (projr (key_of_row P r)) \<longleftrightarrow> ?m r" if "r \<in> set (db_keys db)" for r
      using pg_invD_refs(1) [OF inv that] key_of_row_sel(2,3) by (metis key_matches_def)
    show ?thesis
    proof (rule set_eqI)
      fix i
      have "i \<in> matching_ids (v_keys (pg_view P db)) opts \<longleftrightarrow>
          (\<exists>r. r \<in> set (db_keys db) \<and> kr_key_id r = i \<and> key_matches opts (projr (key_of_row P r)))"
        unfolding matching_ids_def mem_Collect_eq
        using pg_view_key [OF inv] pg_row_key [OF inv] by (metis sum.sel(2))
      then show "i \<in> set (map kr_key_id ?ms) \<longleftrightarrow> i \<in> matching_ids (v_keys (pg_view P db)) opts"
        using m by auto
    qed
  qed
  have dist: "distinct (map kr_key_id ?ms)" using inv by (auto simp: pg_inv_def distinct_map inj_on_def)
  have rest: "after_token (pl_coll P) (o_PageToken opts) (sort_key (pl_coll P) (map kr_key_id ?ms)) =
      map kr_key_id R"
    by (simp add: after_token_def sort_key_map R filter_map comp_def)
  have out: "map (the \<circ> v_keys (pg_view P db)) (map kr_key_id (take n R)) = map (projr \<circ> key_of_row P) (take n R)"
    using inR pg_row_key [OF inv] by (auto dest: in_set_takeD)
  have page: "page_of (pl_coll P) (v_keys (pg_view P db)) opts ids =
      \<lparr>r_Keys = map (projr \<circ> key_of_row P) (take n R),
       r_NextPageToken = (if n < length R then kr_key_id (R ! (n - 1)) else [])\<rparr>"
    unfolding page_of_perm [OF ids(1) dist ids(2) [folded match] coll]
    by (simp add: page_of_def page_ids_def rest take_map out [unfolded map_map] flip: n_def)
  have scan: "scan_rows P e 0 (take (n + 1) R) [] = Inr (map (projr \<circ> key_of_row P) (take (n + 1) R))"
    using scan_rows_ok [OF up, of "take (n + 1) R" P 0 "[]"] dec by (auto dest: in_set_takeD)
  have tok: "k_KeyID (projr (key_of_row P (R ! (n - 1)))) = kr_key_id (R ! (n - 1))" if "n < length R"
    using that dec [of "R ! (n - 1)"] key_of_row_sel(1) by fastforce
  have nofault: "pe_rows_fault e = None" using up by (simp add: pg_env_up_def)
  show ?thesis
    unfolding pg_ListKeys_def Let_def page_size_def [symmetric] n_def [symmetric] page
    using up nofault scan tok by (simp add: R_def [symmetric] min_def take_map split: if_split)
qed

section \<open>The contract\<close>

text \<open>A database with libraries that behave: the driver over it keeps the store contract.\<close>

locale pg_database =
  fixes P :: "'j pg_libs"
  assumes libs: "pg_libs_ok P"

lemma pg_RevokeKey_spec:
  assumes "pg_inv P db" "pg_env_up e" "v_keys (pg_view P db) i = Some k"
  shows "\<exists>db'. pg_RevokeKey P e db i = (Inr (), db') \<and> pg_inv P db' \<and>
    pg_view P db' = (pg_view P db)\<lparr>v_keys := (v_keys (pg_view P db))(i \<mapsto>
      k\<lparr>k_Enabled := False, k_UpdatedAt := pl_time P (pe_now e)\<rparr>)\<rparr>"
proof -
  let ?f = "\<lambda>r. r\<lparr>kr_enabled := False, kr_updated_at := pl_time P (pe_now e)\<rparr>"
  let ?rows = "map (\<lambda>r. if kr_key_id r = i then ?f r else r) (db_keys db)"
  obtain r where r: "lookup kr_key_id (db_keys db) i = Some r" "key_of_row P r = Inr k"
    using pg_view_key [OF assms(1,3)] by metis
  have hit: "filter (\<lambda>r. kr_key_id r = i) (db_keys db) = [r]"
    using filter_pk [of kr_key_id "db_keys db" i] assms(1) r(1) by (simp add: pg_inv_def)
  have "pg_RevokeKey P e db i = (Inr (), db\<lparr>db_keys := ?rows\<rparr>)"
    using assms(2) hit by (simp add: pg_RevokeKey_def update_rows_def)
  moreover have "key_of_row P (?f r) = Inr (k\<lparr>k_Enabled := False, k_UpdatedAt := pl_time P (pe_now e)\<rparr>)"
    using r(2) by (auto simp: key_of_row_def split: sum.splits)
  ultimately show ?thesis
    using pg_update_key [OF assms(1) r(1), of ?f ?rows] pg_update_same_hash [OF assms(1), of ?f i] by simp
qed

lemma pg_Touch_spec:
  assumes "pg_inv P db" "pg_env_up e" "v_keys (pg_view P db) i = Some k"
  shows "\<exists>db'. pg_TouchLastVerified P e db i t = (Inr (), db') \<and> pg_inv P db' \<and>
    pg_view P db' = (pg_view P db)\<lparr>v_keys := (v_keys (pg_view P db))(i \<mapsto>
      k\<lparr>k_LastVerifiedAt := Some (pl_time P t)\<rparr>)\<rparr>"
proof -
  let ?f = "\<lambda>r. r\<lparr>kr_last_verified_at := Some (pl_time P t)\<rparr>"
  let ?rows = "map (\<lambda>r. if kr_key_id r = i then ?f r else r) (db_keys db)"
  obtain r where r: "lookup kr_key_id (db_keys db) i = Some r" "key_of_row P r = Inr k"
    using pg_view_key [OF assms(1,3)] by metis
  have hit: "filter (\<lambda>r. kr_key_id r = i) (db_keys db) = [r]"
    using filter_pk [of kr_key_id "db_keys db" i] assms(1) r(1) by (simp add: pg_inv_def)
  have "pg_TouchLastVerified P e db i t = (Inr (), db\<lparr>db_keys := ?rows\<rparr>)"
    using assms(2) hit by (simp add: pg_TouchLastVerified_def update_rows_def)
  moreover have "key_of_row P (?f r) = Inr (k\<lparr>k_LastVerifiedAt := Some (pl_time P t)\<rparr>)"
    using r(2) by (auto simp: key_of_row_def split: sum.splits)
  ultimately show ?thesis
    using pg_update_key [OF assms(1) r(1), of ?f ?rows] pg_update_same_hash [OF assms(1), of ?f i] by simp
qed

lemma pg_RotateKey_spec:
  assumes "pg_inv P db" "pg_env_up e" "v_keys (pg_view P db) i = Some k"
  shows "\<not> hash_free_for (pg_view P db) i h \<Longrightarrow> pg_RotateKey P e db i h = (Inl (Sentinel ErrConflict), db)"
    and "hash_free_for (pg_view P db) i h \<Longrightarrow> \<exists>db'. pg_RotateKey P e db i h =
        (Inr (k\<lparr>k_KeyHash := h, k_UpdatedAt := pl_time P (pe_now e)\<rparr>), db') \<and> pg_inv P db' \<and>
      pg_view P db' = (pg_view P db)\<lparr>v_keys := (v_keys (pg_view P db))(i \<mapsto>
        k\<lparr>k_KeyHash := h, k_UpdatedAt := pl_time P (pe_now e)\<rparr>)\<rparr>"
proof -
  let ?f = "\<lambda>r. r\<lparr>kr_key_hash := h, kr_updated_at := pl_time P (pe_now e)\<rparr>"
  let ?rows = "map (\<lambda>r. if kr_key_id r = i then ?f r else r) (db_keys db)"
  let ?k = "k\<lparr>k_KeyHash := h, k_UpdatedAt := pl_time P (pe_now e)\<rparr>"
  obtain r where r: "lookup kr_key_id (db_keys db) i = Some r" "key_of_row P r = Inr k"
    using pg_view_key [OF assms(1,3)] by metis
  note dist = pg_rotate_distinct [OF assms(1) r(1), where h = h and t = "pl_time P (pe_now e)"]
  have row: "key_of_row P (?f r) = Inr ?k" using r(2) by (auto simp: key_of_row_def split: sum.splits)
  show "pg_RotateKey P e db i h = (Inl (Sentinel ErrConflict), db)"
    if "\<not> hash_free_for (pg_view P db) i h"
    using assms(2) that dist by (simp add: pg_RotateKey_def sql_update_hash_def update_rows_def comp_def)
  show "\<exists>db'. pg_RotateKey P e db i h = (Inr ?k, db') \<and> pg_inv P db' \<and>
      pg_view P db' = (pg_view P db)\<lparr>v_keys := (v_keys (pg_view P db))(i \<mapsto> ?k)\<rparr>"
    if free: "hash_free_for (pg_view P db) i h"
  proof -
    have d: "distinct (map kr_key_hash ?rows)" using dist free by blast
    have "lookup kr_key_id ?rows i = Some (?f r)" using r(1) by (simp add: lookup_update)
    then have "pg_RotateKey P e db i h = (Inr ?k, db\<lparr>db_keys := ?rows\<rparr>)"
      using assms(2) d row by (simp add: pg_RotateKey_def sql_update_hash_def update_rows_rows queryKey_def
          query_row_lookup comp_def Let_def)
    then show ?thesis
      using pg_update_key [OF assms(1) r(1), of ?f ?rows, OF _ _ _ refl d] row by simp
  qed
qed

lemma pg_Decrement_miss:
  assumes "pg_inv P db" "pg_env_up e" "\<And>k. v_keys (pg_view P db) i = Some k \<Longrightarrow> \<not> 0 < sint (k_RemainingUses k)"
  shows "pg_DecrementRemainingUses P e db i =
    (case v_keys (pg_view P db) i of
       None \<Rightarrow> ((0, Some (Sentinel ErrNotFound)), db)
     | Some k \<Rightarrow> if sint (k_RemainingUses k) < 0 then ((-1, None), db)
                 else ((k_RemainingUses k, Some (Sentinel ErrDepleted)), db))"
proof -
  let ?p = "\<lambda>r. kr_key_id r = i \<and> 0 < sint (kr_remaining_uses r)"
  have uses: "k_RemainingUses (projr (key_of_row P r)) = kr_remaining_uses r" if "r \<in> set (db_keys db)" for r
    using pg_invD_refs(1) [OF assms(1) that] key_of_row_sel(5) by metis
  have none: "\<not> ?p r" if "r \<in> set (db_keys db)" for r
    using assms(3) pg_row_key [OF assms(1) that] uses [OF that] by auto
  then have "filter ?p (db_keys db) = []" unfolding filter_empty_conv by blast
  moreover have "map (\<lambda>r. if ?p r then g r else r) (db_keys db) = db_keys db" for g
    using none by (intro map_idI) auto
  ultimately have "pg_DecrementRemainingUses P e db i =
      (case query_row (\<lambda>r. kr_key_id r = i) (db_keys db) of
         Inl err \<Rightarrow> if err = ErrNoRows then ((0, Some (Sentinel ErrNotFound)), db)
                    else ((0, Some (Wrapf ''select remaining: %w'' None (err_of err))), db)
       | Inr r \<Rightarrow> if sint (kr_remaining_uses r) < 0 then ((-1, None), db)
                  else ((kr_remaining_uses r, Some (Sentinel ErrDepleted)), db))"
    using assms(2) by (simp add: pg_DecrementRemainingUses_def update_rows_def)
  then show ?thesis
    using uses lookup_SomeD [of kr_key_id "db_keys db" i]
    by (cases "lookup kr_key_id (db_keys db) i")
      (simp_all add: query_row_lookup pg_view_def del: lookup_eq_None)
qed

lemma pg_Decrement_spec:
  assumes "pg_inv P db" "pg_env_up e" "v_keys (pg_view P db) i = Some k" "0 < sint (k_RemainingUses k)"
  shows "\<exists>db'. pg_DecrementRemainingUses P e db i = ((k_RemainingUses k - 1, None), db') \<and> pg_inv P db' \<and>
    pg_view P db' = (pg_view P db)\<lparr>v_keys := (v_keys (pg_view P db))(i \<mapsto>
      k\<lparr>k_RemainingUses := k_RemainingUses k - 1, k_UpdatedAt := pl_time P (pe_now e)\<rparr>)\<rparr>"
proof -
  let ?f = "\<lambda>r. r\<lparr>kr_remaining_uses := kr_remaining_uses r - 1, kr_updated_at := pl_time P (pe_now e)\<rparr>"
  let ?rows = "map (\<lambda>r. if kr_key_id r = i then ?f r else r) (db_keys db)"
  let ?p = "\<lambda>r. kr_key_id r = i \<and> 0 < sint (kr_remaining_uses r)"
  obtain r where r: "lookup kr_key_id (db_keys db) i = Some r" "key_of_row P r = Inr k" "r \<in> set (db_keys db)"
    using pg_view_key [OF assms(1,3)] by metis
  have uses: "kr_remaining_uses r = k_RemainingUses k"
    using r(2) pg_invD_refs(1) [OF assms(1) r(3)] key_of_row_sel(5) by (metis sum.sel(2))
  have only: "kr_key_id r' = i \<Longrightarrow> r' = r" if "r' \<in> set (db_keys db)" for r'
    using assms(1) that r(1) lookup_eq_Some [of kr_key_id "db_keys db" i r'] by (simp add: pg_inv_def)
  have p: "?p r' \<longleftrightarrow> kr_key_id r' = i" if "r' \<in> set (db_keys db)" for r'
    using only [OF that] uses assms(4) by auto
  have "filter ?p (db_keys db) = filter (\<lambda>r. kr_key_id r = i) (db_keys db)"
    using p by (intro filter_cong) auto
  also have "\<dots> = [r]"
    using filter_pk [of kr_key_id "db_keys db" i] assms(1) r(1) by (simp add: pg_inv_def)
  finally have hit: "filter ?p (db_keys db) = [r]" .
  have rows: "map (\<lambda>r. if ?p r then ?f r else r) (db_keys db) = ?rows" using p by (intro map_cong) auto
  have "pg_DecrementRemainingUses P e db i = ((k_RemainingUses k - 1, None), db\<lparr>db_keys := ?rows\<rparr>)"
    using assms(2) hit rows uses by (simp add: pg_DecrementRemainingUses_def update_rows_def)
  moreover have "key_of_row P (?f r) =
      Inr (k\<lparr>k_RemainingUses := k_RemainingUses k - 1, k_UpdatedAt := pl_time P (pe_now e)\<rparr>)"
    using r(2) by (auto simp: key_of_row_def split: sum.splits)
  ultimately show ?thesis
    using pg_update_key [OF assms(1) r(1), of ?f ?rows] pg_update_same_hash [OF assms(1), of ?f i] by simp
qed

lemma pg_lookup_None: "v_keys (pg_view P db) i = None \<longleftrightarrow> lookup kr_key_id (db_keys db) i = None"
  by (simp add: pg_view_def)

lemma pg_update_none:
  assumes "v_keys (pg_view P db) i = None"
  shows "filter (\<lambda>r. kr_key_id r = i) (db_keys db) = []"
    and "map (\<lambda>r. if kr_key_id r = i then f r else r) (db_keys db) = db_keys db"
proof -
  have "kr_key_id r \<noteq> i" if "r \<in> set (db_keys db)" for r
    using assms that by (auto simp: pg_lookup_None)
  then show "filter (\<lambda>r. kr_key_id r = i) (db_keys db) = []"
    and "map (\<lambda>r. if kr_key_id r = i then f r else r) (db_keys db) = db_keys db"
    by (auto simp: filter_empty_conv intro: map_idI)
qed

lemma pg_query_hash:
  assumes "pg_inv P db" "pg_env_up e"
  shows "\<not> hash_taken (pg_view P db) h \<Longrightarrow> pg_GetKeyByHash P e db h = (Inl (Sentinel ErrNotFound), db)"
    and "v_keys (pg_view P db) i = Some k \<Longrightarrow> k_KeyHash k = h \<Longrightarrow> pg_GetKeyByHash P e db h = (Inr k, db)"
proof -
  show "pg_GetKeyByHash P e db h = (Inl (Sentinel ErrNotFound), db)" if "\<not> hash_taken (pg_view P db) h"
  proof -
    have "filter (\<lambda>r. kr_key_hash r = h) (db_keys db) = []"
      using that by (auto simp: pg_hash_taken [OF assms(1)] filter_empty_conv)
    then show ?thesis using assms(2) by (simp add: pg_GetKeyByHash_def queryKey_def query_row_def)
  qed
  show "pg_GetKeyByHash P e db h = (Inr k, db)"
    if k: "v_keys (pg_view P db) i = Some k" "k_KeyHash k = h"
  proof -
    obtain r where r: "key_of_row P r = Inr k" "r \<in> set (db_keys db)" using pg_view_key [OF assms(1) k(1)] by metis
    have h: "kr_key_hash r = h"
      using k(2) r pg_invD_refs(1) [OF assms(1) r(2)] key_of_row_sel(4) by (metis sum.sel(2))
    obtain r' rs where hits: "filter (\<lambda>r. kr_key_hash r = h) (db_keys db) = r' # rs"
      using r(2) h by (cases "filter (\<lambda>r. kr_key_hash r = h) (db_keys db)") (auto simp: filter_empty_conv)
    then have "r' \<in> set (filter (\<lambda>r. kr_key_hash r = h) (db_keys db))" by simp
    then have "r' = r" using assms(1) r(2) h by (auto simp: pg_inv_def distinct_map inj_on_def)
    then show ?thesis using assms(2) hits r(1) by (simp add: pg_GetKeyByHash_def queryKey_def query_row_def)
  qed
qed

lemma pg_query_id:
  assumes "pg_inv P db" "pg_env_up e"
  shows "queryKey P e n db (\<lambda>r. kr_key_id r = i) =
    (case v_keys (pg_view P db) i of None \<Rightarrow> Inl (Sentinel ErrNotFound) | Some k \<Rightarrow> Inr k, db)"
proof (cases "v_keys (pg_view P db) i")
  case None
  then have "lookup kr_key_id (db_keys db) i = None" by (simp only: pg_lookup_None)
  with assms(2) show ?thesis unfolding None by (simp add: queryKey_def query_row_lookup del: lookup_eq_None)
next
  case (Some k)
  then obtain r where "lookup kr_key_id (db_keys db) i = Some r" "key_of_row P r = Inr k"
    using pg_view_key [OF assms(1)] by metis
  with assms(2) Some show ?thesis by (simp add: queryKey_def query_row_lookup)
qed

lemma pg_dom_view [simp]:
  "dom (v_workspaces (pg_view P db)) = wr_workspace_id ` set (db_workspaces db)"
  "dom (v_apis (pg_view P db)) = ar_api_id ` set (db_apis db)"
  "dom (v_keys (pg_view P db)) = kr_key_id ` set (db_keys db)"
  by (simp_all add: pg_view_def dom_map_option_comp)

sublocale pg_database \<subseteq> pg: store_contract "pg_Store P" "pg_inv P" pg_env_up pg_env_fresh "\<lambda>e s. True"
  "pg_view P" pe_now "\<lambda>p e. pg_newID p (pe_uuid e)" "pl_time P" "pg_meta P" "pg_refs P" "pl_coll P"
proof (unfold_locales, goal_cases)
  case (1 s)
  then show ?case by (rule pg_view_ok)
next
  case 2
  show ?case using libs by (simp add: pg_libs_ok_def)
next
  case 3
  show ?case using libs by (simp add: pg_libs_ok_def)
next
  case 4
  show ?case using libs by (simp add: pg_libs_ok_def pg_refs_def)
next
  case 5
  show ?case by simp
next
  case (6 s e w)
  then show ?case using pg_CreateWorkspace_spec [of P s e w] by (simp add: pg_env_fresh_def)
next
  case (7 s e i)
  then show ?case
    by (cases "lookup wr_workspace_id (db_workspaces s) i")
      (simp_all add: pg_GetWorkspace_def query_row_lookup pg_view_def ws_of_row_def del: lookup_eq_None)
next
  case (8 s e a)
  then show ?case by (simp add: pg_CreateAPI_def sql_insert_api_def Let_def pg_env_fresh_def)
next
  case (9 s e a)
  then show ?case using pg_CreateAPI_spec [of P s e a] by (simp add: pg_env_fresh_def)
next
  case (10 s e i)
  then show ?case
    by (cases "lookup ar_api_id (db_apis s) i")
      (simp_all add: pg_GetAPI_def query_row_lookup pg_view_def api_of_row_def del: lookup_eq_None)
next
  case (11 s e k)
  then show ?case by (simp add: pg_CreateKey_def sql_insert_key_def Let_def pg_env_fresh_def pg_hash_taken)
next
  case (12 s e k)
  then show ?case by (simp add: pg_CreateKey_def sql_insert_key_def Let_def pg_env_fresh_def pg_hash_taken)
next
  case (13 s e k)
  then show ?case using pg_CreateKey_spec [OF libs, of s e k] by (simp add: pg_env_fresh_def)
next
  case (14 s e i)
  then show ?case by (simp add: pg_GetKeyByID_def pg_query_id)
next
  case (15 s e h)
  then show ?case by (simp add: pg_query_hash)
next
  case (16 s e i k h)
  then show ?case by (simp add: pg_query_hash)
next
  case (17 s e i)
  then show ?case by (simp add: pg_RevokeKey_def update_rows_def pg_update_none del: lookup_eq_None)
next
  case (18 s e i k)
  then show ?case using pg_RevokeKey_spec [of P s e i k] by auto
next
  case (19 s e i h)
  then show ?case
    by (simp add: pg_RotateKey_def sql_update_hash_def update_rows_def pg_update_none pg_query_id Let_def)
      (simp add: pg_inv_def)
next
  case (20 s e i k h)
  then show ?case using pg_RotateKey_spec(1) [of P s e i k h] by simp
next
  case (21 s e i k h)
  then show ?case using pg_RotateKey_spec(2) [of P s e i k h] by simp
next
  case (22 s e ids opts)
  then show ?case using pg_ListKeys_page [of P s e ids opts] libs by (simp add: pg_libs_ok_def)
next
  case (23 s e i t)
  then show ?case by (simp add: pg_TouchLastVerified_def update_rows_def pg_update_none)
next
  case (24 s e i k t)
  then show ?case using pg_Touch_spec [of P s e i k t] by simp
next
  case (25 s e i)
  then show ?case using pg_Decrement_miss [of P s e i] by simp
next
  case (26 s e i k)
  then show ?case using pg_Decrement_miss [of P s e i] by simp
next
  case (27 s e i k)
  then show ?case using pg_Decrement_miss [of P s e i] by simp
next
  case (28 s e i k)
  then show ?case using pg_Decrement_spec [of P s e i k] by simp
next
  case (29 s e k)
  then show ?case by (simp add: pg_CreateKey_def sql_insert_key_def Let_def pg_env_fresh_def pg_hash_taken)
qed

context pg_database
begin

lemma contract: "store_contract (pg_Store P) (pg_inv P) pg_env_up pg_env_fresh (\<lambda>e s. True) (pg_view P) pe_now
   (\<lambda>p e. pg_newID p (pe_uuid e)) (pl_time P) (pg_meta P) (pg_refs P) (pl_coll P)"
  by (rule pg.store_contract_axioms)

end

section \<open>A concrete instance of the libraries\<close>

text \<open>
  Microsecond timestamps, byte-wise collation, and JSON documents kept as the values they encode.
\<close>

datatype json_doc = JRefs "LimitRef list" | JObject "string \<rightharpoonup> string"

definition pg_micro :: "json_doc pg_libs" where
  "pg_micro = \<lparr>pl_time = (\<lambda>t. t div 1000 * 1000), pl_coll = (\<lambda>s. s), pl_jsonb = (\<lambda>j. j),
     pl_json_len = (\<lambda>j. 2), pl_json_empty_object = JObject Map.empty, pl_Marshal_refs = JRefs,
     pl_Unmarshal_refs = (\<lambda>j. case j of JRefs refs \<Rightarrow> Inr refs | JObject _ \<Rightarrow> Inl (Opaque ''not an array'')),
     pl_Marshal_map = JObject,
     pl_Unmarshal_map = (\<lambda>j. case j of JRefs _ \<Rightarrow> Map.empty | JObject m \<Rightarrow> m)\<rparr>"

lemma pg_micro_ok [simp]: "pg_libs_ok pg_micro"
  by (simp add: pg_libs_ok_def pg_micro_def)

interpretation micro: pg_database pg_micro
  by unfold_locales simp

section \<open>Opening the database\<close>

text \<open>
  The migration tool and the pool are not part of the sources: their calls are parameters, from
  the connection string (and, for \<open>Up\<close>, the database) to an error or nothing.
\<close>

datatype migrate_err = ErrNoChange | MigrateErr string

record 'd boot_libs =
  bl_ParseConfig :: "string \<Rightarrow> goerr option"
  bl_sql_Open :: "string \<Rightarrow> goerr option"
  bl_WithInstance :: "string \<Rightarrow> goerr option"
  bl_iofs_New :: "goerr option"
  bl_NewWithInstance :: "string \<Rightarrow> goerr option"
  bl_Up :: "'d \<Rightarrow> migrate_err option \<times> 'd"
  bl_NewWithConfig :: "string \<Rightarrow> goerr option"
  bl_Ping :: "'d \<Rightarrow> goerr option"

definition RunMigrations :: "'d boot_libs \<Rightarrow> string \<Rightarrow> 'd \<Rightarrow> goerr option \<times> 'd" where
  "RunMigrations B dsn d =
     (case bl_sql_Open B dsn of
        Some err \<Rightarrow> (Some (Wrapf ''open sql.DB: %w'' None err), d)
      | None \<Rightarrow>
     (case bl_WithInstance B dsn of
        Some err \<Rightarrow> (Some (Wrapf ''migrate driver: %w'' None err), d)
      | None \<Rightarrow>
     (case bl_iofs_New B of
        Some err \<Rightarrow> (Some (Wrapf ''migrate source: %w'' None err), d)
      | None \<Rightarrow>
     (case bl_NewWithInstance B dsn of
        Some err \<Rightarrow> (Some (Wrapf ''migrate new: %w'' None err), d)
      | None \<Rightarrow>
     (case bl_Up B d of
        (Some (MigrateErr msg), d') \<Rightarrow> (Some (Wrapf ''migrate up: %w'' None (Opaque msg)), d')
      | (_, d') \<Rightarrow> (None, d'))))))"

definition pg_New :: "'d boot_libs \<Rightarrow> string \<Rightarrow> 'd \<Rightarrow> goerr option \<times> 'd" where
  "pg_New B dsn d =
     (case bl_ParseConfig B dsn of
        Some err \<Rightarrow> (Some (Wrapf ''open pool: %w'' None err), d)
      | None \<Rightarrow>
     (case RunMigrations B dsn d of
        (Some err, d') \<Rightarrow> (Some (Wrapf ''run migrations: %w'' None err), d')
      | (None, d') \<Rightarrow>
     (case bl_NewWithConfig B dsn of
        Some err \<Rightarrow> (Some (Wrapf ''open pool: %w'' None err), d')
      | None \<Rightarrow>
     (case bl_Ping B d' of
        Some err \<Rightarrow> (Some (Wrapf ''ping: %w'' None err), d')
      | None \<Rightarrow> (None, d')))))"

section \<open>A concrete database\<close>

text \<open>A calm environment and a database that holds one revoked key.\<close>

definition pg_calm :: "string \<Rightarrow> pg_env" where
  "pg_calm u = \<lparr>pe_now = 1234567, pe_uuid = u, pe_fault = (\<lambda>_. None), pe_scan_fault = (\<lambda>_. None), pe_rows_fault = None\<rparr>"

lemma pg_calm_up [simp]: "pg_env_up (pg_calm u)"
  by (simp add: pg_env_up_def pg_calm_def)

definition any_key :: Key where
  "any_key = \<lparr>k_KeyID = [], k_APIID = ''api_1'', k_WorkspaceID = ''ws_1'', k_OwnerPrincipalID = ''u'', k_Name = [],
     k_KeyHash = [1, 2], k_Permissions = [], k_LimitRefs = [], k_ExpiresAt = None, k_RemainingUses = -1,
     k_Enabled = True, k_CreatedAt = 0, k_UpdatedAt = 0, k_LastVerifiedAt = None, k_Metadata = None\<rparr>"

definition revoked_db :: "json_doc pg_db" where
  "revoked_db = \<lparr>
     db_workspaces = [\<lparr>wr_workspace_id = ''ws_1'', wr_name = ''acme'', wr_owner_principal_id = ''o'',
       wr_created_at = 0, wr_updated_at = 0, wr_metadata = JObject Map.empty\<rparr>],
     db_apis = [\<lparr>ar_api_id = ''api_1'', ar_workspace_id = ''ws_1'', ar_name = ''prod'', ar_key_prefix = ''ck_'',
       ar_created_at = 0, ar_updated_at = 0, ar_metadata = JObject Map.empty\<rparr>],
     db_keys = [\<lparr>kr_key_id = ''key_1'', kr_api_id = ''api_1'', kr_workspace_id = ''ws_1'',
       kr_owner_principal_id = ''u'', kr_name = [], kr_key_hash = [1, 2], kr_permissions = [],
       kr_limit_refs = JRefs [], kr_expires_at = None, kr_remaining_uses = -1, kr_enabled = False,
       kr_created_at = 0, kr_updated_at = 0, kr_last_verified_at = None, kr_metadata = JObject Map.empty\<rparr>]\<rparr>"

definition revoked_key :: Key where
  "revoked_key = any_key\<lparr>k_KeyID := ''key_1'', k_Enabled := False\<rparr>"

lemma revoked_db_inv [simp]: "pg_inv pg_micro revoked_db"
  by (simp add: pg_inv_def revoked_db_def pg_micro_def)

lemma revoked_db_key [simp]: "v_keys (pg_view pg_micro revoked_db) ''key_1'' = Some revoked_key" "\<not> k_Enabled revoked_key"
  by (simp_all add: pg_view_def revoked_db_def lookup_def key_of_row_def pg_micro_def revoked_key_def any_key_def
      unmarshalMetadata_def)

lemma revoked_db_hash: "hash_taken (pg_view pg_micro revoked_db) (k_KeyHash any_key)"
  by (subst pg_hash_taken) (simp_all, simp add: revoked_db_def any_key_def)

section \<open>Properties\<close>

text \<open>
  C13: The Postgres driver keeps the laws that both drivers share, the store contract, over any
  database whose libraries behave (stable time resolution, collation that separates identifiers,
  limit references that decode), with times at the database's resolution and metadata in the form it
  reads back. It does not keep the two stricter laws of the interface's comments, and this is what it
  does instead. Revoking a key, a revoked one included, succeeds and sets the update time to the
  present, where the comments call revoking again a no-op. Creating a key under a missing API with
  a hash that is taken is \<open>ErrConflict\<close> and changes nothing, where the comments, and the in-memory driver,
  have \<open>ErrNotFound\<close> for the missing API.
\<close>

theorem pg_keeps_contract:
  assumes "pg_libs_ok P"
  shows "store_contract (pg_Store P) (pg_inv P) pg_env_up pg_env_fresh (\<lambda>e s. True) (pg_view P) pe_now
       (\<lambda>p e. pg_newID p (pe_uuid e)) (pl_time P) (pg_meta P) (pg_refs P) (pl_coll P) \<and>
    (\<forall>db e i k. pg_inv P db \<longrightarrow> pg_env_up e \<longrightarrow> v_keys (pg_view P db) i = Some k \<longrightarrow>
       (\<exists>db'. pg_RevokeKey P e db i = (Inr (), db') \<and> pg_inv P db' \<and>
          pg_view P db' = (pg_view P db)\<lparr>v_keys := (v_keys (pg_view P db))(i \<mapsto>
            k\<lparr>k_Enabled := False, k_UpdatedAt := pl_time P (pe_now e)\<rparr>)\<rparr>)) \<and>
    (\<forall>db e k. pg_inv P db \<longrightarrow> pg_env_up e \<longrightarrow> pg_env_fresh e db \<longrightarrow>
       k_APIID k \<notin> dom (v_apis (pg_view P db)) \<longrightarrow> hash_taken (pg_view P db) (k_KeyHash k) \<longrightarrow>
       pg_CreateKey P e db k = (Inl (Sentinel ErrConflict), db))"
proof (intro conjI allI impI, goal_cases)
  case 1
  show ?case by (rule pg_database.contract [OF pg_database.intro [OF assms]])
next
  case 2
  then show ?case by (rule pg_RevokeKey_spec)
next
  case 3
  then show ?case by (simp add: pg_CreateKey_def sql_insert_key_def Let_def pg_env_fresh_def pg_hash_taken)
qed

theorem pg_keeps_contract_witness:
  "store_contract (pg_Store pg_micro) (pg_inv pg_micro) pg_env_up pg_env_fresh (\<lambda>e s. True) (pg_view pg_micro)
     pe_now (\<lambda>p e. pg_newID p (pe_uuid e)) (pl_time pg_micro) (pg_meta pg_micro) (pg_refs pg_micro)
     (pl_coll pg_micro) \<and>
   (\<exists>db'. pg_RevokeKey pg_micro (pg_calm ''2'') revoked_db ''key_1'' = (Inr (), db') \<and>
     v_keys (pg_view pg_micro revoked_db) ''key_1'' = Some revoked_key \<and> k_UpdatedAt revoked_key = 0 \<and>
     v_keys (pg_view pg_micro db') ''key_1'' = Some (revoked_key\<lparr>k_UpdatedAt := 1234000\<rparr>)) \<and>
   pg_CreateKey pg_micro (pg_calm ''2'') revoked_db (any_key\<lparr>k_APIID := ''nowhere''\<rparr>) =
     (Inl (Sentinel ErrConflict), revoked_db)"
proof -
  note law = pg_keeps_contract [OF pg_micro_ok]
  have now: "pl_time pg_micro (pe_now (pg_calm ''2'')) = 1234000" by (simp add: pg_micro_def pg_calm_def)
  have off: "revoked_key\<lparr>k_Enabled := False, k_UpdatedAt := u\<rparr> = revoked_key\<lparr>k_UpdatedAt := u\<rparr>" for u
    by (simp add: revoked_key_def)
  from law [THEN conjunct2, THEN conjunct1, rule_format, OF revoked_db_inv pg_calm_up [of "''2''"] revoked_db_key(1)]
  obtain db' where "pg_RevokeKey pg_micro (pg_calm ''2'') revoked_db ''key_1'' = (Inr (), db')"
    "v_keys (pg_view pg_micro db') ''key_1'' = Some (revoked_key\<lparr>k_UpdatedAt := 1234000\<rparr>)"
    by (auto simp: now off)
  moreover have "pg_CreateKey pg_micro (pg_calm ''2'') revoked_db (any_key\<lparr>k_APIID := ''nowhere''\<rparr>) =
     (Inl (Sentinel ErrConflict), revoked_db)"
    by (rule law [THEN conjunct2, THEN conjunct2, rule_format, OF revoked_db_inv pg_calm_up])
      (use revoked_db_hash in \<open>simp_all add: pg_env_fresh_def revoked_db_def any_key_def pg_newID_def pg_calm_def\<close>)
  ultimately show ?thesis using law by (simp add: revoked_key_def any_key_def)
qed

text \<open>
  The constraint errors decide what \<open>CreateKey\<close> reports: with the backend up and a fresh
  identifier, a duplicate hash is \<open>ErrConflict\<close>, whether or not the API exists; otherwise a missing
  API, and also a missing workspace, is \<open>ErrNotFound\<close> naming the API; and no rejected insertion
  changes the database.
\<close>

theorem pg_CreateKey_errors:
  assumes "pg_env_up e" "pg_env_fresh e db"
  shows "pg_CreateKey P e db k =
    (if k_KeyHash k \<in> kr_key_hash ` set (db_keys db) then (Inl (Sentinel ErrConflict), db)
     else if k_APIID k \<notin> ar_api_id ` set (db_apis db) \<or>
             k_WorkspaceID k \<notin> wr_workspace_id ` set (db_workspaces db)
     then (Inl (Wrapf ''api %q: %w'' (Some (k_APIID k)) (Sentinel ErrNotFound)), db)
     else (Inr (stamp_key (pg_newID ''key'' (pe_uuid e)) (pe_now e) k), snd (pg_CreateKey P e db k)))"
  using assms by (simp add: pg_CreateKey_def sql_insert_key_def Let_def pg_env_fresh_def go_defs)

theorem pg_CreateKey_errors_witness:
  "pg_CreateKey pg_micro (pg_calm ''1'') pg_empty any_key =
     (Inl (Wrapf ''api %q: %w'' (Some ''api_1'') (Sentinel ErrNotFound)), pg_empty)"
proof -
  have "pg_env_fresh (pg_calm ''1'') (pg_empty :: json_doc pg_db)" by (simp add: pg_env_fresh_def pg_empty_def)
  from pg_CreateKey_errors [OF pg_calm_up this, of pg_micro any_key] show ?thesis
    by (simp add: pg_empty_def any_key_def)
qed

text \<open>
  Opening a database is repeatable. If the migration tool, run on a database it has just brought
  up to date, reports that there is nothing to change and leaves it alone, then opening the same
  database again, after it could be opened and as long as it answers, succeeds and changes nothing.
\<close>

theorem pg_New_idempotent:
  assumes up: "\<And>d d'. bl_Up B d = (None, d') \<Longrightarrow> bl_Up B d' = (Some ErrNoChange, d')"
      "\<And>d d'. bl_Up B d = (Some ErrNoChange, d') \<Longrightarrow> d' = d"
    and opened: "pg_New B dsn d = (None, d')"
  shows "pg_New B dsn d' = (None, d')"
proof -
  have open_ok: "bl_ParseConfig B dsn = None" "bl_sql_Open B dsn = None" "bl_WithInstance B dsn = None"
      "bl_iofs_New B = None" "bl_NewWithInstance B dsn = None" "bl_NewWithConfig B dsn = None" "bl_Ping B d' = None"
    and "bl_Up B d = (None, d') \<or> bl_Up B d = (Some ErrNoChange, d')"
    using opened by (auto simp: pg_New_def RunMigrations_def split: option.splits prod.splits migrate_err.splits)
  then have "bl_Up B d' = (Some ErrNoChange, d')" using up by metis
  with open_ok show ?thesis by (simp add: pg_New_def RunMigrations_def)
qed

definition boot_demo :: "nat boot_libs" where
  "boot_demo = \<lparr>bl_ParseConfig = (\<lambda>_. None), bl_sql_Open = (\<lambda>_. None), bl_WithInstance = (\<lambda>_. None),
     bl_iofs_New = None, bl_NewWithInstance = (\<lambda>_. None),
     bl_Up = (\<lambda>v. if v = 1 then (Some ErrNoChange, 1) else (None, 1)),
     bl_NewWithConfig = (\<lambda>_. None), bl_Ping = (\<lambda>_. None)\<rparr>"

theorem pg_New_idempotent_witness:
  "pg_New boot_demo ''postgres://db'' 0 = (None, 1) \<and> pg_New boot_demo ''postgres://db'' 1 = (None, 1)"
proof -
  have first: "pg_New boot_demo ''postgres://db'' 0 = (None, 1)"
    by (simp add: pg_New_def RunMigrations_def boot_demo_def)
  have "pg_New boot_demo ''postgres://db'' 1 = (None, 1)"
    by (rule pg_New_idempotent [OF _ _ first]) (auto simp: boot_demo_def split: if_splits)
  with first show ?thesis by simp
qed

end
