(* ===== verification/KC_Service.thy ===== *)
theory KC_Service
  imports KC_Server KC_Memory KC_Postgres
begin

text \<open>
  What the service promises, for any store that keeps the contract.

  The abstract side is stated on views: \<open>verify_rel\<close> is the verification decision with its effect,
  \<open>view_step\<close> the ways an RPC may change the stored records. The refinement lemmas, proved in the
  locale of the store contract, say that every handler run behaves like its abstract step; the
  service properties are then inductions over abstract steps. Both drivers interpret the locale, so
  each lemma proved here holds of the service over the in-memory and over the Postgres driver.
\<close>

section \<open>Helpers\<close>

lemma dom_permission_set: "dom (permission_set ps m) = dom m \<union> set ps"
  by (induction ps arbitrary: m) auto

lemma all_in_set_iff: "all_in_set m ps \<longleftrightarrow> set ps \<subseteq> dom m"
  by (induction ps) (auto split: option.splits)

lemma hasAllPermissions_iff [simp]: "hasAllPermissions have required \<longleftrightarrow> set required \<subseteq> set have"
  by (simp add: hasAllPermissions_def all_in_set_iff dom_permission_set)

section \<open>The verification decision\<close>

text \<open>The checks made on a key that was found, in the order of the handler.\<close>

definition verify_gate :: "gotime \<Rightarrow> string list \<Rightarrow> Key \<Rightarrow> VerifyResult option" where
  "verify_gate now required k =
     (if \<not> k_Enabled k then Some VERIFY_RESULT_REVOKED
      else if \<exists>t. k_ExpiresAt k = Some t \<and> t \<le> now then Some VERIFY_RESULT_EXPIRED
      else if k_RemainingUses k = 0 then Some VERIFY_RESULT_DEPLETED
      else if \<not> set required \<subseteq> set (k_Permissions k) then Some VERIFY_RESULT_FORBIDDEN
      else None)"

lemma expired_iff:
  "(case k_ExpiresAt k of None \<Rightarrow> False | Some t \<Rightarrow> \<not> now < t) \<longleftrightarrow> (\<exists>t. k_ExpiresAt k = Some t \<and> t \<le> now)"
  by (auto simp: not_less split: option.split)

lemma gate_None_RemainingUses: "verify_gate now ps k = None \<Longrightarrow> k_RemainingUses k \<noteq> 0"
  by (auto simp: verify_gate_def split: if_splits)

lemma gate_None_Enabled: "verify_gate now ps k = None \<Longrightarrow> k_Enabled k"
  by (auto simp: verify_gate_def split: if_splits)

text \<open>What a granted verification leaves of the key: one credit less if it is limited, and touched.\<close>

definition used_key :: "gotime \<Rightarrow> gotime \<Rightarrow> Key \<Rightarrow> Key" where
  "used_key dec_at touched_at k =
     (if 0 < sint (k_RemainingUses k)
      then k\<lparr>k_RemainingUses := k_RemainingUses k - 1, k_UpdatedAt := dec_at,
             k_LastVerifiedAt := Some touched_at\<rparr>
      else k\<lparr>k_LastVerifiedAt := Some touched_at\<rparr>)"

definition granted :: "Key \<Rightarrow> PB_LimitDecision option list \<Rightarrow> PB_VerifyKeyResponse" where
  "granted k ds = (verify_response k)\<lparr>VerifyKeyResponse_LimitDecisions := ds,
     VerifyKeyResponse_Valid := True, VerifyKeyResponse_Result := VERIFY_RESULT_VALID\<rparr>"

text \<open>Whether this verification consults the rate limiter.\<close>

definition limiter_consulted :: "PB_VerifyKeyRequest option \<Rightarrow> Key \<Rightarrow> bool" where
  "limiter_consulted req k \<longleftrightarrow> \<not> VerifyKeyRequest_GetSkipRatelimit req \<and> k_LimitRefs k \<noteq> []"

text \<open>
  The abstract verification: from a view and a limiter state to a response, a view and a limiter
  state. Its parameters are the hash function, the optional limiter, and the times of the two
  clock readings, the decrement and the touch.
\<close>

inductive verify_rel ::
  "(bytes \<Rightarrow> bytes) \<Rightarrow> 'r RateLimiter option \<Rightarrow> gotime \<Rightarrow> gotime \<Rightarrow> gotime \<Rightarrow> PB_VerifyKeyRequest option \<Rightarrow>
   view \<Rightarrow> 'r \<Rightarrow> grpc_status + PB_VerifyKeyResponse \<Rightarrow> view \<Rightarrow> 'r \<Rightarrow> bool"
  for sha rl now dec_at touched_at req v r
where
  unknown: "VerifyKeyRequest_GetPlaintext req = [] \<or>
      \<not> hash_taken v (keymat_Hash sha (VerifyKeyRequest_GetPlaintext req)) \<Longrightarrow>
    verify_rel sha rl now dec_at touched_at req v r (Inr notFound) v r"
| gated: "VerifyKeyRequest_GetPlaintext req \<noteq> [] \<Longrightarrow> v_keys v i = Some k \<Longrightarrow>
    k_KeyHash k = keymat_Hash sha (VerifyKeyRequest_GetPlaintext req) \<Longrightarrow>
    verify_gate now (VerifyKeyRequest_GetRequiredPermissions req) k = Some res \<Longrightarrow>
    verify_rel sha rl now dec_at touched_at req v r (Inr (rejected (verify_response k) res)) v r"
| no_limiter: "VerifyKeyRequest_GetPlaintext req \<noteq> [] \<Longrightarrow> v_keys v i = Some k \<Longrightarrow>
    k_KeyHash k = keymat_Hash sha (VerifyKeyRequest_GetPlaintext req) \<Longrightarrow>
    verify_gate now (VerifyKeyRequest_GetRequiredPermissions req) k = None \<Longrightarrow>
    limiter_consulted req k \<Longrightarrow> rl = None \<Longrightarrow>
    verify_rel sha rl now dec_at touched_at req v r (Inl (Status FailedPrecondition
      (Msg ''rate-limiter client not configured but key has limit_refs''))) v r"
| limiter_error: "VerifyKeyRequest_GetPlaintext req \<noteq> [] \<Longrightarrow> v_keys v i = Some k \<Longrightarrow>
    k_KeyHash k = keymat_Hash sha (VerifyKeyRequest_GetPlaintext req) \<Longrightarrow>
    verify_gate now (VerifyKeyRequest_GetRequiredPermissions req) k = None \<Longrightarrow>
    limiter_consulted req k \<Longrightarrow> rl = Some consume \<Longrightarrow>
    consume r (k_LimitRefs k) (limitCost (VerifyKeyRequest_GetCost req))
      (VerifyKeyRequest_GetRequestId req) = (Inl err, r') \<Longrightarrow>
    verify_rel sha rl now dec_at touched_at req v r
      (Inl (Status Unavailable (MsgErrorf ''rate-limiter consume: %v'' err))) v r'"
| limited: "VerifyKeyRequest_GetPlaintext req \<noteq> [] \<Longrightarrow> v_keys v i = Some k \<Longrightarrow>
    k_KeyHash k = keymat_Hash sha (VerifyKeyRequest_GetPlaintext req) \<Longrightarrow>
    verify_gate now (VerifyKeyRequest_GetRequiredPermissions req) k = None \<Longrightarrow>
    limiter_consulted req k \<Longrightarrow> rl = Some consume \<Longrightarrow>
    consume r (k_LimitRefs k) (limitCost (VerifyKeyRequest_GetCost req))
      (VerifyKeyRequest_GetRequestId req) = (Inr ds, r') \<Longrightarrow>
    d \<in> set ds \<Longrightarrow> \<not> ld_Allowed d \<Longrightarrow>
    verify_rel sha rl now dec_at touched_at req v r
      (Inr (rejected ((verify_response k)\<lparr>VerifyKeyResponse_LimitDecisions := limitDecisionsToProto ds\<rparr>)
         VERIFY_RESULT_RATE_LIMITED)) v r'"
| allowed: "VerifyKeyRequest_GetPlaintext req \<noteq> [] \<Longrightarrow> v_keys v i = Some k \<Longrightarrow>
    k_KeyHash k = keymat_Hash sha (VerifyKeyRequest_GetPlaintext req) \<Longrightarrow>
    verify_gate now (VerifyKeyRequest_GetRequiredPermissions req) k = None \<Longrightarrow>
    limiter_consulted req k \<Longrightarrow> rl = Some consume \<Longrightarrow>
    consume r (k_LimitRefs k) (limitCost (VerifyKeyRequest_GetCost req))
      (VerifyKeyRequest_GetRequestId req) = (Inr ds, r') \<Longrightarrow>
    (\<And>d. d \<in> set ds \<Longrightarrow> ld_Allowed d) \<Longrightarrow>
    verify_rel sha rl now dec_at touched_at req v r (Inr (granted k (limitDecisionsToProto ds)))
      (v\<lparr>v_keys := (v_keys v)(i \<mapsto> used_key dec_at touched_at k)\<rparr>) r'"
| unlimited: "VerifyKeyRequest_GetPlaintext req \<noteq> [] \<Longrightarrow> v_keys v i = Some k \<Longrightarrow>
    k_KeyHash k = keymat_Hash sha (VerifyKeyRequest_GetPlaintext req) \<Longrightarrow>
    verify_gate now (VerifyKeyRequest_GetRequiredPermissions req) k = None \<Longrightarrow>
    \<not> limiter_consulted req k \<Longrightarrow>
    verify_rel sha rl now dec_at touched_at req v r (Inr (granted k []))
      (v\<lparr>v_keys := (v_keys v)(i \<mapsto> used_key dec_at touched_at k)\<rparr>) r"

inductive_cases verify_relE [elim]:
  "verify_rel sha rl now dec_at touched_at req v r res v' r'"

section \<open>The handler implements the abstract verification\<close>

context store_contract
begin

lemma commit_grants:
  assumes "inv s" "\<And>n. env_up (c_env c n)" "srv_store srv = ops"
    and k: "v_keys (view_of s) i = Some k" "k_RemainingUses k \<noteq> 0"
  obtains s' where "verify_commit srv c s k resp =
      (Inr (resp\<lparr>VerifyKeyResponse_Valid := True, VerifyKeyResponse_Result := VERIFY_RESULT_VALID\<rparr>), s')"
    and "inv s'"
    and "view_of s' = (view_of s)\<lparr>v_keys := (v_keys (view_of s))(i \<mapsto>
          used_key (nt (now_of (c_env c 1))) (nt (c_now' c)) k)\<rparr>"
proof -
  have kid: "k_KeyID k = i" using view_of_ok [OF assms(1)] k(1) by (rule view_okD_key)
  show thesis
  proof (cases "0 < sint (k_RemainingUses k)")
    case True
    obtain s1 where s1: "DecrementRemainingUses ops (c_env c 1) s i = ((k_RemainingUses k - 1, None), s1)"
      "inv s1" "view_of s1 = (view_of s)\<lparr>v_keys := (v_keys (view_of s))(i \<mapsto>
         k\<lparr>k_RemainingUses := k_RemainingUses k - 1, k_UpdatedAt := nt (now_of (c_env c 1))\<rparr>)\<rparr>"
      using decrement [OF assms(1) assms(2) [of 1] k(1) True] by blast
    obtain s2 where s2: "TouchLastVerified ops (c_env c 2) s1 i (c_now' c) = (Inr (), s2)" "inv s2"
      "view_of s2 = (view_of s1)\<lparr>v_keys := (v_keys (view_of s1))(i \<mapsto>
         k\<lparr>k_RemainingUses := k_RemainingUses k - 1, k_UpdatedAt := nt (now_of (c_env c 1)),
           k_LastVerifiedAt := Some (nt (c_now' c))\<rparr>)\<rparr>"
      using touch [OF s1(2) assms(2), of i] s1(3) by fastforce
    show thesis
      by (rule that [of s2]) (use True s1 s2 in \<open>simp_all add: verify_commit_def kid assms(3) used_key_def\<close>)
  next
    case False
    obtain s2 where s2: "TouchLastVerified ops (c_env c 2) s i (c_now' c) = (Inr (), s2)" "inv s2"
      "view_of s2 = (view_of s)\<lparr>v_keys := (v_keys (view_of s))(i \<mapsto>
         k\<lparr>k_LastVerifiedAt := Some (nt (c_now' c))\<rparr>)\<rparr>"
      using touch [OF assms(1,2) k(1)] by blast
    show thesis
      by (rule that [of s2]) (use False s2 in \<open>simp_all add: verify_commit_def kid assms(3) used_key_def\<close>)
  qed
qed

lemma verify_hit:
  assumes "inv s" "\<And>n. env_up (c_env c n)" "srv_store srv = ops"
    and "VerifyKeyRequest_GetPlaintext req \<noteq> []" "v_keys (view_of s) i = Some k"
    and "k_KeyHash k = keymat_Hash (lib_sha L) (VerifyKeyRequest_GetPlaintext req)"
  shows "Server_VerifyKey L srv c s r req =
    (case verify_gate (c_now c) (VerifyKeyRequest_GetRequiredPermissions req) k of
       Some res \<Rightarrow> (Inr (rejected (verify_response k) res), s, r)
     | None \<Rightarrow>
         if limiter_consulted req k then
           (case srv_rl srv of
              None \<Rightarrow> (Inl (Status FailedPrecondition
                (Msg ''rate-limiter client not configured but key has limit_refs'')), s, r)
            | Some consume \<Rightarrow>
                (case consume r (k_LimitRefs k) (limitCost (VerifyKeyRequest_GetCost req))
                        (VerifyKeyRequest_GetRequestId req) of
                   (Inl err, r') \<Rightarrow> (Inl (Status Unavailable (MsgErrorf ''rate-limiter consume: %v'' err)), s, r')
                 | (Inr ds, r') \<Rightarrow>
                     let resp = (verify_response k)\<lparr>VerifyKeyResponse_LimitDecisions := limitDecisionsToProto ds\<rparr>
                     in if \<exists>d \<in> set ds. \<not> ld_Allowed d
                        then (Inr (rejected resp VERIFY_RESULT_RATE_LIMITED), s, r')
                        else (case verify_commit srv c s k resp of (res, s2) \<Rightarrow> (res, s2, r'))))
         else (case verify_commit srv c s k (verify_response k) of (res, s2) \<Rightarrow> (res, s2, r)))"
proof -
  note hit = get_key_by_hash_hit [OF assms(1) assms(2) [of 0] assms(5,6)]
  have "keymat_Validate (VerifyKeyRequest_GetPlaintext req) [] = None"
    using assms(4) by (simp add: keymat_Validate_def)
  moreover define expired where "expired \<longleftrightarrow> (\<exists>t. k_ExpiresAt k = Some t \<and> t \<le> c_now c)"
  ultimately show ?thesis
    unfolding Server_VerifyKey_def Let_def assms(3) hit verify_gate_def
    by (simp add: expired_iff limiter_consulted_def flip: expired_def)
qed

lemma verify_miss:
  assumes "inv s" "\<And>n. env_up (c_env c n)" "srv_store srv = ops"
    and "VerifyKeyRequest_GetPlaintext req = [] \<or>
      \<not> hash_taken (view_of s) (keymat_Hash (lib_sha L) (VerifyKeyRequest_GetPlaintext req))"
  shows "Server_VerifyKey L srv c s r req = (Inr notFound, s, r)"
proof (cases "VerifyKeyRequest_GetPlaintext req = []")
  case True
  then show ?thesis by (simp add: Server_VerifyKey_def keymat_Validate_def)
next
  case False
  with assms(4) have "\<not> hash_taken (view_of s) (keymat_Hash (lib_sha L) (VerifyKeyRequest_GetPlaintext req))"
    by simp
  note miss = get_key_by_hash_miss [OF assms(1) assms(2) [of 0] this]
  show ?thesis using False by (simp add: Server_VerifyKey_def assms(3) miss keymat_Validate_def)
qed

lemma verify_refines:
  assumes inv: "inv s" and up: "\<And>n. env_up (c_env c n)" and srv: "srv_store srv = ops"
  obtains res s' r' where "Server_VerifyKey L srv c s r req = (res, s', r')" "inv s'"
    and "verify_rel (lib_sha L) (srv_rl srv) (c_now c) (nt (now_of (c_env c 1))) (nt (c_now' c)) req
      (view_of s) r res (view_of s') r'"
proof (cases "VerifyKeyRequest_GetPlaintext req = [] \<or>
    \<not> hash_taken (view_of s) (keymat_Hash (lib_sha L) (VerifyKeyRequest_GetPlaintext req))")
  case True
  show thesis
    by (rule that [OF verify_miss [OF inv up srv True] inv]) (rule verify_rel.unknown [OF True])
next
  case False
  then obtain i k where pt: "VerifyKeyRequest_GetPlaintext req \<noteq> []"
    and k: "v_keys (view_of s) i = Some k"
    and h: "k_KeyHash k = keymat_Hash (lib_sha L) (VerifyKeyRequest_GetPlaintext req)"
    by (auto simp: hash_taken_def)
  note run = verify_hit [OF inv up srv pt k h]
  note found = pt k h
  let ?gate = "verify_gate (c_now c) (VerifyKeyRequest_GetRequiredPermissions req) k"
  show thesis
  proof (cases ?gate)
    case (Some res)
    then show thesis using run verify_rel.gated [OF found Some] inv by (intro that) simp_all
  next
    case gate: None
    note uses = gate_None_RemainingUses [OF gate]
    show thesis
    proof (cases "limiter_consulted req k")
      case False
      obtain s' where "verify_commit srv c s k (verify_response k) =
          (Inr ((verify_response k)\<lparr>VerifyKeyResponse_Valid := True,
             VerifyKeyResponse_Result := VERIFY_RESULT_VALID\<rparr>), s')" "inv s'"
        and v': "view_of s' = (view_of s)\<lparr>v_keys := (v_keys (view_of s))(i \<mapsto>
          used_key (nt (now_of (c_env c 1))) (nt (c_now' c)) k)\<rparr>"
        by (rule commit_grants [OF inv up srv k uses])
      then have "Server_VerifyKey L srv c s r req = (Inr (granted k []), s', r)" "inv s'"
        using run gate False by (simp_all add: granted_def verify_response_def)
      then show thesis by (rule that) (unfold v', rule verify_rel.unlimited [OF found gate False])
    next
      case lim: True
      show thesis
      proof (cases "srv_rl srv")
        case None
        then show thesis using run gate lim inv verify_rel.no_limiter [OF found gate lim None]
          by (intro that) simp_all
      next
        case (Some consume)
        obtain a r' where con: "consume r (k_LimitRefs k) (limitCost (VerifyKeyRequest_GetCost req))
            (VerifyKeyRequest_GetRequestId req) = (a, r')" by (rule prod.exhaust)
        show thesis
        proof (cases a)
          case (Inl err)
          then show thesis
            using run gate lim inv Some con
              verify_rel.limiter_error [OF found gate lim Some con [unfolded Inl]]
            by (intro that) simp_all
        next
          case (Inr ds)
          note con = con [unfolded Inr]
          let ?resp = "(verify_response k)\<lparr>VerifyKeyResponse_LimitDecisions := limitDecisionsToProto ds\<rparr>"
          show thesis
          proof (cases "\<exists>d \<in> set ds. \<not> ld_Allowed d")
            case True
            then obtain d where d: "d \<in> set ds" "\<not> ld_Allowed d" by blast
            from True show thesis
              using run gate lim inv Some con verify_rel.limited [OF found gate lim Some con d]
              by (intro that) simp_all
          next
            case ok: False
            obtain s' where "verify_commit srv c s k ?resp = (Inr (?resp\<lparr>VerifyKeyResponse_Valid := True,
                 VerifyKeyResponse_Result := VERIFY_RESULT_VALID\<rparr>), s')" "inv s'"
              and v': "view_of s' = (view_of s)\<lparr>v_keys := (v_keys (view_of s))(i \<mapsto>
                used_key (nt (now_of (c_env c 1))) (nt (c_now' c)) k)\<rparr>"
              by (rule commit_grants [OF inv up srv k uses])
            then have "Server_VerifyKey L srv c s r req = (Inr (granted k (limitDecisionsToProto ds)), s', r')"
                "inv s'"
              using run gate lim Some con ok by (simp_all add: granted_def)
            then show thesis
              by (rule that) (unfold v', rule verify_rel.allowed [OF found gate lim Some con], use ok in blast)
          qed
        qed
      qed
    qed
  qed
qed

end

text \<open>The key \<open>CreateKey\<close> hands to the store: a credit that is not positive becomes unlimited.\<close>

definition issued_key :: "'ts libs \<Rightarrow> 'ts PB_CreateKeyRequest option \<Rightarrow> API \<Rightarrow> bytes \<Rightarrow> Key" where
  "issued_key L req api hash = key_of_request L req api hash
     (if sint (CreateKeyRequest_GetRemainingUses req) \<le> 0 then -1
      else CreateKeyRequest_GetRemainingUses req)"

section \<open>The ways an RPC may change the stored records\<close>

text \<open>The steps of the RPCs other than \<open>VerifyKey\<close>: they leave every credit alone.\<close>

inductive admin_step :: "view \<Rightarrow> view \<Rightarrow> bool" where
  stay: "admin_step v v"
| add_workspace: "i \<notin> dom (v_workspaces v) \<Longrightarrow> w_WorkspaceID w = i \<Longrightarrow>
    admin_step v (v\<lparr>v_workspaces := (v_workspaces v)(i \<mapsto> w)\<rparr>)"
| add_api: "i \<notin> dom (v_apis v) \<Longrightarrow> a_APIID a = i \<Longrightarrow> a_WorkspaceID a \<in> dom (v_workspaces v) \<Longrightarrow>
    admin_step v (v\<lparr>v_apis := (v_apis v)(i \<mapsto> a)\<rparr>)"
| add_key: "i \<notin> dom (v_keys v) \<Longrightarrow> k_KeyID k = i \<Longrightarrow> v_apis v (k_APIID k) = Some a \<Longrightarrow>
    k_WorkspaceID k = a_WorkspaceID a \<Longrightarrow> \<not> hash_taken v (k_KeyHash k) \<Longrightarrow>
    k_RemainingUses k = -1 \<or> 0 < sint (k_RemainingUses k) \<Longrightarrow> k_Enabled k \<Longrightarrow>
    admin_step v (v\<lparr>v_keys := (v_keys v)(i \<mapsto> k)\<rparr>)"
| revoke: "v_keys v i = Some k \<Longrightarrow>
    admin_step v (v\<lparr>v_keys := (v_keys v)(i \<mapsto> k\<lparr>k_Enabled := False, k_UpdatedAt := u\<rparr>)\<rparr>)"
| rotate: "v_keys v i = Some k \<Longrightarrow>
    hash_free_for v i h \<Longrightarrow>
    admin_step v (v\<lparr>v_keys := (v_keys v)(i \<mapsto> k\<lparr>k_KeyHash := h, k_UpdatedAt := u\<rparr>)\<rparr>)"

text \<open>A step of any RPC.\<close>

inductive view_step :: "view \<Rightarrow> view \<Rightarrow> bool" where
  admin: "admin_step v v' \<Longrightarrow> view_step v v'"
| verify: "v_keys v i = Some k \<Longrightarrow> k_Enabled k \<Longrightarrow> k_RemainingUses k \<noteq> 0 \<Longrightarrow>
    view_step v (v\<lparr>v_keys := (v_keys v)(i \<mapsto> used_key dec_at touched_at k)\<rparr>)"

lemma view_stay [simp, intro]: "view_step v v"
  by (rule view_step.admin [OF admin_step.stay])

lemma admin_step_uses:
  assumes "admin_step v v'" "v_keys v i = Some k"
  shows "\<exists>k'. v_keys v' i = Some k' \<and> k_RemainingUses k' = k_RemainingUses k"
  using assms by (induction rule: admin_step.induct) auto

text \<open>An abstract verification changes the view by one such step.\<close>

lemma verify_rel_step:
  assumes "verify_rel sha rl now dec_at touched_at req v r res v' r'"
  shows "view_step v v'"
  using assms
proof cases
  case (allowed i k consume ds)
  then show ?thesis by (auto intro: view_step.verify gate_None_Enabled dest: gate_None_RemainingUses)
next
  case (unlimited i k)
  then show ?thesis by (auto intro: view_step.verify gate_None_Enabled dest: gate_None_RemainingUses)
qed simp_all

section \<open>The service as a state machine\<close>

text \<open>
  One step is one RPC, run to its end, in an environment that satisfies \<open>ok\<close> in the current state.
\<close>

inductive rpc_step ::
  "'ts libs \<Rightarrow> ('e, 's, 'r) Server \<Rightarrow> ('e call \<Rightarrow> 's \<Rightarrow> bool) \<Rightarrow> 's \<times> 'r \<Rightarrow> 's \<times> 'r \<Rightarrow> bool"
  for L srv ok
where
  CreateWorkspace: "ok c s \<Longrightarrow> Server_CreateWorkspace L srv c s req1 = (res1, s') \<Longrightarrow> rpc_step L srv ok (s, r) (s', r)"
| GetWorkspace: "ok c s \<Longrightarrow> Server_GetWorkspace L srv c s req2 = (res2, s') \<Longrightarrow> rpc_step L srv ok (s, r) (s', r)"
| CreateApi: "ok c s \<Longrightarrow> Server_CreateApi L srv c s req3 = (res3, s') \<Longrightarrow> rpc_step L srv ok (s, r) (s', r)"
| GetApi: "ok c s \<Longrightarrow> Server_GetApi L srv c s req4 = (res4, s') \<Longrightarrow> rpc_step L srv ok (s, r) (s', r)"
| CreateKey: "ok c s \<Longrightarrow> Server_CreateKey L srv c s req5 = (res5, s') \<Longrightarrow> rpc_step L srv ok (s, r) (s', r)"
| GetKey: "ok c s \<Longrightarrow> Server_GetKey L srv c s req6 = (res6, s') \<Longrightarrow> rpc_step L srv ok (s, r) (s', r)"
| RevokeKey: "ok c s \<Longrightarrow> Server_RevokeKey srv c s req7 = (res7, s') \<Longrightarrow> rpc_step L srv ok (s, r) (s', r)"
| RotateKey: "ok c s \<Longrightarrow> Server_RotateKey L srv c s req8 = (res8, s') \<Longrightarrow> rpc_step L srv ok (s, r) (s', r)"
| ListKeys: "ok c s \<Longrightarrow> Server_ListKeys L srv c s req9 = (res9, s') \<Longrightarrow> rpc_step L srv ok (s, r) (s', r)"
| VerifyKey: "ok c s \<Longrightarrow> Server_VerifyKey L srv c s r req10 = (res10, s', r') \<Longrightarrow>
    rpc_step L srv ok (s, r) (s', r')"

inductive_cases rpc_stepE [elim]: "rpc_step L srv ok (s, r) (s', r')"

inductive rpc_reachable ::
  "'ts libs \<Rightarrow> ('e, 's, 'r) Server \<Rightarrow> ('e call \<Rightarrow> 's \<Rightarrow> bool) \<Rightarrow> 's \<times> 'r \<Rightarrow> 's \<times> 'r \<Rightarrow> bool"
  for L srv ok init
where
  start: "rpc_reachable L srv ok init init"
| step: "rpc_reachable L srv ok init st \<Longrightarrow> rpc_step L srv ok st st' \<Longrightarrow> rpc_reachable L srv ok init st'"

text \<open>The environment of an RPC: the backend answers, fresh identifiers are fresh, ranges are complete.\<close>

definition call_ok ::
  "('e \<Rightarrow> bool) \<Rightarrow> ('e \<Rightarrow> 's \<Rightarrow> bool) \<Rightarrow> ('e \<Rightarrow> 's \<Rightarrow> bool) \<Rightarrow> 'e call \<Rightarrow> 's \<Rightarrow> bool" where
  "call_ok up fresh range_ok c s \<longleftrightarrow>
     (\<forall>n. up (c_env c n) \<and> fresh (c_env c n) s \<and> range_ok (c_env c n) s)"

context store_contract
begin

abbreviation all_ok :: "'e call \<Rightarrow> 's \<Rightarrow> bool" where
  "all_ok \<equiv> call_ok env_up env_fresh env_range"

lemma call_okD:
  assumes "all_ok c s"
  shows "env_up (c_env c n)" "env_fresh (c_env c n) s" "env_range (c_env c n) s"
  using assms by (simp_all add: call_ok_def)

lemma create_workspace_step:
  assumes "inv s" "all_ok c s" "srv_store srv = ops"
    and run: "Server_CreateWorkspace L srv c s req = (res, s')"
  shows "inv s' \<and> admin_step (view_of s) (view_of s')"
proof (cases "CreateWorkspaceRequest_GetName req = [] \<or> CreateWorkspaceRequest_GetOwnerPrincipalId req = []")
  case True
  with run have "s' = s" by (auto simp: Server_CreateWorkspace_def split: if_splits)
  with assms(1) show ?thesis by (simp add: admin_step.stay)
next
  case False
  let ?w = "\<lparr>w_WorkspaceID = [], w_Name = CreateWorkspaceRequest_GetName req,
      w_OwnerPrincipalID = CreateWorkspaceRequest_GetOwnerPrincipalId req,
      w_CreatedAt = zero_time, w_UpdatedAt = zero_time,
      w_Metadata = CreateWorkspaceRequest_GetMetadata req\<rparr>"
  obtain s1 where s1: "CreateWorkspace ops (c_env c 0) s ?w =
      (Inr (stamp_workspace (id_of ''ws'' (c_env c 0)) (now_of (c_env c 0)) ?w), s1)" "inv s1"
    and new: "id_of ''ws'' (c_env c 0) \<notin> dom (v_workspaces (view_of s))"
    and v1: "view_of s1 = (view_of s)\<lparr>v_workspaces := (v_workspaces (view_of s))(id_of ''ws'' (c_env c 0) \<mapsto>
      norm_workspace nt nm (stamp_workspace (id_of ''ws'' (c_env c 0)) (now_of (c_env c 0)) ?w))\<rparr>"
    using create_workspace [OF assms(1) call_okD(1,2) [OF assms(2), of 0], of ?w] by blast
  have "s' = s1" using run False s1(1) by (simp add: Server_CreateWorkspace_def assms(3))
  moreover have "admin_step (view_of s) (view_of s1)"
    unfolding v1 by (rule admin_step.add_workspace [OF new]) (simp add: go_defs)
  ultimately show ?thesis using s1(2) by simp
qed

lemma create_api_step:
  assumes "inv s" "all_ok c s" "srv_store srv = ops"
    and run: "Server_CreateApi L srv c s req = (res, s')"
  shows "inv s' \<and> admin_step (view_of s) (view_of s')"
proof (cases "CreateApiRequest_GetWorkspaceId req = [] \<or> CreateApiRequest_GetName req = []")
  case True
  with run have "s' = s" by (auto simp: Server_CreateApi_def split: if_splits)
  with assms(1) show ?thesis by (simp add: admin_step.stay)
next
  case False
  let ?a = "\<lparr>a_APIID = [], a_WorkspaceID = CreateApiRequest_GetWorkspaceId req,
      a_Name = CreateApiRequest_GetName req, a_KeyPrefix = CreateApiRequest_GetKeyPrefix req,
      a_CreatedAt = zero_time, a_UpdatedAt = zero_time, a_Metadata = CreateApiRequest_GetMetadata req\<rparr>"
  note env = call_okD(1,2) [OF assms(2), of 0]
  show ?thesis
  proof (cases "a_WorkspaceID ?a \<in> dom (v_workspaces (view_of s))")
    case ws: True
    obtain s1 where s1: "CreateAPI ops (c_env c 0) s ?a =
        (Inr (stamp_api (id_of ''api'' (c_env c 0)) (now_of (c_env c 0)) ?a), s1)" "inv s1"
      and new: "id_of ''api'' (c_env c 0) \<notin> dom (v_apis (view_of s))"
      and v1: "view_of s1 = (view_of s)\<lparr>v_apis := (v_apis (view_of s))(id_of ''api'' (c_env c 0) \<mapsto>
        norm_api nt nm (stamp_api (id_of ''api'' (c_env c 0)) (now_of (c_env c 0)) ?a))\<rparr>"
      using create_api [OF assms(1) env ws] by blast
    have "s' = s1" using run False s1(1) by (simp add: Server_CreateApi_def assms(3))
    moreover have "admin_step (view_of s) (view_of s1)"
      unfolding v1 by (rule admin_step.add_api [OF new]) (use ws in \<open>simp_all add: go_defs\<close>)
    ultimately show ?thesis using s1(2) by simp
  next
    case no: False
    have "s' = s"
      using run False create_api_no_workspace [OF assms(1) env no]
      by (simp add: Server_CreateApi_def assms(3))
    with assms(1) show ?thesis by (simp add: admin_step.stay)
  qed
qed

lemma get_steps:
  assumes "inv s" "all_ok c s" "srv_store srv = ops"
  shows "Server_GetWorkspace L srv c s req2 = (res2, s') \<Longrightarrow> s' = s"
    and "Server_GetApi L srv c s req4 = (res4, s') \<Longrightarrow> s' = s"
    and "Server_GetKey L srv c s req6 = (res6, s') \<Longrightarrow> s' = s"
  by (auto simp: Server_GetWorkspace_def Server_GetApi_def Server_GetKey_def assms(3)
      get_workspace [OF assms(1) call_okD(1) [OF assms(2)]] get_api [OF assms(1) call_okD(1) [OF assms(2)]]
      get_key_by_id [OF assms(1) call_okD(1) [OF assms(2)]] split: if_splits option.splits)

lemma list_keys_step:
  assumes "inv s" "all_ok c s" "srv_store srv = ops"
    and run: "Server_ListKeys L srv c s req = (res, s')"
  shows "s' = s"
proof -
  let ?opts = "\<lparr>o_APIID = ListKeysRequest_GetApiId req,
      o_OwnerPrincipalID = ListKeysRequest_GetOwnerPrincipalId req,
      o_PageSize = ListKeysRequest_GetPageSize req, o_PageToken = ListKeysRequest_GetPageToken req\<rparr>"
  have "matching_ids (v_keys (view_of s)) ?opts \<subseteq> dom (v_keys (view_of s))"
    by (auto simp: matching_ids_def)
  then have "finite (matching_ids (v_keys (view_of s)) ?opts)"
    using view_okD_finite [OF view_of_ok [OF assms(1)]] by (rule finite_subset)
  then obtain ids where "distinct ids" "set ids = matching_ids (v_keys (view_of s)) ?opts"
    by (metis finite_distinct_list)
  from list_keys [OF assms(1) call_okD(1,3) [OF assms(2), of 0] this]
  show ?thesis using run by (auto simp: Server_ListKeys_def assms(3) split: if_splits)
qed

lemma create_key_unguarded:
  assumes "inv s" "all_ok c s" "srv_store srv = ops"
    and req: "CreateKeyRequest_GetApiId req \<noteq> []" "CreateKeyRequest_GetOwnerPrincipalId req \<noteq> []"
    and api: "v_apis (view_of s) (CreateKeyRequest_GetApiId req) = Some api"
    and mat: "keymat_New (lib_sha L) (a_KeyPrefix api) (c_rand c) = (Inr (plaintext, hash), rest)"
  shows "hash_taken (view_of s) hash \<Longrightarrow> Server_CreateKey L srv c s req =
      (Inl (Status AlreadyExists (MsgErr (Sentinel ErrConflict))), s)"
    and "\<not> hash_taken (view_of s) hash \<Longrightarrow> \<exists>s'. Server_CreateKey L srv c s req =
        (Inr \<lparr>CreateKeyResponse_Key = Some (keyToProto L (stamp_key (id_of ''key'' (c_env c 1))
               (now_of (c_env c 1)) (issued_key L req api hash))),
             CreateKeyResponse_Plaintext = plaintext\<rparr>, s') \<and>
      inv s' \<and> id_of ''key'' (c_env c 1) \<notin> dom (v_keys (view_of s)) \<and>
      view_of s' = (view_of s)\<lparr>v_keys := (v_keys (view_of s))(id_of ''key'' (c_env c 1) \<mapsto>
        norm_key nt nm nr (stamp_key (id_of ''key'' (c_env c 1)) (now_of (c_env c 1))
          (issued_key L req api hash)))\<rparr>"
proof -
  note vok = view_of_ok [OF assms(1)]
  note a = view_okD_api [OF vok api]
  note got = get_api [OF assms(1) call_okD(1) [OF assms(2), of 0], of "CreateKeyRequest_GetApiId req"]
  note env = call_okD(1,2) [OF assms(2), of 1]
  let ?k = "issued_key L req api hash"
  have k: "k_APIID ?k \<in> dom (v_apis (view_of s))" "k_WorkspaceID ?k \<in> dom (v_workspaces (view_of s))"
      "k_KeyHash ?k = hash"
    using a api by (auto simp: issued_key_def key_of_request_def)
  have run: "Server_CreateKey L srv c s req =
      (case CreateKey ops (c_env c 1) s ?k of
         (Inl err, s2) \<Rightarrow> (Inl (mapStoreErr err), s2)
       | (Inr created, s2) \<Rightarrow>
           (Inr \<lparr>CreateKeyResponse_Key = Some (keyToProto L created),
                 CreateKeyResponse_Plaintext = plaintext\<rparr>, s2))"
    using req got api mat by (simp add: Server_CreateKey_def assms(3) issued_key_def Let_def)
  show "Server_CreateKey L srv c s req = (Inl (Status AlreadyExists (MsgErr (Sentinel ErrConflict))), s)"
    if "hash_taken (view_of s) hash"
    using create_key_conflict [OF assms(1) env k(1)] that k(3) by (simp add: run mapStoreErr_def)
  show "\<exists>s'. Server_CreateKey L srv c s req =
        (Inr \<lparr>CreateKeyResponse_Key = Some (keyToProto L (stamp_key (id_of ''key'' (c_env c 1))
               (now_of (c_env c 1)) ?k)), CreateKeyResponse_Plaintext = plaintext\<rparr>, s') \<and>
      inv s' \<and> id_of ''key'' (c_env c 1) \<notin> dom (v_keys (view_of s)) \<and>
      view_of s' = (view_of s)\<lparr>v_keys := (v_keys (view_of s))(id_of ''key'' (c_env c 1) \<mapsto>
        norm_key nt nm nr (stamp_key (id_of ''key'' (c_env c 1)) (now_of (c_env c 1)) ?k))\<rparr>"
    if "\<not> hash_taken (view_of s) hash"
    using create_key [OF assms(1) env k(1,2)] that k(3) by (auto simp: run)
qed

lemma create_key_step:
  assumes "inv s" "all_ok c s" "srv_store srv = ops"
    and run: "Server_CreateKey L srv c s req = (res, s')"
  shows "inv s' \<and> admin_step (view_of s) (view_of s')"
proof (cases "CreateKeyRequest_GetApiId req = [] \<or> CreateKeyRequest_GetOwnerPrincipalId req = [] \<or>
    v_apis (view_of s) (CreateKeyRequest_GetApiId req) = None")
  case True
  then have "s' = s"
    using run get_api [OF assms(1) call_okD(1) [OF assms(2), of 0], of "CreateKeyRequest_GetApiId req"]
    by (auto simp: Server_CreateKey_def assms(3) split: if_splits)
  with assms(1) show ?thesis by (simp add: admin_step.stay)
next
  case False
  then obtain api where req: "CreateKeyRequest_GetApiId req \<noteq> []" "CreateKeyRequest_GetOwnerPrincipalId req \<noteq> []"
    and api: "v_apis (view_of s) (CreateKeyRequest_GetApiId req) = Some api" by auto
  note got = get_api [OF assms(1) call_okD(1) [OF assms(2), of 0], of "CreateKeyRequest_GetApiId req"]
  show ?thesis
  proof (cases "keymat_New (lib_sha L) (a_KeyPrefix api) (c_rand c)")
    case (Pair mat rest)
    show ?thesis
    proof (cases mat)
      case (Inl err)
      then have "s' = s" using run req got api Pair by (auto simp: Server_CreateKey_def assms(3))
      with assms(1) show ?thesis by (simp add: admin_step.stay)
    next
      case (Inr ph)
      then obtain p h where mat: "keymat_New (lib_sha L) (a_KeyPrefix api) (c_rand c) = (Inr (p, h), rest)"
        using Pair by (cases ph) auto
      note u = create_key_unguarded [OF assms(1-3) req api mat]
      show ?thesis
      proof (cases "hash_taken (view_of s) h")
        case True
        then have "s' = s" using run u(1) by simp
        with assms(1) show ?thesis by (simp add: admin_step.stay)
      next
        case fresh: False
        let ?k = "norm_key nt nm nr (stamp_key (id_of ''key'' (c_env c 1)) (now_of (c_env c 1)) (issued_key L req api h))"
        from u(2) [OF fresh] run have "inv s'" and new: "id_of ''key'' (c_env c 1) \<notin> dom (v_keys (view_of s))"
          and v': "view_of s' = (view_of s)\<lparr>v_keys := (v_keys (view_of s))(id_of ''key'' (c_env c 1) \<mapsto> ?k)\<rparr>"
          by auto
        have "admin_step (view_of s) (view_of s')"
          unfolding v' using api view_okD_api(1) [OF view_of_ok [OF assms(1)] api] fresh
          by (intro admin_step.add_key [OF new])
            (auto simp: go_defs issued_key_def key_of_request_def)
        with \<open>inv s'\<close> show ?thesis by simp
      qed
    qed
  qed
qed

lemma revoke_run:
  assumes "inv s" "all_ok c s" "srv_store srv = ops" "RevokeKeyRequest_GetKeyId req = i" "i \<noteq> []"
  shows "v_keys (view_of s) i = None \<Longrightarrow> Server_RevokeKey srv c s req =
      (Inl (Status NotFound (MsgErr (Sentinel ErrNotFound))), s)"
    and "v_keys (view_of s) i = Some k \<Longrightarrow> \<exists>s' u. Server_RevokeKey srv c s req = (Inr PB_RevokeKeyResponse, s') \<and>
      inv s' \<and> view_of s' = (view_of s)\<lparr>v_keys := (v_keys (view_of s))(i \<mapsto>
        k\<lparr>k_Enabled := False, k_UpdatedAt := u\<rparr>)\<rparr>"
  using revoke_key_unknown [OF assms(1) call_okD(1) [OF assms(2), of 0], of i]
    revoke_key [OF assms(1) call_okD(1) [OF assms(2), of 0], of i k] assms(4,5)
  by (fastforce simp: Server_RevokeKey_def assms(3) mapStoreErr_def)+

lemma revoke_step:
  assumes "inv s" "all_ok c s" "srv_store srv = ops"
    and run: "Server_RevokeKey srv c s req = (res, s')"
  shows "inv s' \<and> admin_step (view_of s) (view_of s')"
proof (cases "RevokeKeyRequest_GetKeyId req = []")
  case True
  then show ?thesis using run assms(1) by (simp add: Server_RevokeKey_def admin_step.stay)
next
  case False
  note r = revoke_run [OF assms(1-3) refl False]
  show ?thesis
  proof (cases "v_keys (view_of s) (RevokeKeyRequest_GetKeyId req)")
    case None
    then show ?thesis using run r(1) assms(1) by (simp add: admin_step.stay)
  next
    case (Some k)
    from r(2) [OF this] run obtain u where "inv s'"
      "view_of s' = (view_of s)\<lparr>v_keys := (v_keys (view_of s))(RevokeKeyRequest_GetKeyId req \<mapsto>
        k\<lparr>k_Enabled := False, k_UpdatedAt := u\<rparr>)\<rparr>" by auto
    then show ?thesis by (auto intro: admin_step.revoke Some)
  qed
qed

lemma rotate_run:
  assumes "inv s" "all_ok c s" "srv_store srv = ops" "RotateKeyRequest_GetKeyId req = i" "i \<noteq> []"
    and k: "v_keys (view_of s) i = Some k" and api: "v_apis (view_of s) (k_APIID k) = Some api"
    and mat: "keymat_New (lib_sha L) (a_KeyPrefix api) (c_rand c) = (Inr (plaintext, h), rest)"
  shows "\<not> hash_free_for (view_of s) i h \<Longrightarrow>
      Server_RotateKey L srv c s req = (Inl (Status AlreadyExists (MsgErr (Sentinel ErrConflict))), s)"
    and "hash_free_for (view_of s) i h \<Longrightarrow>
      \<exists>s'. Server_RotateKey L srv c s req =
        (Inr \<lparr>RotateKeyResponse_Key = Some (keyToProto L (k\<lparr>k_KeyHash := h,
                k_UpdatedAt := nt (now_of (c_env c 2))\<rparr>)),
              RotateKeyResponse_Plaintext = plaintext\<rparr>, s') \<and>
        inv s' \<and> view_of s' = (view_of s)\<lparr>v_keys := (v_keys (view_of s))(i \<mapsto>
          k\<lparr>k_KeyHash := h, k_UpdatedAt := nt (now_of (c_env c 2))\<rparr>)\<rparr>"
proof -
  note gk = get_key_by_id [OF assms(1) call_okD(1) [OF assms(2), of 0], of i]
  note ga = get_api [OF assms(1) call_okD(1) [OF assms(2), of 1], of "k_APIID k"]
  note up = call_okD(1) [OF assms(2), of 2]
  have run: "Server_RotateKey L srv c s req = (case RotateKey ops (c_env c 2) s i h of
       (Inl err, s3) \<Rightarrow> (Inl (mapStoreErr err), s3)
     | (Inr rotated, s3) \<Rightarrow> (Inr \<lparr>RotateKeyResponse_Key = Some (keyToProto L rotated),
          RotateKeyResponse_Plaintext = plaintext\<rparr>, s3))"
    using assms(4,5) gk ga k api mat by (simp add: Server_RotateKey_def assms(3))
  show "Server_RotateKey L srv c s req = (Inl (Status AlreadyExists (MsgErr (Sentinel ErrConflict))), s)"
    if "\<not> hash_free_for (view_of s) i h"
    using rotate_key_conflict [OF assms(1) up k that] by (simp add: run mapStoreErr_def)
  show "\<exists>s'. Server_RotateKey L srv c s req =
        (Inr \<lparr>RotateKeyResponse_Key = Some (keyToProto L (k\<lparr>k_KeyHash := h,
                k_UpdatedAt := nt (now_of (c_env c 2))\<rparr>)),
              RotateKeyResponse_Plaintext = plaintext\<rparr>, s') \<and>
        inv s' \<and> view_of s' = (view_of s)\<lparr>v_keys := (v_keys (view_of s))(i \<mapsto>
          k\<lparr>k_KeyHash := h, k_UpdatedAt := nt (now_of (c_env c 2))\<rparr>)\<rparr>"
    if "hash_free_for (view_of s) i h"
    using rotate_key [OF assms(1) up k that] by (auto simp: run)
qed

lemma rotate_early:
  assumes "inv s" "all_ok c s" "srv_store srv = ops"
    and "RotateKeyRequest_GetKeyId req = [] \<or> v_keys (view_of s) (RotateKeyRequest_GetKeyId req) = None \<or>
      (\<exists>k api err rest. v_keys (view_of s) (RotateKeyRequest_GetKeyId req) = Some k \<and>
        v_apis (view_of s) (k_APIID k) = Some api \<and>
        keymat_New (lib_sha L) (a_KeyPrefix api) (c_rand c) = (Inl err, rest))"
    and run: "Server_RotateKey L srv c s req = (res, s')"
  shows "s' = s"
  using assms(4) run get_key_by_id [OF assms(1) call_okD(1) [OF assms(2), of 0], of "RotateKeyRequest_GetKeyId req"]
    get_api [OF assms(1) call_okD(1) [OF assms(2), of 1]]
  by (auto simp: Server_RotateKey_def assms(3) split: if_splits)

lemma rotate_step:
  assumes "inv s" "all_ok c s" "srv_store srv = ops"
    and run: "Server_RotateKey L srv c s req = (res, s')"
  shows "inv s' \<and> admin_step (view_of s) (view_of s')"
proof (cases "RotateKeyRequest_GetKeyId req = [] \<or> v_keys (view_of s) (RotateKeyRequest_GetKeyId req) = None")
  case True
  then have "s' = s" using rotate_early [OF assms(1-3) _ run] by blast
  then show ?thesis using assms(1) by (simp add: admin_step.stay)
next
  case False
  then obtain k where i: "RotateKeyRequest_GetKeyId req \<noteq> []"
    and k: "v_keys (view_of s) (RotateKeyRequest_GetKeyId req) = Some k" by auto
  obtain api where api: "v_apis (view_of s) (k_APIID k) = Some api"
    using view_okD_key(3) [OF view_of_ok [OF assms(1)] k] by auto
  obtain mat rest where mat: "keymat_New (lib_sha L) (a_KeyPrefix api) (c_rand c) = (mat, rest)"
    by (rule prod.exhaust)
  show ?thesis
  proof (cases mat)
    case (Inl err)
    then have "s' = s" using rotate_early [OF assms(1-3) _ run] k api mat by blast
    then show ?thesis using assms(1) by (simp add: admin_step.stay)
  next
    case (Inr ph)
    then obtain p h where ph: "keymat_New (lib_sha L) (a_KeyPrefix api) (c_rand c) = (Inr (p, h), rest)"
      using mat by (cases ph) auto
    note r = rotate_run [OF assms(1-3) refl i k api ph]
    show ?thesis
    proof (cases "hash_free_for (view_of s) (RotateKeyRequest_GetKeyId req) h")
      case False
      then have "s' = s" using r(1) run by auto
      then show ?thesis using assms(1) by (simp add: admin_step.stay)
    next
      case own: True
      let ?k = "k\<lparr>k_KeyHash := h, k_UpdatedAt := nt (now_of (c_env c 2))\<rparr>"
      from r(2) [OF own] run have "inv s'" and
        v': "view_of s' = (view_of s)\<lparr>v_keys := (v_keys (view_of s))(RotateKeyRequest_GetKeyId req \<mapsto> ?k)\<rparr>"
        by auto
      have "admin_step (view_of s) (view_of s')"
        unfolding v' by (rule admin_step.rotate [OF k own])
      with \<open>inv s'\<close> show ?thesis by simp
    qed
  qed
qed

lemma verify_step:
  assumes "inv s" "all_ok c s" "srv_store srv = ops"
    and run: "Server_VerifyKey L srv c s r req = (res, s', r')"
  shows "inv s' \<and> view_step (view_of s) (view_of s')"
proof -
  obtain res1 s1 r1 where "Server_VerifyKey L srv c s r req = (res1, s1, r1)" "inv s1"
    and "verify_rel (lib_sha L) (srv_rl srv) (c_now c) (nt (now_of (c_env c 1))) (nt (c_now' c)) req
      (view_of s) r res1 (view_of s1) r1"
    by (rule verify_refines [OF assms(1) call_okD(1) [OF assms(2)] assms(3)])
  with run show ?thesis by (auto dest: verify_rel_step)
qed

text \<open>Every RPC keeps the driver's invariant and changes its view by one abstract step.\<close>

lemma rpc_refines:
  assumes "rpc_step L srv all_ok (s, r) (s', r')" "srv_store srv = ops" "inv s"
  shows "inv s' \<and> view_step (view_of s) (view_of s')"
  using assms(1)
proof cases
  case (CreateWorkspace c req res)
  then show ?thesis using create_workspace_step [OF assms(3) _ assms(2)] view_step.admin by blast
next
  case (GetWorkspace c req res)
  then have "s' = s" using get_steps(1) [OF assms(3) _ assms(2)] by blast
  then show ?thesis by (simp add: assms(3))
next
  case (CreateApi c req res)
  then show ?thesis using create_api_step [OF assms(3) _ assms(2)] view_step.admin by blast
next
  case (GetApi c req res)
  then have "s' = s" using get_steps(2) [OF assms(3) _ assms(2)] by blast
  then show ?thesis by (simp add: assms(3))
next
  case (CreateKey c req res)
  then show ?thesis using create_key_step [OF assms(3) _ assms(2)] view_step.admin by blast
next
  case (GetKey c req res)
  then have "s' = s" using get_steps(3) [OF assms(3) _ assms(2)] by blast
  then show ?thesis by (simp add: assms(3))
next
  case (RevokeKey c req res)
  then show ?thesis using revoke_step [OF assms(3) _ assms(2)] view_step.admin by blast
next
  case (RotateKey c req res)
  then show ?thesis using rotate_step [OF assms(3) _ assms(2)] view_step.admin by blast
next
  case (ListKeys c req res)
  then have "s' = s" using list_keys_step [OF assms(3) _ assms(2)] by blast
  then show ?thesis by (simp add: assms(3))
next
  case (VerifyKey c req res)
  then show ?thesis by (intro verify_step [OF assms(3) _ assms(2)])
qed

end

section \<open>What abstract steps keep\<close>

text \<open>Tenancy: a key belongs to the workspace of its API.\<close>

definition tenant_ok :: "view \<Rightarrow> bool" where
  "tenant_ok v \<longleftrightarrow> (\<forall>i k. v_keys v i = Some k \<longrightarrow>
     (\<exists>a. v_apis v (k_APIID k) = Some a \<and> a_WorkspaceID a = k_WorkspaceID k))"

text \<open>Credit: unlimited keys carry exactly -1, limited keys are never negative.\<close>

definition credit_ok :: "view \<Rightarrow> bool" where
  "credit_ok v \<longleftrightarrow> (\<forall>i k. v_keys v i = Some k \<longrightarrow> k_RemainingUses k = -1 \<or> 0 \<le> sint (k_RemainingUses k))"

text \<open>
  How a stored key may develop: its identity, tenant, owner, permissions, limits and expiry are
  fixed, a revoked key stays revoked, and the credit only goes down, never below zero.
\<close>

definition key_evolves :: "Key \<Rightarrow> Key \<Rightarrow> bool" where
  "key_evolves k k' \<longleftrightarrow>
     k_KeyID k' = k_KeyID k \<and> k_APIID k' = k_APIID k \<and> k_WorkspaceID k' = k_WorkspaceID k \<and>
     k_OwnerPrincipalID k' = k_OwnerPrincipalID k \<and> k_Name k' = k_Name k \<and>
     k_Permissions k' = k_Permissions k \<and> k_LimitRefs k' = k_LimitRefs k \<and>
     k_ExpiresAt k' = k_ExpiresAt k \<and> k_CreatedAt k' = k_CreatedAt k \<and>
     k_Metadata k' = k_Metadata k \<and>
     (k_Enabled k' \<longrightarrow> k_Enabled k) \<and>
     (k_RemainingUses k' = k_RemainingUses k \<or>
      0 \<le> sint (k_RemainingUses k') \<and> sint (k_RemainingUses k') < sint (k_RemainingUses k))"

lemma key_evolves_refl [simp]: "key_evolves k k"
  by (simp add: key_evolves_def)

lemma key_evolves_trans: "key_evolves k k' \<Longrightarrow> key_evolves k' k'' \<Longrightarrow> key_evolves k k''"
  by (auto simp: key_evolves_def)

lemma key_evolves_used: "key_evolves k (used_key d t k)"
  by (simp add: key_evolves_def used_key_def sint_dec_pos)

lemma admin_step_key:
  assumes "admin_step v v'" "v_keys v i = Some k"
  shows "\<exists>k'. v_keys v' i = Some k' \<and> key_evolves k k'"
  using assms
proof (induction rule: admin_step.induct)
  case (add_key j v k')
  then show ?case by (cases "i = j") auto
next
  case (revoke v j k' u)
  then show ?case by (cases "i = j") (auto simp: key_evolves_def)
next
  case (rotate v j k' h u)
  then show ?case by (cases "i = j") (auto simp: key_evolves_def)
qed simp_all

lemma view_step_key:
  assumes "view_step v v'" "v_keys v i = Some k"
  shows "\<exists>k'. v_keys v' i = Some k' \<and> key_evolves k k'"
  using assms
proof (induction rule: view_step.induct)
  case (admin v v')
  then show ?case by (rule admin_step_key)
next
  case (verify v j k' d t)
  then show ?case by (cases "i = j") (auto simp: key_evolves_used)
qed

lemma used_key_sel [simp]:
  "k_APIID (used_key d t k) = k_APIID k" "k_WorkspaceID (used_key d t k) = k_WorkspaceID k"
  "k_KeyID (used_key d t k) = k_KeyID k" "k_KeyHash (used_key d t k) = k_KeyHash k"
  "k_Enabled (used_key d t k) = k_Enabled k" "k_ExpiresAt (used_key d t k) = k_ExpiresAt k"
  "k_Permissions (used_key d t k) = k_Permissions k" "k_LimitRefs (used_key d t k) = k_LimitRefs k"
  "k_RemainingUses (used_key d t k) =
     (if 0 < sint (k_RemainingUses k) then k_RemainingUses k - 1 else k_RemainingUses k)"
  "k_LastVerifiedAt (used_key d t k) = Some t"
  by (simp_all add: used_key_def)

lemma admin_step_tenant: "admin_step v v' \<Longrightarrow> tenant_ok v \<Longrightarrow> tenant_ok v'"
proof (induction rule: admin_step.induct)
  case (add_api i v a)
  have "v_apis v i = None" using add_api(1) by auto
  then show ?case using add_api unfolding tenant_ok_def by fastforce
qed (auto simp: tenant_ok_def)

lemma view_step_tenant: "view_step v v' \<Longrightarrow> tenant_ok v \<Longrightarrow> tenant_ok v'"
  by (induction rule: view_step.induct) (auto simp: tenant_ok_def dest: admin_step_tenant [unfolded tenant_ok_def])

lemma admin_step_credit: "admin_step v v' \<Longrightarrow> credit_ok v \<Longrightarrow> credit_ok v'"
  by (induction rule: admin_step.induct) (auto simp: credit_ok_def)

lemma view_step_credit: "view_step v v' \<Longrightarrow> credit_ok v \<Longrightarrow> credit_ok v'"
proof (induction rule: view_step.induct)
  case (admin v v')
  then show ?case by (rule admin_step_credit)
next
  case (verify v i k d t)
  then have "k_RemainingUses k = -1 \<or> 0 \<le> sint (k_RemainingUses k)" by (auto simp: credit_ok_def)
  with verify.prems show ?case by (auto simp: credit_ok_def sint_dec_pos)
qed

lemma view_steps_key:
  assumes "view_step\<^sup>*\<^sup>* v v'" "v_keys v i = Some k"
  shows "\<exists>k'. v_keys v' i = Some k' \<and> key_evolves k k'"
  using assms
proof (induction rule: rtranclp_induct)
  case (step v1 v2)
  then show ?case by (meson key_evolves_trans view_step_key)
qed auto

lemma view_steps_ok:
  "view_step\<^sup>*\<^sup>* v v' \<Longrightarrow> tenant_ok v \<Longrightarrow> credit_ok v \<Longrightarrow> tenant_ok v' \<and> credit_ok v'"
  by (induction rule: rtranclp_induct) (auto intro: view_step_tenant view_step_credit)

lemma empty_view_ok [simp]: "tenant_ok empty_view" "credit_ok empty_view"
  by (simp_all add: tenant_ok_def credit_ok_def empty_view_def)

section \<open>What a verification response says\<close>

text \<open>Consequences of the abstract verification, each by cases on its rules.\<close>

lemma verify_gate_not_valid: "verify_gate now ps k = Some res \<Longrightarrow> res \<noteq> VERIFY_RESULT_VALID"
  by (auto simp: verify_gate_def split: if_splits)

lemma verify_rel_valid:
  assumes "verify_rel sha rl now d t req v r (Inr resp) v' r'"
  shows "VerifyKeyResponse_Valid resp \<longleftrightarrow> VerifyKeyResponse_Result resp = VERIFY_RESULT_VALID"
  using assms
  by cases (auto simp: notFound_def rejected_def verify_response_def granted_def dest: verify_gate_not_valid)

lemma verify_rel_unchanged:
  assumes "verify_rel sha rl now d t req v r res v' r'"
    and "\<And>resp. res = Inr resp \<Longrightarrow> \<not> VerifyKeyResponse_Valid resp"
  shows "v' = v"
  using assms by cases (auto simp: granted_def)

lemma verify_rel_valid_cases:
  assumes "verify_rel sha rl now d t req v r (Inr resp) v' r'" "VerifyKeyResponse_Valid resp"
  obtains i k where "v_keys v i = Some k" "k_KeyHash k = keymat_Hash sha (VerifyKeyRequest_GetPlaintext req)"
    and "verify_gate now (VerifyKeyRequest_GetRequiredPermissions req) k = None"
    and "v' = v\<lparr>v_keys := (v_keys v)(i \<mapsto> used_key d t k)\<rparr>"
    and "VerifyKeyResponse_KeyId resp = k_KeyID k"
    and "limiter_consulted req k \<longrightarrow> (\<exists>consume ds. rl = Some consume \<and>
      consume r (k_LimitRefs k) (limitCost (VerifyKeyRequest_GetCost req))
        (VerifyKeyRequest_GetRequestId req) = (Inr ds, r') \<and> (\<forall>d \<in> set ds. ld_Allowed d))"
  using assms(1)
proof cases
  case (allowed i k consume ds)
  then show thesis by (intro that [of i k]) (auto simp: granted_def verify_response_def)
next
  case (unlimited i k)
  then show thesis by (intro that [of i k]) (auto simp: granted_def verify_response_def)
qed (use assms(2) in \<open>auto simp: notFound_def rejected_def verify_response_def\<close>)

text \<open>The rate limiter is only called for a key that passed every other check.\<close>

lemma verify_rel_limiter:
  assumes "verify_rel sha rl now d t req v r res v' r'" "r' \<noteq> r"
  obtains i k where "v_keys v i = Some k" "k_KeyHash k = keymat_Hash sha (VerifyKeyRequest_GetPlaintext req)"
    and "verify_gate now (VerifyKeyRequest_GetRequiredPermissions req) k = None"
    and "\<not> VerifyKeyRequest_GetSkipRatelimit req" "k_LimitRefs k \<noteq> []"
  using assms(1) assms(2) by cases (auto simp: limiter_consulted_def intro: that)

section \<open>Runs of the service\<close>

context store_contract
begin

lemma reachable_refines:
  assumes "rpc_reachable L srv all_ok st st'" "srv_store srv = ops" "inv (fst st)"
  shows "inv (fst st') \<and> view_step\<^sup>*\<^sup>* (view_of (fst st)) (view_of (fst st'))"
  using assms
proof (induction rule: rpc_reachable.induct)
  case (step st1 st2)
  then have "inv (fst st2) \<and> view_step (view_of (fst st1)) (view_of (fst st2))"
    using rpc_refines [of L srv "fst st1" "snd st1" "fst st2" "snd st2"] by simp
  with step show ?case by auto
qed simp

lemma reachable_ok:
  assumes "rpc_reachable L srv all_ok (s0, r0) (s, r)" "srv_store srv = ops" "inv s0"
    and "tenant_ok (view_of s0)" "credit_ok (view_of s0)"
  shows "inv s \<and> view_ok (view_of s) \<and> tenant_ok (view_of s) \<and> credit_ok (view_of s)"
  using reachable_refines [OF assms(1,2)] assms(3-5) view_of_ok view_steps_ok by fastforce

lemma reachable_key:
  assumes "rpc_reachable L srv all_ok (s0, r0) (s, r)" "srv_store srv = ops" "inv s0"
    and "v_keys (view_of s0) i = Some k"
  shows "\<exists>k'. v_keys (view_of s) i = Some k' \<and> key_evolves k k'"
  using reachable_refines [OF assms(1,2)] assms(3,4) view_steps_key by fastforce

text \<open>A revoked key never verifies again, whatever RPCs happen in between.\<close>

lemma revoked_rejected:
  assumes inv: "inv s" and up: "\<And>n. env_up (c_env c n)" and srv: "srv_store srv = ops"
    and k: "v_keys (view_of s) i = Some k" "\<not> k_Enabled k"
    and h: "keymat_Hash (lib_sha L) (VerifyKeyRequest_GetPlaintext req) = k_KeyHash k"
    and pt: "VerifyKeyRequest_GetPlaintext req \<noteq> []"
  shows "Server_VerifyKey L srv c s r req = (Inr (rejected (verify_response k) VERIFY_RESULT_REVOKED), s, r)"
  using verify_hit [OF inv up srv pt k(1) h [symmetric]] k(2) by (simp add: verify_gate_def)

lemma revoke_is_final:
  assumes "inv s0" "all_ok c0 s0" "srv_store srv = ops"
    and "RevokeKeyRequest_GetKeyId req0 = i"
    and revoked: "Server_RevokeKey srv c0 s0 req0 = (Inr PB_RevokeKeyResponse, s1)"
    and later: "rpc_reachable L srv all_ok (s1, r1) (s, r)"
    and up: "\<And>n. env_up (c_env c n)"
    and run: "Server_VerifyKey L srv c s r req = (Inr resp, s', r')" "VerifyKeyResponse_KeyId resp = i"
  shows "VerifyKeyResponse_Result resp = VERIFY_RESULT_REVOKED \<and> s' = s \<and> r' = r"
proof -
  have ne: "i \<noteq> []" using revoked assms(4) by (auto simp: Server_RevokeKey_def)
  note rr = revoke_run [OF assms(1-4) ne]
  obtain k0 u where "inv s1" and v1: "view_of s1 = (view_of s0)\<lparr>v_keys := (v_keys (view_of s0))(i \<mapsto>
      k0\<lparr>k_Enabled := False, k_UpdatedAt := u\<rparr>)\<rparr>"
    using rr revoked by (cases "v_keys (view_of s0) i") auto
  then obtain k where k: "v_keys (view_of s) i = Some k" "\<not> k_Enabled k" and inv: "inv s"
    using reachable_key [OF later assms(3) \<open>inv s1\<close>, of i] reachable_refines [OF later assms(3)]
    by (auto simp: key_evolves_def)
  note kid = view_okD_key(1) [OF view_of_ok [OF inv]]
  obtain res2 s2 r2 where run2: "Server_VerifyKey L srv c s r req = (res2, s2, r2)"
    and rel: "verify_rel (lib_sha L) (srv_rl srv) (c_now c) (nt (now_of (c_env c 1))) (nt (c_now' c)) req
      (view_of s) r res2 (view_of s2) r2"
    by (rule verify_refines [OF inv up assms(3)])
  have pt: "VerifyKeyRequest_GetPlaintext req \<noteq> []"
    and h: "keymat_Hash (lib_sha L) (VerifyKeyRequest_GetPlaintext req) = k_KeyHash k"
    using rel run run2 ne kid k
    by (cases, auto simp: notFound_def rejected_def verify_response_def granted_def)+
  show ?thesis
    using revoked_rejected [OF inv up assms(3) k h pt] run by (auto simp: rejected_def)
qed

end

section \<open>Issuing, rotating and spending a key\<close>

text \<open>
  A request that presents a key: the plaintext hashes to it, the key is not expired at the time of
  the check, it has the required permissions, and the rate limiter is not involved.
\<close>

definition presents :: "'ts libs \<Rightarrow> 'e call \<Rightarrow> PB_VerifyKeyRequest option \<Rightarrow> Key \<Rightarrow> bool" where
  "presents L c req k \<longleftrightarrow>
     VerifyKeyRequest_GetPlaintext req \<noteq> [] \<and>
     k_KeyHash k = keymat_Hash (lib_sha L) (VerifyKeyRequest_GetPlaintext req) \<and>
     (\<forall>t. k_ExpiresAt k = Some t \<longrightarrow> c_now c < t) \<and>
     set (VerifyKeyRequest_GetRequiredPermissions req) \<subseteq> set (k_Permissions k) \<and>
     \<not> limiter_consulted req k"

lemma presents_used [simp]: "presents L c req (used_key d t k) \<longleftrightarrow> presents L c req k"
  by (simp add: presents_def limiter_consulted_def)

lemma presents_gate:
  assumes "presents L c req k" "k_Enabled k"
  shows "verify_gate (c_now c) (VerifyKeyRequest_GetRequiredPermissions req) k =
    (if k_RemainingUses k = 0 then Some VERIFY_RESULT_DEPLETED else None)"
  using assms by (auto simp: presents_def verify_gate_def)

text \<open>A sequence of verifications, one after the other.\<close>

fun verify_seq ::
  "'ts libs \<Rightarrow> ('e, 's, 'r) Server \<Rightarrow> 's \<Rightarrow> 'r \<Rightarrow> ('e call \<times> PB_VerifyKeyRequest option) list \<Rightarrow>
   (grpc_status + PB_VerifyKeyResponse) list \<times> 's \<times> 'r" where
  "verify_seq L srv s r [] = ([], s, r)"
| "verify_seq L srv s r ((c, req) # calls) =
     (case Server_VerifyKey L srv c s r req of
        (res, s1, r1) \<Rightarrow>
          (case verify_seq L srv s1 r1 calls of (out, s2, r2) \<Rightarrow> (res # out, s2, r2)))"

lemma verify_seq_Cons:
  assumes "Server_VerifyKey L srv c s r req = (res, s1, r1)"
  shows "fst (verify_seq L srv s r ((c, req) # calls)) = res # fst (verify_seq L srv s1 r1 calls)"
  by (simp add: assms split_beta)

definition result_is :: "VerifyResult \<Rightarrow> grpc_status + PB_VerifyKeyResponse \<Rightarrow> bool" where
  "result_is x res \<longleftrightarrow> (\<exists>resp. res = Inr resp \<and> VerifyKeyResponse_Result resp = x)"

context store_contract
begin

lemma verify_presented:
  assumes "inv s" "\<And>n. env_up (c_env c n)" "srv_store srv = ops"
    and k: "v_keys (view_of s) i = Some k" "k_Enabled k" and p: "presents L c req k"
  shows "k_RemainingUses k = 0 \<Longrightarrow>
      Server_VerifyKey L srv c s r req = (Inr (rejected (verify_response k) VERIFY_RESULT_DEPLETED), s, r)"
    and "k_RemainingUses k \<noteq> 0 \<Longrightarrow> \<exists>s'. Server_VerifyKey L srv c s r req = (Inr (granted k []), s', r) \<and>
      inv s' \<and> view_of s' = (view_of s)\<lparr>v_keys := (v_keys (view_of s))(i \<mapsto>
        used_key (nt (now_of (c_env c 1))) (nt (c_now' c)) k)\<rparr>"
proof -
  have pt: "VerifyKeyRequest_GetPlaintext req \<noteq> []"
    and h: "k_KeyHash k = keymat_Hash (lib_sha L) (VerifyKeyRequest_GetPlaintext req)"
    and lim: "\<not> limiter_consulted req k"
    using p by (simp_all add: presents_def)
  note run = verify_hit [OF assms(1-3) pt k(1) h, of r]
  show "Server_VerifyKey L srv c s r req = (Inr (rejected (verify_response k) VERIFY_RESULT_DEPLETED), s, r)"
    if "k_RemainingUses k = 0"
    using run that presents_gate [OF p k(2)] by simp
  show "\<exists>s'. Server_VerifyKey L srv c s r req = (Inr (granted k []), s', r) \<and>
      inv s' \<and> view_of s' = (view_of s)\<lparr>v_keys := (v_keys (view_of s))(i \<mapsto>
        used_key (nt (now_of (c_env c 1))) (nt (c_now' c)) k)\<rparr>"
    if uses: "k_RemainingUses k \<noteq> 0"
  proof -
    obtain s' where "verify_commit srv c s k (verify_response k) =
        (Inr ((verify_response k)\<lparr>VerifyKeyResponse_Valid := True,
           VerifyKeyResponse_Result := VERIFY_RESULT_VALID\<rparr>), s')" "inv s'"
      and "view_of s' = (view_of s)\<lparr>v_keys := (v_keys (view_of s))(i \<mapsto>
        used_key (nt (now_of (c_env c 1))) (nt (c_now' c)) k)\<rparr>"
      by (rule commit_grants [OF assms(1-3) k(1) uses])
    then show ?thesis
      using run presents_gate [OF p k(2)] uses lim
      by (intro exI [of _ s']) (simp add: granted_def verify_response_def)
  qed
qed

lemma depleted_seq:
  assumes "inv s" "srv_store srv = ops" "v_keys (view_of s) i = Some k" "k_Enabled k" "k_RemainingUses k = 0"
    and "\<forall>(c, req) \<in> set calls. (\<forall>n. env_up (c_env c n)) \<and> presents L c req k"
  shows "fst (verify_seq L srv s r calls) =
    replicate (length calls) (Inr (rejected (verify_response k) VERIFY_RESULT_DEPLETED))"
  using assms(6)
proof (induction calls)
  case (Cons call calls)
  obtain c req where call: "call = (c, req)" by (rule prod.exhaust)
  with Cons.prems have up: "\<And>n. env_up (c_env c n)" and p: "presents L c req k" by auto
  from Cons have ih: "fst (verify_seq L srv s r calls) =
    replicate (length calls) (Inr (rejected (verify_response k) VERIFY_RESULT_DEPLETED))" by simp
  show ?case
    by (simp only: call verify_seq_Cons [OF verify_presented(1) [OF assms(1) up assms(2-4) p assms(5)]] ih
        list.size replicate_Suc add_Suc_right add_0_right)
qed simp

text \<open>A key with a credit of n: n verifications are granted, every later one finds it depleted.\<close>

lemma credit_spent:
  assumes "inv s" "srv_store srv = ops" "v_keys (view_of s) i = Some k" "k_Enabled k"
    and "0 \<le> sint (k_RemainingUses k)"
    and "\<forall>(c, req) \<in> set calls. (\<forall>n. env_up (c_env c n)) \<and> presents L c req k"
  shows "let n = nat (sint (k_RemainingUses k)); out = fst (verify_seq L srv s r calls)
    in length out = length calls \<and> (\<forall>res \<in> set (take n out). result_is VERIFY_RESULT_VALID res) \<and>
       (\<forall>res \<in> set (drop n out). result_is VERIFY_RESULT_DEPLETED res)"
  using assms
proof (induction calls arbitrary: s k)
  case (Cons call calls)
  obtain c req where call: "call = (c, req)" by (rule prod.exhaust)
  with Cons.prems(6) have up: "\<And>n. env_up (c_env c n)" and p: "presents L c req k" by auto
  show ?case
  proof (cases "k_RemainingUses k = 0")
    case True
    have "fst (verify_seq L srv s r (call # calls)) =
        replicate (length (call # calls)) (Inr (rejected (verify_response k) VERIFY_RESULT_DEPLETED))"
      by (rule depleted_seq [OF Cons.prems(1-4) True Cons.prems(6)])
    with True show ?thesis by (auto simp: result_is_def rejected_def)
  next
    case False
    with Cons.prems(5) have pos: "0 < sint (k_RemainingUses k)"
      by (metis order_le_less signed_eq_0_iff)
    let ?k = "used_key (nt (now_of (c_env c 1))) (nt (c_now' c)) k"
    obtain s1 where s1: "Server_VerifyKey L srv c s r req = (Inr (granted k []), s1, r)" "inv s1"
      "view_of s1 = (view_of s)\<lparr>v_keys := (v_keys (view_of s))(i \<mapsto> ?k)\<rparr>"
      using verify_presented(2) [OF Cons.prems(1) up Cons.prems(2-4) p False] by blast
    define m where "m = nat (sint (k_RemainingUses ?k))"
    have n: "nat (sint (k_RemainingUses k)) = Suc m"
      using pos by (simp add: m_def used_key_def sint_dec_pos)
    have "let n = nat (sint (k_RemainingUses ?k)); out = fst (verify_seq L srv s1 r calls)
      in length out = length calls \<and> (\<forall>res \<in> set (take n out). result_is VERIFY_RESULT_VALID res) \<and>
         (\<forall>res \<in> set (drop n out). result_is VERIFY_RESULT_DEPLETED res)"
    proof (rule Cons.IH)
      show "v_keys (view_of s1) i = Some ?k" by (simp add: s1(3))
      show "0 \<le> sint (k_RemainingUses ?k)" using pos by (simp add: used_key_def sint_dec_pos)
      show "\<forall>(c, req) \<in> set calls. (\<forall>n. env_up (c_env c n)) \<and> presents L c req ?k"
        using Cons.prems(6) by simp
    qed (use s1(2) Cons.prems(2,4) in simp_all)
    moreover have "fst (verify_seq L srv s r (call # calls)) =
        Inr (granted k []) # fst (verify_seq L srv s1 r calls)"
      unfolding call by (rule verify_seq_Cons [OF s1(1)])
    moreover have "result_is VERIFY_RESULT_VALID (Inr (granted k []))"
      by (simp add: result_is_def granted_def)
    ultimately show ?thesis unfolding m_def [symmetric] n by (simp add: Let_def)
  qed
qed simp

text \<open>What a successful \<open>CreateKey\<close> has done.\<close>

lemma create_key_success:
  assumes "inv s" "all_ok c s" "srv_store srv = ops"
    and run: "Server_CreateKey L srv c s req = (Inr resp, s')"
  obtains api rest where "v_apis (view_of s) (CreateKeyRequest_GetApiId req) = Some api"
    and "keymat_New (lib_sha L) (a_KeyPrefix api) (c_rand c) = (Inr (CreateKeyResponse_Plaintext resp,
      keymat_Hash (lib_sha L) (CreateKeyResponse_Plaintext resp)), rest)"
    and "\<not> hash_taken (view_of s) (keymat_Hash (lib_sha L) (CreateKeyResponse_Plaintext resp))"
    and "CreateKeyResponse_Key resp = Some (keyToProto L (stamp_key (id_of ''key'' (c_env c 1))
      (now_of (c_env c 1)) (issued_key L req api (keymat_Hash (lib_sha L) (CreateKeyResponse_Plaintext resp)))))"
    and "inv s'"
    and "view_of s' = (view_of s)\<lparr>v_keys := (v_keys (view_of s))(id_of ''key'' (c_env c 1) \<mapsto>
      norm_key nt nm nr (stamp_key (id_of ''key'' (c_env c 1)) (now_of (c_env c 1))
        (issued_key L req api (keymat_Hash (lib_sha L) (CreateKeyResponse_Plaintext resp)))))\<rparr>"
proof -
  note got = get_api [OF assms(1) call_okD(1) [OF assms(2), of 0], of "CreateKeyRequest_GetApiId req"]
  from run have req: "CreateKeyRequest_GetApiId req \<noteq> []" "CreateKeyRequest_GetOwnerPrincipalId req \<noteq> []"
    by (auto simp: Server_CreateKey_def split: if_splits)
  obtain api where api: "v_apis (view_of s) (CreateKeyRequest_GetApiId req) = Some api"
    using run req got by (cases "v_apis (view_of s) (CreateKeyRequest_GetApiId req)")
      (auto simp: Server_CreateKey_def assms(3))
  obtain p h rest where mat: "keymat_New (lib_sha L) (a_KeyPrefix api) (c_rand c) = (Inr (p, h), rest)"
    using run req got api
    by (cases "keymat_New (lib_sha L) (a_KeyPrefix api) (c_rand c)")
      (auto simp: Server_CreateKey_def assms(3) split: sum.splits)
  note u = create_key_unguarded [OF assms(1-3) req api mat]
  have fresh: "\<not> hash_taken (view_of s) h" using u(1) run by auto
  let ?k = "stamp_key (id_of ''key'' (c_env c 1)) (now_of (c_env c 1)) (issued_key L req api h)"
  from u(2) [OF fresh] run have resp: "resp = \<lparr>CreateKeyResponse_Key = Some (keyToProto L ?k),
      CreateKeyResponse_Plaintext = p\<rparr>" and "inv s'"
    and v': "view_of s' = (view_of s)\<lparr>v_keys := (v_keys (view_of s))(id_of ''key'' (c_env c 1) \<mapsto>
      norm_key nt nm nr ?k)\<rparr>" by auto
  note h = keymat_New_hash [OF mat]
  show thesis
    by (rule that [OF api]) (use mat fresh \<open>inv s'\<close> v' in \<open>simp_all add: resp h\<close>)
qed

text \<open>The plaintext just issued verifies, for as long as the key has not expired.\<close>

lemma issued_verifies:
  assumes "inv s" "all_ok c s" "srv_store srv = ops"
    and run: "Server_CreateKey L srv c s req = (Inr resp, s')"
    and up: "\<And>n. env_up (c_env c2 n)"
    and req2: "VerifyKeyRequest_GetPlaintext req2 = CreateKeyResponse_Plaintext resp"
      "set (VerifyKeyRequest_GetRequiredPermissions req2) \<subseteq> set (CreateKeyRequest_GetPermissions req)"
      "VerifyKeyRequest_GetSkipRatelimit req2 \<or> CreateKeyRequest_GetLimitRefs req = []"
    and live: "\<And>t. timeFromProto L (CreateKeyRequest_GetExpiresAt req) = Some t \<Longrightarrow> c_now c2 < nt t"
  shows "\<exists>k s2. Server_VerifyKey L srv c2 s' r req2 = (Inr (granted k []), s2, r) \<and>
    k_KeyID k = id_of ''key'' (c_env c 1) \<and> k_APIID k = CreateKeyRequest_GetApiId req \<and>
    k_OwnerPrincipalID k = CreateKeyRequest_GetOwnerPrincipalId req \<and>
    k_Permissions k = CreateKeyRequest_GetPermissions req \<and>
    map_option ApiKey_KeyId (CreateKeyResponse_Key resp) = Some (k_KeyID k)"
proof -
  obtain api rest where api: "v_apis (view_of s) (CreateKeyRequest_GetApiId req) = Some api"
    and mat: "keymat_New (lib_sha L) (a_KeyPrefix api) (c_rand c) = (Inr (CreateKeyResponse_Plaintext resp,
      keymat_Hash (lib_sha L) (CreateKeyResponse_Plaintext resp)), rest)"
    and key: "CreateKeyResponse_Key resp = Some (keyToProto L (stamp_key (id_of ''key'' (c_env c 1))
      (now_of (c_env c 1)) (issued_key L req api (keymat_Hash (lib_sha L) (CreateKeyResponse_Plaintext resp)))))"
    and inv': "inv s'"
    and v': "view_of s' = (view_of s)\<lparr>v_keys := (v_keys (view_of s))(id_of ''key'' (c_env c 1) \<mapsto>
      norm_key nt nm nr (stamp_key (id_of ''key'' (c_env c 1)) (now_of (c_env c 1))
        (issued_key L req api (keymat_Hash (lib_sha L) (CreateKeyResponse_Plaintext resp)))))\<rparr>"
    by (rule create_key_success [OF assms(1-4)])
  define k where "k = norm_key nt nm nr (stamp_key (id_of ''key'' (c_env c 1)) (now_of (c_env c 1))
    (issued_key L req api (keymat_Hash (lib_sha L) (CreateKeyResponse_Plaintext resp))))"
  note kdefs = k_def go_defs issued_key_def key_of_request_def
  have at: "v_keys (view_of s') (id_of ''key'' (c_env c 1)) = Some k" by (simp add: v' k_def)
  have ne: "CreateKeyResponse_Plaintext resp \<noteq> []" by (rule keymat_New_nonempty [OF mat])
  have "presents L c2 req2 k"
    using ne req2 live
    by (auto simp: presents_def kdefs limiter_consulted_def limitRefsFromProto_def nr_Nil)
  moreover have "k_Enabled k" "k_RemainingUses k \<noteq> 0" by (auto simp: kdefs)
  ultimately obtain s2 where "Server_VerifyKey L srv c2 s' r req2 = (Inr (granted k []), s2, r)"
    using verify_presented(2) [OF inv' up assms(3) at] by blast
  moreover have "k_APIID k = CreateKeyRequest_GetApiId req"
    using view_okD_api(1) [OF view_of_ok [OF assms(1)] api] by (simp add: kdefs)
  ultimately show ?thesis
    by (intro exI [of _ k] exI [of _ s2])
      (simp add: kdefs key keyToProto_def Let_def split: option.split)
qed

end

section \<open>Rotation\<close>

text \<open>What a caller observes of a verification that finds the key: a function of the key alone.\<close>

definition verify_outcome ::
  "'r RateLimiter option \<Rightarrow> gotime \<Rightarrow> PB_VerifyKeyRequest option \<Rightarrow> Key \<Rightarrow> 'r \<Rightarrow>
   (grpc_status + PB_VerifyKeyResponse) \<times> 'r" where
  "verify_outcome rl now req k r =
    (case verify_gate now (VerifyKeyRequest_GetRequiredPermissions req) k of
       Some res \<Rightarrow> (Inr (rejected (verify_response k) res), r)
     | None \<Rightarrow>
         if limiter_consulted req k then
           (case rl of
              None \<Rightarrow> (Inl (Status FailedPrecondition
                (Msg ''rate-limiter client not configured but key has limit_refs'')), r)
            | Some consume \<Rightarrow>
                (case consume r (k_LimitRefs k) (limitCost (VerifyKeyRequest_GetCost req))
                        (VerifyKeyRequest_GetRequestId req) of
                   (Inl err, r') \<Rightarrow> (Inl (Status Unavailable (MsgErrorf ''rate-limiter consume: %v'' err)), r')
                 | (Inr ds, r') \<Rightarrow>
                     if \<exists>d \<in> set ds. \<not> ld_Allowed d
                     then (Inr (rejected ((verify_response k)\<lparr>VerifyKeyResponse_LimitDecisions :=
                             limitDecisionsToProto ds\<rparr>) VERIFY_RESULT_RATE_LIMITED), r')
                     else (Inr (granted k (limitDecisionsToProto ds)), r')))
         else (Inr (granted k []), r))"

text \<open>Rotation changes nothing a verification looks at but the hash.\<close>

lemma verify_outcome_rotated:
  assumes "VerifyKeyRequest_GetRequiredPermissions req' = VerifyKeyRequest_GetRequiredPermissions req"
    "VerifyKeyRequest_GetSkipRatelimit req' = VerifyKeyRequest_GetSkipRatelimit req"
    "VerifyKeyRequest_GetCost req' = VerifyKeyRequest_GetCost req"
    "VerifyKeyRequest_GetRequestId req' = VerifyKeyRequest_GetRequestId req"
  shows "verify_outcome rl now req' (k\<lparr>k_KeyHash := h, k_UpdatedAt := u\<rparr>) r = verify_outcome rl now req k r"
proof -
  let ?k = "k\<lparr>k_KeyHash := h, k_UpdatedAt := u\<rparr>"
  have gate: "verify_gate now ps ?k = verify_gate now ps k" for ps by (auto simp: verify_gate_def)
  have resp: "verify_response ?k = verify_response k" by (simp add: verify_response_def)
  then have grant: "granted ?k ds = granted k ds" for ds by (simp add: granted_def)
  have lim: "limiter_consulted req' ?k = limiter_consulted req k"
    by (simp add: limiter_consulted_def assms)
  have refs: "k_LimitRefs ?k = k_LimitRefs k" by simp
  show ?thesis unfolding verify_outcome_def assms gate resp grant lim refs by (rule refl)
qed

context store_contract
begin

lemma verify_hit_outcome:
  assumes "inv s" "\<And>n. env_up (c_env c n)" "srv_store srv = ops"
    and "VerifyKeyRequest_GetPlaintext req \<noteq> []" "v_keys (view_of s) i = Some k"
    and "k_KeyHash k = keymat_Hash (lib_sha L) (VerifyKeyRequest_GetPlaintext req)"
  shows "\<exists>s'. Server_VerifyKey L srv c s r req =
    (fst (verify_outcome (srv_rl srv) (c_now c) req k r), s', snd (verify_outcome (srv_rl srv) (c_now c) req k r))"
proof (cases "verify_gate (c_now c) (VerifyKeyRequest_GetRequiredPermissions req) k")
  case (Some res)
  then show ?thesis by (simp add: verify_hit [OF assms] verify_outcome_def)
next
  case None
  have commit: "\<exists>s'. verify_commit srv c s k resp =
      (Inr (resp\<lparr>VerifyKeyResponse_Valid := True, VerifyKeyResponse_Result := VERIFY_RESULT_VALID\<rparr>), s')" for resp
    by (rule commit_grants [OF assms(1-3,5) gate_None_RemainingUses [OF None]]) blast
  obtain s0 where plain: "verify_commit srv c s k (verify_response k) = (Inr (granted k []), s0)"
    using commit [of "verify_response k"] by (auto simp: granted_def verify_response_def)
  have lim: "fst (verify_commit srv c s k ((verify_response k)\<lparr>VerifyKeyResponse_LimitDecisions :=
      limitDecisionsToProto ds\<rparr>)) = Inr (granted k (limitDecisionsToProto ds))" for ds
    using commit [of "(verify_response k)\<lparr>VerifyKeyResponse_LimitDecisions := limitDecisionsToProto ds\<rparr>"]
    by (auto simp: granted_def)
  show ?thesis
    using lim by (auto simp: verify_hit [OF assms] verify_outcome_def None plain Let_def split_beta
        split: option.split sum.split)
qed

text \<open>
  A successful rotation: the identifier stays, the old plaintext is unknown from now on, and the
  new one is answered exactly as the old one was.
\<close>

lemma rotate_success:
  assumes "inv s" "all_ok c s" "srv_store srv = ops"
    and run: "Server_RotateKey L srv c s req = (Inr resp, s')"
  obtains k u where "v_keys (view_of s) (RotateKeyRequest_GetKeyId req) = Some k"
    and "RotateKeyResponse_Plaintext resp \<noteq> []"
    and "hash_free_for (view_of s) (RotateKeyRequest_GetKeyId req)
      (keymat_Hash (lib_sha L) (RotateKeyResponse_Plaintext resp))"
    and "RotateKeyResponse_Key resp = Some (keyToProto L (k\<lparr>k_KeyHash :=
      keymat_Hash (lib_sha L) (RotateKeyResponse_Plaintext resp), k_UpdatedAt := u\<rparr>))"
    and "inv s'"
    and "view_of s' = (view_of s)\<lparr>v_keys := (v_keys (view_of s))(RotateKeyRequest_GetKeyId req \<mapsto>
      k\<lparr>k_KeyHash := keymat_Hash (lib_sha L) (RotateKeyResponse_Plaintext resp), k_UpdatedAt := u\<rparr>)\<rparr>"
proof -
  let ?i = "RotateKeyRequest_GetKeyId req"
  from run have i: "?i \<noteq> []" by (auto simp: Server_RotateKey_def split: if_splits)
  obtain k where k: "v_keys (view_of s) ?i = Some k"
    using run i get_key_by_id [OF assms(1) call_okD(1) [OF assms(2), of 0], of ?i]
    by (cases "v_keys (view_of s) ?i") (auto simp: Server_RotateKey_def assms(3))
  obtain api where api: "v_apis (view_of s) (k_APIID k) = Some api"
    using view_okD_key(3) [OF view_of_ok [OF assms(1)] k] by auto
  obtain p h rest where mat: "keymat_New (lib_sha L) (a_KeyPrefix api) (c_rand c) = (Inr (p, h), rest)"
    using run i k api get_key_by_id [OF assms(1) call_okD(1) [OF assms(2), of 0], of ?i]
      get_api [OF assms(1) call_okD(1) [OF assms(2), of 1], of "k_APIID k"]
    by (cases "keymat_New (lib_sha L) (a_KeyPrefix api) (c_rand c)")
      (auto simp: Server_RotateKey_def assms(3) split: sum.splits)
  note rr = rotate_run [OF assms(1-3) refl i k api mat]
  have free: "hash_free_for (view_of s) ?i h" using rr(1) run by auto
  let ?k = "k\<lparr>k_KeyHash := h, k_UpdatedAt := nt (now_of (c_env c 2))\<rparr>"
  from rr(2) [OF free] run have resp: "resp = \<lparr>RotateKeyResponse_Key = Some (keyToProto L ?k),
      RotateKeyResponse_Plaintext = p\<rparr>" and "inv s'"
    and v': "view_of s' = (view_of s)\<lparr>v_keys := (v_keys (view_of s))(?i \<mapsto> ?k)\<rparr>" by auto
  note h = keymat_New_hash [OF mat]
  show thesis
    by (rule that [OF k]) (use keymat_New_nonempty [OF mat] free \<open>inv s'\<close> v' in \<open>simp_all add: resp h\<close>)
qed

lemma rotated_outcome:
  assumes "inv s" "all_ok c s" "srv_store srv = ops"
    and run: "Server_RotateKey L srv c s req = (Inr resp, s')"
    and up: "\<And>n. env_up (c_env c1 n)" "\<And>n. env_up (c_env c2 n)"
    and old: "VerifyKeyRequest_GetPlaintext req1 \<noteq> []" "v_keys (view_of s) (RotateKeyRequest_GetKeyId req) = Some k"
      "k_KeyHash k = keymat_Hash (lib_sha L) (VerifyKeyRequest_GetPlaintext req1)"
    and new: "VerifyKeyRequest_GetPlaintext req2 = RotateKeyResponse_Plaintext resp"
    and same: "VerifyKeyRequest_GetRequiredPermissions req2 = VerifyKeyRequest_GetRequiredPermissions req1"
      "VerifyKeyRequest_GetSkipRatelimit req2 = VerifyKeyRequest_GetSkipRatelimit req1"
      "VerifyKeyRequest_GetCost req2 = VerifyKeyRequest_GetCost req1"
      "VerifyKeyRequest_GetRequestId req2 = VerifyKeyRequest_GetRequestId req1" "c_now c2 = c_now c1"
    and differ: "keymat_Hash (lib_sha L) (VerifyKeyRequest_GetPlaintext req1) \<noteq>
      keymat_Hash (lib_sha L) (VerifyKeyRequest_GetPlaintext req2)"
  shows "Server_VerifyKey L srv c1 s' r req1 = (Inr notFound, s', r)"
    and "fst (Server_VerifyKey L srv c2 s' r req2) = fst (Server_VerifyKey L srv c1 s r req1)"
    and "map_option ApiKey_KeyId (RotateKeyResponse_Key resp) = Some (RotateKeyRequest_GetKeyId req)"
proof -
  let ?i = "RotateKeyRequest_GetKeyId req"
  let ?h = "keymat_Hash (lib_sha L) (RotateKeyResponse_Plaintext resp)"
  obtain u where ne: "RotateKeyResponse_Plaintext resp \<noteq> []"
    and key: "RotateKeyResponse_Key resp = Some (keyToProto L (k\<lparr>k_KeyHash := ?h, k_UpdatedAt := u\<rparr>))"
    and inv': "inv s'"
    and v': "view_of s' = (view_of s)\<lparr>v_keys := (v_keys (view_of s))(?i \<mapsto>
      k\<lparr>k_KeyHash := ?h, k_UpdatedAt := u\<rparr>)\<rparr>"
    using rotate_success [OF assms(1-4)] old(2) by (metis option.inject)
  have "\<not> hash_taken (view_of s') (keymat_Hash (lib_sha L) (VerifyKeyRequest_GetPlaintext req1))"
    using view_okD_hash [OF view_of_ok [OF assms(1)] old(2)] old(3) differ new
    by (auto simp: hash_taken_def v')
  then show "Server_VerifyKey L srv c1 s' r req1 = (Inr notFound, s', r)"
    by (intro verify_miss [OF inv' up(1) assms(3)]) simp
  have at: "v_keys (view_of s') ?i = Some (k\<lparr>k_KeyHash := ?h, k_UpdatedAt := u\<rparr>)" by (simp add: v')
  have "fst (Server_VerifyKey L srv c2 s' r req2) =
      fst (verify_outcome (srv_rl srv) (c_now c2) req2 (k\<lparr>k_KeyHash := ?h, k_UpdatedAt := u\<rparr>) r)"
    using verify_hit_outcome [OF inv' up(2) assms(3) _ at, of req2 L r] ne new by auto
  also have "\<dots> = fst (verify_outcome (srv_rl srv) (c_now c1) req1 k r)"
    by (simp add: verify_outcome_rotated [OF same(1-4)] same(5))
  also have "\<dots> = fst (Server_VerifyKey L srv c1 s r req1)"
    using verify_hit_outcome [OF assms(1) up(1) assms(3) old, of r] by auto
  finally show "fst (Server_VerifyKey L srv c2 s' r req2) = fst (Server_VerifyKey L srv c1 s r req1)" .
  show "map_option ApiKey_KeyId (RotateKeyResponse_Key resp) = Some ?i"
    using view_okD_key(1) [OF view_of_ok [OF assms(1)] old(2)]
    by (simp add: key keyToProto_def Let_def split: option.split)
qed

end

end
