(* ===== verification/KC_Paging.thy ===== *)
theory KC_Paging
  imports KC_Service
begin

text \<open>
  Paging through \<open>ListKeys\<close>: a client that keeps passing the returned page token sees every
  matching key exactly once, in order, and stops. \<open>list_every_page\<close> is that client, with a bound on the
  number of calls; one call more than there are matching keys always suffices, because every page
  that announces another one is non-empty.
\<close>

fun list_every_page ::
  "nat \<Rightarrow> 'ts libs \<Rightarrow> ('e, 's, 'r) Server \<Rightarrow> (nat \<Rightarrow> 'e call) \<Rightarrow> 's \<Rightarrow> PB_ListKeysRequest \<Rightarrow>
   'ts PB_ApiKey option list option" where
  "list_every_page 0 L srv cs s req = None"
| "list_every_page (Suc n) L srv cs s req =
     (case Server_ListKeys L srv (cs 0) s (Some req) of
        (Inl err, s') \<Rightarrow> None
      | (Inr resp, s') \<Rightarrow>
          if ListKeysResponse_NextPageToken resp = [] then Some (ListKeysResponse_Keys resp)
          else map_option ((@) (ListKeysResponse_Keys resp))
                 (list_every_page n L srv (\<lambda>i. cs (Suc i)) s'
                    (req\<lparr>ListKeysRequest_PageToken := ListKeysResponse_NextPageToken resp\<rparr>)))"

definition opts_of :: "PB_ListKeysRequest option \<Rightarrow> ListKeysOpts" where
  "opts_of req = \<lparr>o_APIID = ListKeysRequest_GetApiId req,
     o_OwnerPrincipalID = ListKeysRequest_GetOwnerPrincipalId req,
     o_PageSize = ListKeysRequest_GetPageSize req, o_PageToken = ListKeysRequest_GetPageToken req\<rparr>"

section \<open>Tokens cut the sorted list\<close>

lemma filter_after_nth:
  assumes "sorted (map f xs)" "distinct (map f xs)" "j < length xs"
  shows "filter (\<lambda>i. f (xs ! j) < f i) xs = drop (Suc j) xs"
proof -
  have lt: "f (xs ! a) < f (xs ! b)" if "a < b" "b < length xs" for a b
  proof -
    have "f (xs ! a) \<le> f (xs ! b)" using sorted_nth_mono [OF assms(1), of a b] that by simp
    moreover have "f (xs ! a) \<noteq> f (xs ! b)"
      using nth_eq_iff_index_eq [OF assms(2), of a b] that by simp
    ultimately show ?thesis by simp
  qed
  have "filter (\<lambda>i. f (xs ! j) < f i) (take (Suc j) xs) = []"
  proof (rule ccontr)
    assume "\<not> ?thesis"
    then obtain i where "i \<in> set (take (Suc j) xs)" "f (xs ! j) < f i" by (auto simp: filter_empty_conv)
    then obtain a where "a \<le> j" "f (xs ! j) < f (xs ! a)"
      by (auto simp: in_set_conv_nth less_Suc_eq_le)
    with lt [of a j] assms(3) show False by (cases "a = j") auto
  qed
  moreover have "filter (\<lambda>i. f (xs ! j) < f i) (drop (Suc j) xs) = drop (Suc j) xs"
  proof (rule filter_True, rule ballI)
    fix i assume "i \<in> set (drop (Suc j) xs)"
    then obtain a where "a < length xs - Suc j" "i = xs ! (Suc j + a)"
      by (auto simp: in_set_conv_nth)
    with lt [of j "Suc j + a"] show "f (xs ! j) < f i" by simp
  qed
  ultimately show ?thesis
    by (metis (mono_tags, lifting) append_Nil append_take_drop_id filter_append)
qed

lemma after_page:
  assumes "sorted (map coll xs)" "distinct (map coll xs)" "[] \<notin> set xs"
    and rest: "after_token coll tok xs = drop m xs" and n: "0 < n" "n < length (drop m xs)"
  shows "snd (page_ids n (drop m xs)) \<noteq> []"
    and "after_token coll (snd (page_ids n (drop m xs))) xs = drop (m + n) xs"
proof -
  have tok: "snd (page_ids n (drop m xs)) = xs ! (m + n - 1)"
    using n by (simp add: page_ids_def nth_drop)
  have "m + n - 1 < length xs" using n by simp
  then show ne: "snd (page_ids n (drop m xs)) \<noteq> []"
    unfolding tok using assms(3) by (metis nth_mem)
  have "m + n = Suc (m + n - 1)" using n by simp
  with ne show "after_token coll (snd (page_ids n (drop m xs))) xs = drop (m + n) xs"
    unfolding tok after_token_def using filter_after_nth [OF assms(1,2) \<open>m + n - 1 < length xs\<close>] by simp
qed

section \<open>The client sees every key once\<close>

context store_contract
begin

lemma ListKeys_run:
  assumes "inv s" "all_ok c s" "srv_store srv = ops" "ListKeysRequest_GetApiId req \<noteq> []"
    and "distinct ids" "set ids = matching_ids (v_keys (view_of s)) (opts_of req)"
  shows "Server_ListKeys L srv c s req =
    (let res = page_of coll (v_keys (view_of s)) (opts_of req) ids
     in (Inr \<lparr>ListKeysResponse_Keys = map (\<lambda>k. Some (keyToProto L k)) (r_Keys res),
              ListKeysResponse_NextPageToken = r_NextPageToken res\<rparr>, s))"
  using list_keys [OF assms(1) call_okD(1,3) [OF assms(2), of 0] assms(5,6)] assms(4)
  by (simp add: Server_ListKeys_def assms(3) opts_of_def Let_def)

lemma matching_ids_finite:
  assumes "inv s"
  shows "finite (matching_ids (v_keys (view_of s)) opts)"
proof (rule finite_subset [OF _ view_okD_finite [OF view_of_ok [OF assms]]])
  show "matching_ids (v_keys (view_of s)) opts \<subseteq> dom (v_keys (view_of s))"
    by (auto simp: matching_ids_def)
qed

lemma list_from_token:
  assumes "inv s" "\<And>i. all_ok (cs i) s" "srv_store srv = ops" "ListKeysRequest_ApiId req \<noteq> []"
    and ids: "distinct ids" "set ids = matching_ids (v_keys (view_of s)) (opts_of (Some req))"
    and rest: "after_token coll (ListKeysRequest_PageToken req) (sort_key coll ids) =
      drop m (sort_key coll ids)"
    and fuel: "length ids - m < fuel"
  shows "list_every_page fuel L srv cs s req =
    Some (map (\<lambda>i. Some (keyToProto L (the (v_keys (view_of s) i)))) (drop m (sort_key coll ids)))"
  using assms(2,4,6-8)
proof (induction fuel arbitrary: cs req m)
  case (Suc fuel)
  let ?xs = "sort_key coll ids"
  let ?n = "page_size (o_PageSize (opts_of (Some req)))"
  have sorted: "sorted (map coll ?xs)" by simp
  have dist: "distinct (map coll ?xs)"
    using ids(1) inj_on_subset [OF coll_inj subset_UNIV] by (simp add: distinct_map)
  have nonempty: "[] \<notin> set ?xs"
    using Suc.prems(3) view_okD_key(2) [OF view_of_ok [OF assms(1)]] by (auto simp: matching_ids_def)
  define resp where "resp = page_ids ?n (drop m ?xs)"
  have run: "Server_ListKeys L srv (cs 0) s (Some req) =
      (Inr \<lparr>ListKeysResponse_Keys = map (\<lambda>i. Some (keyToProto L (the (v_keys (view_of s) i)))) (fst resp),
            ListKeysResponse_NextPageToken = snd resp\<rparr>, s)"
    using ListKeys_run [OF assms(1) Suc.prems(1) [of 0] assms(3) _ ids(1), of "Some req" L] Suc.prems(2-4)
    by (simp add: page_of_def Let_def opts_of_def resp_def split_beta)
  show ?case
  proof (cases "?n < length (drop m ?xs)")
    case False
    then have "snd resp = []" "fst resp = drop m ?xs" by (simp_all add: resp_def page_ids_def)
    then show ?thesis by (simp add: run)
  next
    case True
    note next_page = after_page [OF sorted dist nonempty _ page_size_pos True]
    have tok: "snd resp \<noteq> []"
      "after_token coll (snd resp) ?xs = drop (m + ?n) ?xs"
      using next_page [of "ListKeysRequest_PageToken req"] Suc.prems(4) by (simp_all add: resp_def)
    have fuel: "length ids - (m + ?n) < fuel"
      using Suc.prems(5) True page_size_pos [of "o_PageSize (opts_of (Some req))"]
      unfolding length_drop length_sort by arith
    let ?req = "req\<lparr>ListKeysRequest_PageToken := snd resp\<rparr>"
    have same: "matching_ids (v_keys (view_of s)) (opts_of (Some ?req)) =
        matching_ids (v_keys (view_of s)) (opts_of (Some req))"
      by (simp add: matching_ids_def key_matches_def opts_of_def)
    have "list_every_page fuel L srv (\<lambda>i. cs (Suc i)) s ?req =
        Some (map (\<lambda>i. Some (keyToProto L (the (v_keys (view_of s) i)))) (drop (m + ?n) ?xs))"
      by (rule Suc.IH) (use Suc.prems(1,2,3) same tok fuel in simp_all)
    moreover have "fst resp @ drop (m + ?n) ?xs = drop m ?xs"
      by (metis (no_types) append_take_drop_id drop_drop add.commute fst_conv page_ids_def resp_def)
    ultimately show ?thesis using tok(1) by (simp add: run flip: map_append)
  qed
qed simp

lemma list_all_complete:
  assumes "inv s" "\<And>i. all_ok (cs i) s" "srv_store srv = ops" "ListKeysRequest_ApiId req \<noteq> []"
    and "ListKeysRequest_PageToken req = []"
    and "card (matching_ids (v_keys (view_of s)) (opts_of (Some req))) < fuel"
  shows "\<exists>ids. list_every_page fuel L srv cs s req =
      Some (map (\<lambda>i. Some (keyToProto L (the (v_keys (view_of s) i)))) ids) \<and>
    distinct ids \<and> set ids = matching_ids (v_keys (view_of s)) (opts_of (Some req)) \<and> sorted (map coll ids)"
proof -
  obtain ids where ids: "distinct ids" "set ids = matching_ids (v_keys (view_of s)) (opts_of (Some req))"
    by (metis finite_distinct_list matching_ids_finite [OF assms(1)])
  then have "length ids < fuel" using assms(6) distinct_card by fastforce
  then have "list_every_page fuel L srv cs s req =
      Some (map (\<lambda>i. Some (keyToProto L (the (v_keys (view_of s) i)))) (drop 0 (sort_key coll ids)))"
    using assms(5) by (intro list_from_token [OF assms(1-4) ids]) (simp_all add: after_token_def)
  then show ?thesis using ids by (intro exI [of _ "sort_key coll ids"]) simp
qed

end

end
