(* ===== verification/KC_MemoryService.thy ===== *)
theory KC_MemoryService
  imports KC_Paging
begin

text \<open>
  The service over the in-memory driver: the properties of the RPCs, obtained from the lemmas of
  the store contract through the driver's interpretation \<open>mem\<close>, with sample runs as witnesses.
  \<open>mem_call_ok\<close> is what a call's environment must satisfy: the uuids are unused and the ranges
  over the key map visit every key once.
\<close>

definition mem_call_ok :: "mem_env call \<Rightarrow> mem_store \<Rightarrow> bool" where
  "mem_call_ok = call_ok (\<lambda>e. True) mem_env_fresh mem_env_range"

lemmas mem_call_okI = mem_call_ok_def [THEN fun_cong, THEN fun_cong, THEN iffD2]

section \<open>Sample data\<close>

definition demo_libs :: "int libs" where
  "demo_libs = \<lparr>lib_sha = (\<lambda>m. m), lib_pb = \<lparr>ts_New = (\<lambda>t. t), ts_AsTime = (\<lambda>t. t)\<rparr>\<rparr>"

definition demo_server :: "'r RateLimiter option \<Rightarrow> (mem_env, mem_store, 'r) Server" where
  "demo_server rl = \<lparr>srv_store = mem_Store, srv_rl = rl\<rparr>"

definition demo_call :: "string \<Rightarrow> string list \<Rightarrow> mem_env call" where
  "demo_call u ks = \<lparr>c_env = (\<lambda>_. \<lparr>me_now = 7, me_uuid = u, me_range = ks\<rparr>), c_now = 5, c_now' = 6,
     c_rand = replicate 32 0\<rparr>"

definition demo_workspace :: Workspace where
  "demo_workspace = \<lparr>w_WorkspaceID = ''ws_1'', w_Name = ''acme'', w_OwnerPrincipalID = ''o'',
     w_CreatedAt = 0, w_UpdatedAt = 0, w_Metadata = None\<rparr>"

definition demo_api :: API where
  "demo_api = \<lparr>a_APIID = ''api_1'', a_WorkspaceID = ''ws_1'', a_Name = ''prod'', a_KeyPrefix = ''ck_'',
     a_CreatedAt = 0, a_UpdatedAt = 0, a_Metadata = None\<rparr>"

definition demo_key :: "int64 \<Rightarrow> LimitRef list \<Rightarrow> Key" where
  "demo_key n refs = \<lparr>k_KeyID = ''key_1'', k_APIID = ''api_1'', k_WorkspaceID = ''ws_1'', k_OwnerPrincipalID = ''u'',
     k_Name = ''k'', k_KeyHash = string_bytes ''secret'', k_Permissions = [''read''], k_LimitRefs = refs,
     k_ExpiresAt = Some 100, k_RemainingUses = n, k_Enabled = True, k_CreatedAt = 0, k_UpdatedAt = 0,
     k_LastVerifiedAt = None, k_Metadata = None\<rparr>"

definition demo_store :: "Key option \<Rightarrow> mem_store" where
  "demo_store k = \<lparr>m_workspaces = [''ws_1'' \<mapsto> demo_workspace], m_apis = [''api_1'' \<mapsto> demo_api],
     m_keys = (case k of None \<Rightarrow> Map.empty | Some k \<Rightarrow> [''key_1'' \<mapsto> k]),
     m_hashIndex = (case k of None \<Rightarrow> Map.empty | Some k \<Rightarrow> [bytes_string (k_KeyHash k) \<mapsto> ''key_1''])\<rparr>"

definition demo_verify :: "string \<Rightarrow> string list \<Rightarrow> PB_VerifyKeyRequest option" where
  "demo_verify p perms = Some \<lparr>VerifyKeyRequest_Plaintext = p, VerifyKeyRequest_RequiredPermissions = perms,
     VerifyKeyRequest_Action = [], VerifyKeyRequest_Cost = 0, VerifyKeyRequest_RequestId = [], VerifyKeyRequest_SkipRatelimit = False\<rparr>"

lemmas demo_defs = demo_libs_def demo_server_def demo_call_def demo_workspace_def demo_api_def
  demo_key_def demo_verify_def

lemma demo_store_inv:
  assumes "\<And>k'. k = Some k' \<Longrightarrow> k_KeyID k' = ''key_1'' \<and> k_APIID k' = ''api_1''"
  shows "mem_inv (demo_store k)"
  using assms
  by (cases k) (auto simp: mem_inv_def mem_view_def view_ok_def view_part_defs index_ok_def demo_store_def
      demo_workspace_def demo_api_def split: if_splits)

lemma demo_inv [simp]: "mem_inv (demo_store None)" "mem_inv (demo_store (Some (demo_key n refs)))"
  by (rule demo_store_inv; simp add: demo_key_def)+

lemma demo_call_ok [simp]:
  "mem_call_ok (demo_call ''2'' []) (demo_store None)"
  "mem_call_ok (demo_call ''2'' [''key_1'']) (demo_store (Some k))"
  by (simp_all add: mem_call_ok_def call_ok_def mem_env_fresh_def mem_env_range_def demo_call_def
      demo_store_def newID_def)

lemma demo_server_sel [simp]: "srv_store (demo_server rl) = mem_Store" "srv_rl (demo_server rl) = rl"
  by (simp_all add: demo_server_def)

lemma demo_store_keys [simp]: "m_keys (demo_store (Some k)) = [''key_1'' \<mapsto> k]"
  by (simp add: demo_store_def)

section \<open>VerifyKey\<close>

text \<open>
  C1: Whatever the request, \<open>VerifyKey\<close> over the in-memory driver returns, keeps the driver's
  invariant, and its response together with its effect on the stored keys and on the rate limiter
  is one of the cases of the abstract verification: unknown key, rejected by a check, limiter
  missing, limiter failing, limited, granted.
\<close>

theorem verify_refines_spec:
  assumes "mem_inv s" "srv_store srv = mem_Store"
  shows "\<exists>res s' r'. Server_VerifyKey L srv c s r req = (res, s', r') \<and> mem_inv s' \<and>
    verify_rel (lib_sha L) (srv_rl srv) (c_now c) (me_now (c_env c 1)) (c_now' c) req
      (mem_view s) r res (mem_view s') r'"
proof -
  obtain res s' r' where "Server_VerifyKey L srv c s r req = (res, s', r')" "mem_inv s'"
    "verify_rel (lib_sha L) (srv_rl srv) (c_now c) (me_now (c_env c 1)) (c_now' c) req
      (mem_view s) r res (mem_view s') r'"
    by (rule mem.verify_refines [OF assms(1) _ assms(2)]) simp
  then show ?thesis by blast
qed

theorem verify_refines_spec_witness:
  "\<exists>res s' r'. Server_VerifyKey demo_libs (demo_server None) (demo_call ''2'' [''key_1''])
      (demo_store (Some (demo_key 3 []))) () (demo_verify ''secret'' [''read'']) = (res, s', r') \<and> mem_inv s'"
  using verify_refines_spec [of "demo_store (Some (demo_key 3 []))" "demo_server None" demo_libs
      "demo_call ''2'' [''key_1'']" "()" "demo_verify ''secret'' [''read'']"] by auto

lemma mem_verify_rel:
  assumes "mem_inv s" "srv_store srv = mem_Store" "Server_VerifyKey L srv c s r req = (res, s', r')"
  shows "verify_rel (lib_sha L) (srv_rl srv) (c_now c) (me_now (c_env c 1)) (c_now' c) req
      (mem_view s) r res (mem_view s') r'" "mem_inv s'"
proof -
  obtain res1 s1 r1 where run: "Server_VerifyKey L srv c s r req = (res1, s1, r1)" "mem_inv s1"
    "verify_rel (lib_sha L) (srv_rl srv) (c_now c) (me_now (c_env c 1)) (c_now' c) req
      (mem_view s) r res1 (mem_view s1) r1"
    by (rule mem.verify_refines [OF assms(1) _ assms(2)]) simp
  then show "verify_rel (lib_sha L) (srv_rl srv) (c_now c) (me_now (c_env c 1)) (c_now' c) req
      (mem_view s) r res (mem_view s') r'" "mem_inv s'"
    using assms(3) by simp_all
qed

lemma demo_verify_run:
  "Server_VerifyKey demo_libs (demo_server None) (demo_call u ks) (demo_store (Some (demo_key 3 []))) ()
     (demo_verify ''secret'' [''read'']) =
   (Inr (granted (demo_key 3 []) []),
    (demo_store (Some (demo_key 3 [])))\<lparr>m_keys := [''key_1'' \<mapsto> used_key 7 6 (demo_key 3 [])]\<rparr>, ())"
  by (simp add: Server_VerifyKey_def demo_store_def demo_defs mem_GetKeyByHash_def keymat_Validate_def
      keymat_Hash_def verify_commit_def mem_DecrementRemainingUses_def mem_TouchLastVerified_def
      granted_def verify_response_def used_key_def Let_def)

text \<open>
  C2: A verification that reports a valid key is right: a stored key has the hash of the presented
  plaintext, is enabled, is not expired at the server's clock, has credit left, carries all the
  required permissions, and its identifier is the one reported; the response's result is VALID; and
  if the key has limit references and the check was not skipped, a configured rate limiter was
  asked and allowed every one. The only change to the store is that key's credit and times.
\<close>

theorem verify_valid_sound:
  assumes "mem_inv s" "srv_store srv = mem_Store"
    and "Server_VerifyKey L srv c s r req = (Inr resp, s', r')" "VerifyKeyResponse_Valid resp"
  shows "VerifyKeyResponse_Result resp = VERIFY_RESULT_VALID \<and>
    (\<exists>k. m_keys s (VerifyKeyResponse_KeyId resp) = Some k \<and>
      k_KeyHash k = keymat_Hash (lib_sha L) (VerifyKeyRequest_GetPlaintext req) \<and> k_Enabled k \<and>
      (\<forall>t. k_ExpiresAt k = Some t \<longrightarrow> c_now c < t) \<and> k_RemainingUses k \<noteq> 0 \<and>
      set (VerifyKeyRequest_GetRequiredPermissions req) \<subseteq> set (k_Permissions k) \<and>
      (\<not> VerifyKeyRequest_GetSkipRatelimit req \<and> k_LimitRefs k \<noteq> [] \<longrightarrow>
        (\<exists>consume ds. srv_rl srv = Some consume \<and>
          consume r (k_LimitRefs k) (limitCost (VerifyKeyRequest_GetCost req))
            (VerifyKeyRequest_GetRequestId req) = (Inr ds, r') \<and> (\<forall>d \<in> set ds. ld_Allowed d))) \<and>
      mem_view s' = (mem_view s)\<lparr>v_keys := (m_keys s)(VerifyKeyResponse_KeyId resp \<mapsto>
        used_key (me_now (c_env c 1)) (c_now' c) k)\<rparr>)"
proof -
  note rel = mem_verify_rel(1) [OF assms(1-3)]
  have result: "VerifyKeyResponse_Result resp = VERIFY_RESULT_VALID"
    using verify_rel_valid [OF rel] assms(4) by simp
  obtain i k where k: "v_keys (mem_view s) i = Some k"
      "k_KeyHash k = keymat_Hash (lib_sha L) (VerifyKeyRequest_GetPlaintext req)"
    and gate: "verify_gate (c_now c) (VerifyKeyRequest_GetRequiredPermissions req) k = None"
    and v': "mem_view s' = (mem_view s)\<lparr>v_keys := (v_keys (mem_view s))(i \<mapsto>
      used_key (me_now (c_env c 1)) (c_now' c) k)\<rparr>"
    and id: "VerifyKeyResponse_KeyId resp = k_KeyID k"
    and lim: "limiter_consulted req k \<longrightarrow> (\<exists>consume ds. srv_rl srv = Some consume \<and>
      consume r (k_LimitRefs k) (limitCost (VerifyKeyRequest_GetCost req))
        (VerifyKeyRequest_GetRequestId req) = (Inr ds, r') \<and> (\<forall>d \<in> set ds. ld_Allowed d))"
    by (rule verify_rel_valid_cases [OF rel assms(4)])
  have i: "VerifyKeyResponse_KeyId resp = i"
    using id view_okD_key(1) [OF mem.view_of_ok [OF assms(1)] k(1)] by simp
  from gate have g: "k_Enabled k" "\<forall>t. k_ExpiresAt k = Some t \<longrightarrow> c_now c < t" "k_RemainingUses k \<noteq> 0"
    "set (VerifyKeyRequest_GetRequiredPermissions req) \<subseteq> set (k_Permissions k)"
    by (auto simp: verify_gate_def not_le split: if_splits)
  show ?thesis unfolding i using result k g v' lim
    by (intro conjI exI [of _ k]) (simp_all add: limiter_consulted_def)
qed

theorem verify_valid_sound_witness:
  "\<exists>k. m_keys (demo_store (Some (demo_key 3 []))) ''key_1'' = Some k \<and>
     k_KeyHash k = keymat_Hash (\<lambda>m. m) ''secret'' \<and> k_Enabled k \<and> k_RemainingUses k \<noteq> 0"
proof -
  have id: "VerifyKeyResponse_KeyId (granted (demo_key 3 []) []) = ''key_1''"
    "VerifyKeyResponse_Valid (granted (demo_key 3 []) [])"
    by (simp_all add: granted_def verify_response_def demo_key_def)
  show ?thesis
    using verify_valid_sound [OF demo_inv(2) demo_server_sel(1) demo_verify_run id(2)]
    by (simp add: id demo_libs_def demo_verify_def)
qed

text \<open>
  C3: A verification that does not report a valid key, be it a rejection or an error status, leaves
  every stored workspace, API and key exactly as it was.
\<close>

theorem verify_invalid_no_effect:
  assumes "mem_inv s" "srv_store srv = mem_Store"
    and "Server_VerifyKey L srv c s r req = (res, s', r')"
    and "\<And>resp. res = Inr resp \<Longrightarrow> \<not> VerifyKeyResponse_Valid resp"
  shows "mem_view s' = mem_view s"
  using verify_rel_unchanged [OF mem_verify_rel(1) [OF assms(1-3)] assms(4)] .

lemma demo_verify_forbidden:
  "Server_VerifyKey demo_libs (demo_server None) (demo_call u ks) (demo_store (Some (demo_key 3 []))) ()
     (demo_verify ''secret'' [''write'']) =
   (Inr (rejected (verify_response (demo_key 3 [])) VERIFY_RESULT_FORBIDDEN), demo_store (Some (demo_key 3 [])), ())"
  by (simp add: Server_VerifyKey_def demo_store_def demo_defs mem_GetKeyByHash_def keymat_Validate_def
      keymat_Hash_def)

theorem verify_invalid_no_effect_witness:
  "mem_view (fst (snd (Server_VerifyKey demo_libs (demo_server None) (demo_call ''2'' [])
     (demo_store (Some (demo_key 3 []))) () (demo_verify ''secret'' [''write''])))) =
   mem_view (demo_store (Some (demo_key 3 [])))"
proof -
  have "\<not> VerifyKeyResponse_Valid (rejected (verify_response (demo_key 3 [])) VERIFY_RESULT_FORBIDDEN)"
    by (simp add: rejected_def verify_response_def)
  then show ?thesis
    using verify_invalid_no_effect [OF demo_inv(2) demo_server_sel(1) demo_verify_forbidden]
    by (simp add: demo_verify_forbidden)
qed

text \<open>
  C24: The rate limiter is charged last: if a verification changed its state, the presented key
  exists, passed the revocation, expiry, credit and permission checks, has limit references, and
  the caller did not ask to skip the check. In particular no rejected request burns the quota of a
  key it could not have used.
\<close>

theorem limiter_charged_last:
  assumes "mem_inv s" "srv_store srv = mem_Store"
    and "Server_VerifyKey L srv c s r req = (res, s', r')" "r' \<noteq> r"
  shows "\<exists>i k. m_keys s i = Some k \<and> k_KeyHash k = keymat_Hash (lib_sha L) (VerifyKeyRequest_GetPlaintext req) \<and>
    verify_gate (c_now c) (VerifyKeyRequest_GetRequiredPermissions req) k = None \<and>
    \<not> VerifyKeyRequest_GetSkipRatelimit req \<and> k_LimitRefs k \<noteq> []"
  using verify_rel_limiter [OF mem_verify_rel(1) [OF assms(1-3)] assms(4)] mem_view_sel(3) by metis

definition demo_refs :: "LimitRef list" where
  "demo_refs = [\<lparr>lr_LimitID = ''tokens'', lr_ScopeKey = ''u''\<rparr>]"

text \<open>A limiter that counts its calls and denies everything.\<close>

definition demo_deny :: "nat RateLimiter" where
  "demo_deny n refs cost rid = (Inr (map (\<lambda>r. \<lparr>ld_LimitID = lr_LimitID r, ld_ScopeKey = lr_ScopeKey r,
     ld_Allowed = False, ld_Remaining = 0, ld_RetryAfterMs = 0\<rparr>) refs), Suc n)"

lemma demo_verify_limited:
  "\<exists>res. Server_VerifyKey demo_libs (demo_server (Some demo_deny)) (demo_call u ks)
     (demo_store (Some (demo_key 3 demo_refs))) 0 (demo_verify ''secret'' [''read'']) =
   (Inr res, demo_store (Some (demo_key 3 demo_refs)), 1) \<and> VerifyKeyResponse_Result res = VERIFY_RESULT_RATE_LIMITED"
  by (simp add: Server_VerifyKey_def demo_store_def demo_defs mem_GetKeyByHash_def keymat_Validate_def
      keymat_Hash_def demo_refs_def demo_deny_def Let_def rejected_def)

theorem limiter_charged_last_witness:
  "\<exists>i k. m_keys (demo_store (Some (demo_key 3 demo_refs))) i = Some k \<and> k_LimitRefs k \<noteq> []"
proof -
  obtain res where run: "Server_VerifyKey demo_libs (demo_server (Some demo_deny)) (demo_call [] [])
     (demo_store (Some (demo_key 3 demo_refs))) 0 (demo_verify ''secret'' [''read'']) =
   (Inr res, demo_store (Some (demo_key 3 demo_refs)), 1)" using demo_verify_limited by blast
  show ?thesis using limiter_charged_last [OF demo_inv(2) demo_server_sel(1) run] by (auto split: if_splits)
qed

section \<open>Revocation, rotation, issuance\<close>

text \<open>
  C7: Revocation is final. After \<open>RevokeKey\<close> succeeded for a key, and after any further RPCs
  (rotations of that key included), no verification that resolves to that key reports anything but
  REVOKED, and it touches neither the store nor the rate limiter.
\<close>

theorem revocation_final:
  assumes "mem_inv s0" "mem_call_ok c0 s0" "srv_store srv = mem_Store"
    and "Server_RevokeKey srv c0 s0 req0 = (Inr PB_RevokeKeyResponse, s1)"
    and "rpc_reachable L srv mem_call_ok (s1, r1) (s, r)"
    and "Server_VerifyKey L srv c s r req = (Inr resp, s', r')"
    and "VerifyKeyResponse_KeyId resp = RevokeKeyRequest_GetKeyId req0"
  shows "VerifyKeyResponse_Result resp = VERIFY_RESULT_REVOKED \<and> s' = s \<and> r' = r"
  by (rule mem.revoke_is_final [OF assms(1) assms(2) [unfolded mem_call_ok_def] assms(3) refl assms(4)
      assms(5) [unfolded mem_call_ok_def] TrueI assms(6,7)])

definition demo_revoked :: Key where
  "demo_revoked = (demo_key 3 [])\<lparr>k_Enabled := False, k_UpdatedAt := 7\<rparr>"

lemma demo_revoke_run:
  "Server_RevokeKey (demo_server None) (demo_call ''2'' [''key_1'']) (demo_store (Some (demo_key 3 [])))
     (Some \<lparr>RevokeKeyRequest_KeyId = ''key_1''\<rparr>) = (Inr PB_RevokeKeyResponse, demo_store (Some demo_revoked))"
  by (simp add: Server_RevokeKey_def demo_store_def demo_defs mem_RevokeKey_def demo_revoked_def Let_def)

theorem revocation_final_witness:
  "\<exists>resp s'. Server_VerifyKey demo_libs (demo_server None) (demo_call ''2'' [''key_1''])
     (demo_store (Some demo_revoked)) () (demo_verify ''secret'' []) = (Inr resp, s', ()) \<and>
   VerifyKeyResponse_Result resp = VERIFY_RESULT_REVOKED \<and> s' = demo_store (Some demo_revoked)"
proof -
  have run: "Server_VerifyKey demo_libs (demo_server None) (demo_call ''2'' [''key_1''])
     (demo_store (Some demo_revoked)) () (demo_verify ''secret'' []) =
     (Inr (rejected (verify_response demo_revoked) VERIFY_RESULT_REVOKED), demo_store (Some demo_revoked), ())"
    by (simp add: Server_VerifyKey_def demo_store_def demo_defs mem_GetKeyByHash_def keymat_Validate_def
        keymat_Hash_def demo_revoked_def)
  have id: "VerifyKeyResponse_KeyId (rejected (verify_response demo_revoked) VERIFY_RESULT_REVOKED) =
      RevokeKeyRequest_GetKeyId (Some \<lparr>RevokeKeyRequest_KeyId = ''key_1''\<rparr>)"
    by (simp add: rejected_def verify_response_def demo_revoked_def demo_key_def)
  show ?thesis
    using revocation_final [OF demo_inv(2) demo_call_ok(2) demo_server_sel(1) demo_revoke_run
        rpc_reachable.start run id] run by blast
qed

text \<open>
  C8: Rotation replaces the secret and nothing else. After a successful \<open>RotateKey\<close> the identifier
  is the same, the old plaintext is unknown, and the new plaintext is answered at the same time of
  day with exactly the response and the limiter effect the old one would have had before (provided
  the two plaintexts have different hashes).
\<close>

theorem rotation_swaps_secret:
  assumes "mem_inv s" "mem_call_ok c s" "srv_store srv = mem_Store"
    and "Server_RotateKey L srv c s req = (Inr resp, s')"
    and "VerifyKeyRequest_GetPlaintext req1 \<noteq> []" "m_keys s (RotateKeyRequest_GetKeyId req) = Some k"
      "k_KeyHash k = keymat_Hash (lib_sha L) (VerifyKeyRequest_GetPlaintext req1)"
    and "VerifyKeyRequest_GetPlaintext req2 = RotateKeyResponse_Plaintext resp"
    and "VerifyKeyRequest_GetRequiredPermissions req2 = VerifyKeyRequest_GetRequiredPermissions req1"
      "VerifyKeyRequest_GetSkipRatelimit req2 = VerifyKeyRequest_GetSkipRatelimit req1"
      "VerifyKeyRequest_GetCost req2 = VerifyKeyRequest_GetCost req1"
      "VerifyKeyRequest_GetRequestId req2 = VerifyKeyRequest_GetRequestId req1"
    and "keymat_Hash (lib_sha L) (VerifyKeyRequest_GetPlaintext req1) \<noteq>
      keymat_Hash (lib_sha L) (VerifyKeyRequest_GetPlaintext req2)"
  shows "Server_VerifyKey L srv c1 s' r req1 = (Inr notFound, s', r) \<and>
    fst (Server_VerifyKey L srv c1 s' r req2) = fst (Server_VerifyKey L srv c1 s r req1) \<and>
    map_option ApiKey_KeyId (RotateKeyResponse_Key resp) = Some (RotateKeyRequest_GetKeyId req)"
proof -
  have key: "v_keys (mem_view s) (RotateKeyRequest_GetKeyId req) = Some k" using assms(6) by simp
  note r = mem.rotated_outcome [where ?c1.0 = c1 and ?c2.0 = c1, OF assms(1) assms(2) [unfolded mem_call_ok_def] assms(3,4) TrueI TrueI assms(5) key
      assms(7-12) refl assms(13)]
  show ?thesis using r(1,2) [where r = r] r(3) by simp
qed

definition demo_secret :: string where
  "demo_secret = ''ck_'' @ b32_EncodeToString (replicate 32 0)"

definition demo_rotated :: Key where
  "demo_rotated = (demo_key 3 [])\<lparr>k_KeyHash := string_bytes demo_secret, k_UpdatedAt := 7\<rparr>"

lemma demo_secret_differs: "string_bytes demo_secret \<noteq> string_bytes ''secret''"
  by (simp add: demo_secret_def)

lemma demo_New: "keymat_New (\<lambda>m. m) ''ck_'' (replicate 32 0) = (Inr (demo_secret, string_bytes demo_secret), [])"
  by (simp add: keymat_New_ok RandomBytes_def keymat_Hash_def demo_secret_def)

lemma demo_rotate_run:
  "\<exists>s'. Server_RotateKey demo_libs (demo_server None) (demo_call ''2'' [''key_1'']) (demo_store (Some (demo_key 3 [])))
     (Some \<lparr>RotateKeyRequest_KeyId = ''key_1''\<rparr>) =
   (Inr \<lparr>RotateKeyResponse_Key = Some (keyToProto demo_libs demo_rotated),
         RotateKeyResponse_Plaintext = demo_secret\<rparr>, s')"
  using demo_New demo_secret_differs
  by (simp add: Server_RotateKey_def demo_store_def demo_defs mem_RotateKey_def demo_rotated_def
      mem_GetKeyByID_def mem_GetAPI_def Let_def)

theorem rotation_swaps_secret_witness:
  "\<exists>s'. Server_VerifyKey demo_libs (demo_server None) (demo_call ''2'' []) s' () (demo_verify ''secret'' []) =
     (Inr notFound, s', ()) \<and>
   fst (Server_VerifyKey demo_libs (demo_server None) (demo_call ''2'' []) s' () (demo_verify demo_secret [])) =
   fst (Server_VerifyKey demo_libs (demo_server None) (demo_call ''2'' []) (demo_store (Some (demo_key 3 []))) ()
     (demo_verify ''secret'' []))"
proof -
  obtain s' where run: "Server_RotateKey demo_libs (demo_server None :: (_, _, unit) Server) (demo_call ''2'' [''key_1''])
      (demo_store (Some (demo_key 3 []))) (Some \<lparr>RotateKeyRequest_KeyId = ''key_1''\<rparr>) =
    (Inr \<lparr>RotateKeyResponse_Key = Some (keyToProto demo_libs demo_rotated),
         RotateKeyResponse_Plaintext = demo_secret\<rparr>, s')" using demo_rotate_run by blast
  show ?thesis
    using rotation_swaps_secret [OF demo_inv(2) demo_call_ok(2) demo_server_sel(1) run,
        of "demo_verify ''secret'' []" "demo_key 3 []" "demo_verify demo_secret []" "demo_call ''2'' []" "()"]
      demo_secret_differs
    by (intro exI [of _ s']) (auto simp: demo_verify_def demo_libs_def demo_key_def keymat_Hash_def)
qed

text \<open>
  Issue, then verify. After a successful \<open>CreateKey\<close>, presenting the returned plaintext with
  permissions among those requested, before the requested expiry, is reported valid under the
  identifier, API, owner and permissions of the created key (keys with limit references need the
  limiter, which this statement leaves out).
\<close>

theorem issued_key_verifies:
  assumes "mem_inv s" "mem_call_ok c s" "srv_store srv = mem_Store"
    and "Server_CreateKey L srv c s req = (Inr resp, s')"
    and "VerifyKeyRequest_GetPlaintext req2 = CreateKeyResponse_Plaintext resp"
      "set (VerifyKeyRequest_GetRequiredPermissions req2) \<subseteq> set (CreateKeyRequest_GetPermissions req)"
      "VerifyKeyRequest_GetSkipRatelimit req2 \<or> CreateKeyRequest_GetLimitRefs req = []"
    and "\<And>t. timeFromProto L (CreateKeyRequest_GetExpiresAt req) = Some t \<Longrightarrow> c_now c2 < t"
  shows "\<exists>pk vresp s2. CreateKeyResponse_Key resp = Some pk \<and>
    Server_VerifyKey L srv c2 s' r req2 = (Inr vresp, s2, r) \<and> VerifyKeyResponse_Valid vresp \<and>
    VerifyKeyResponse_Result vresp = VERIFY_RESULT_VALID \<and>
    VerifyKeyResponse_KeyId vresp = ApiKey_KeyId pk \<and>
    VerifyKeyResponse_ApiId vresp = CreateKeyRequest_GetApiId req \<and>
    VerifyKeyResponse_OwnerPrincipalId vresp = CreateKeyRequest_GetOwnerPrincipalId req \<and>
    VerifyKeyResponse_Permissions vresp = CreateKeyRequest_GetPermissions req"
proof -
  obtain k s2 where "Server_VerifyKey L srv c2 s' r req2 = (Inr (granted k []), s2, r)"
    "k_APIID k = CreateKeyRequest_GetApiId req" "k_OwnerPrincipalID k = CreateKeyRequest_GetOwnerPrincipalId req"
    "k_Permissions k = CreateKeyRequest_GetPermissions req"
    "map_option ApiKey_KeyId (CreateKeyResponse_Key resp) = Some (k_KeyID k)"
    using mem.issued_verifies [OF assms(1) assms(2) [unfolded mem_call_ok_def] assms(3,4) TrueI assms(5-8)]
    by blast
  then show ?thesis by (auto simp: granted_def verify_response_def)
qed

definition demo_create :: "int PB_CreateKeyRequest option" where
  "demo_create = Some \<lparr>CreateKeyRequest_ApiId = ''api_1'', CreateKeyRequest_OwnerPrincipalId = ''u'',
     CreateKeyRequest_Name = ''k'', CreateKeyRequest_Permissions = [''read''], CreateKeyRequest_LimitRefs = [],
     CreateKeyRequest_ExpiresAt = Some 100, CreateKeyRequest_RemainingUses = 0, CreateKeyRequest_Metadata = None\<rparr>"

lemma demo_create_run:
  "\<exists>k s'. Server_CreateKey demo_libs (demo_server rl) (demo_call ''2'' []) (demo_store None) demo_create =
     (Inr \<lparr>CreateKeyResponse_Key = Some k, CreateKeyResponse_Plaintext = demo_secret\<rparr>, s')"
  using demo_New
  by (simp add: Server_CreateKey_def demo_store_def demo_defs mem_GetAPI_def mem_CreateKey_def demo_create_def
      key_of_request_def Let_def)

theorem issued_key_verifies_witness:
  "\<exists>s' vresp s2. Server_VerifyKey demo_libs (demo_server None) (demo_call ''3'' []) s' () (demo_verify demo_secret [''read'']) =
     (Inr vresp, s2, ()) \<and> VerifyKeyResponse_Valid vresp"
proof -
  obtain k s' where run: "Server_CreateKey demo_libs (demo_server None :: (_, _, unit) Server) (demo_call ''2'' [])
      (demo_store None) demo_create =
     (Inr \<lparr>CreateKeyResponse_Key = Some k, CreateKeyResponse_Plaintext = demo_secret\<rparr>, s')"
    using demo_create_run by blast
  show ?thesis
    using issued_key_verifies [OF demo_inv(1) demo_call_ok(1) demo_server_sel(1) run,
        of "demo_verify demo_secret [''read'']" "demo_call ''3'' []" "()"]
    by (auto simp: demo_verify_def demo_create_def timeFromProto_def demo_libs_def demo_call_def)
qed

text \<open>
  C6: A credit of \<open>n\<close> buys exactly \<open>n\<close> verifications. For an enabled, limited key (credit \<open>n \<ge> 0\<close>)
  and any sequence of verifications that present it before it expires, with permissions it has and
  no limiter involved, the first \<open>n\<close> are VALID and all later ones DEPLETED.
\<close>

theorem credit_is_exact:
  assumes "mem_inv s" "srv_store srv = mem_Store" "m_keys s i = Some k" "k_Enabled k"
    and "0 \<le> sint (k_RemainingUses k)" "\<forall>(c, req) \<in> set calls. presents L c req k"
  shows "let n = nat (sint (k_RemainingUses k)); out = fst (verify_seq L srv s r calls)
    in length out = length calls \<and> (\<forall>res \<in> set (take n out). result_is VERIFY_RESULT_VALID res) \<and>
       (\<forall>res \<in> set (drop n out). result_is VERIFY_RESULT_DEPLETED res)"
proof (rule mem.credit_spent [OF assms(1,2) _ assms(4,5)])
  show "v_keys (mem_view s) i = Some k" using assms(3) by simp
  show "\<forall>(c, req) \<in> set calls. (\<forall>n. True) \<and> presents L c req k" using assms(6) by simp
qed

theorem credit_is_exact_witness:
  "\<exists>a b. fst (verify_seq demo_libs (demo_server None) (demo_store (Some (demo_key 1 []))) ()
      [(demo_call ''2'' [], demo_verify ''secret'' [''read'']), (demo_call ''3'' [], demo_verify ''secret'' [])]) =
     [a, b] \<and> result_is VERIFY_RESULT_VALID a \<and> result_is VERIFY_RESULT_DEPLETED b"
proof -
  let ?calls = "[(demo_call ''2'' [], demo_verify ''secret'' [''read'']), (demo_call ''3'' [], demo_verify ''secret'' [])]"
  have p: "\<forall>(c, req) \<in> set ?calls. presents demo_libs c req (demo_key 1 [])"
    by (simp add: presents_def demo_defs keymat_Hash_def limiter_consulted_def)
  define out where "out = fst (verify_seq demo_libs (demo_server None) (demo_store (Some (demo_key 1 []))) () ?calls)"
  have n: "nat (sint (k_RemainingUses (demo_key 1 []))) = 1" by (simp add: demo_key_def)
  have k: "m_keys (demo_store (Some (demo_key 1 []))) ''key_1'' = Some (demo_key 1 [])" "k_Enabled (demo_key 1 [])"
    "0 \<le> sint (k_RemainingUses (demo_key 1 []))" by (simp_all add: demo_key_def)
  have spent: "length out = length ?calls" "\<forall>res \<in> set (take 1 out). result_is VERIFY_RESULT_VALID res"
    "\<forall>res \<in> set (drop 1 out). result_is VERIFY_RESULT_DEPLETED res"
    using credit_is_exact [OF demo_inv(2) demo_server_sel(1) k p, of None "()"] unfolding n out_def Let_def by blast+
  then obtain a b where "out = [a, b]" by (cases out; cases "tl out") auto
  with spent show ?thesis unfolding out_def by auto
qed

section \<open>Runs of the service\<close>

text \<open>
  C10: In every state the service reaches from an empty store by any sequence of RPCs, the driver's
  invariant holds (records under their identifiers, parents exist, hashes unique, the hash index
  exact), every key belongs to the workspace of its API, and every key is unlimited with a credit
  of exactly -1 or has a credit that is not negative.
\<close>

theorem service_invariant:
  assumes "rpc_reachable L srv mem_call_ok (mem_New, r0) (s, r)" "srv_store srv = mem_Store"
  shows "mem_inv s \<and> tenant_ok (mem_view s) \<and> credit_ok (mem_view s)"
proof -
  have "mem_view mem_New = empty_view" by (simp add: mem_view_def mem_New_def empty_view_def)
  then show ?thesis
    using mem.reachable_ok [OF assms(1) [unfolded mem_call_ok_def] assms(2) mem_inv_New] by simp
qed

theorem service_invariant_witness:
  "tenant_ok (mem_view (snd (Server_CreateWorkspace demo_libs (demo_server None :: (_, _, unit) Server)
     (demo_call ''2'' []) mem_New (Some \<lparr>CreateWorkspaceRequest_Name = ''acme'',
       CreateWorkspaceRequest_OwnerPrincipalId = ''o'', CreateWorkspaceRequest_Metadata = None\<rparr>))))"
proof -
  let ?req = "Some \<lparr>CreateWorkspaceRequest_Name = ''acme'',
       CreateWorkspaceRequest_OwnerPrincipalId = ''o'', CreateWorkspaceRequest_Metadata = None\<rparr>"
  have ok: "mem_call_ok (demo_call ''2'' []) mem_New"
    by (simp add: mem_call_ok_def call_ok_def mem_env_fresh_def mem_env_range_def demo_call_def mem_New_def)
  obtain res s' where run: "Server_CreateWorkspace demo_libs (demo_server None :: (_, _, unit) Server)
      (demo_call ''2'' []) mem_New ?req = (res, s')" by (rule prod.exhaust)
  have "rpc_reachable demo_libs (demo_server None) mem_call_ok (mem_New, ()) (s', ())"
    by (rule rpc_reachable.step [OF rpc_reachable.start rpc_step.CreateWorkspace [where ok = mem_call_ok, OF ok run]])
  from service_invariant [OF this demo_server_sel(1)] show ?thesis by (simp add: run)
qed

text \<open>
  C11: What a stored key can become. Whatever RPCs are run, a key is never lost; its identifier, API,
  workspace, owner, name, permissions, limit references, expiry, creation time and metadata never
  change; a revoked key is never enabled again; and its credit is unchanged or strictly smaller and
  not negative, so neither a wrap-around nor a top-up is possible.
\<close>

theorem key_lifecycle:
  assumes "rpc_reachable L srv mem_call_ok (s0, r0) (s, r)" "srv_store srv = mem_Store" "mem_inv s0"
    and "m_keys s0 i = Some k"
  shows "\<exists>k'. m_keys s i = Some k' \<and> key_evolves k k'"
  using mem.reachable_key [OF assms(1) [unfolded mem_call_ok_def] assms(2,3), of i k] assms(4) by simp

theorem key_lifecycle_witness:
  "\<exists>k'. m_keys (demo_store (Some demo_revoked)) ''key_1'' = Some k' \<and> key_evolves (demo_key 3 []) k'"
proof -
  have "rpc_reachable demo_libs (demo_server None) mem_call_ok (demo_store (Some (demo_key 3 [])), ())
      (demo_store (Some demo_revoked), ())"
    by (rule rpc_reachable.step [OF rpc_reachable.start
        rpc_step.RevokeKey [where ok = mem_call_ok, OF demo_call_ok(2) demo_revoke_run]])
  from key_lifecycle [OF this demo_server_sel(1) demo_inv(2), of "''key_1''" "demo_key 3 []"] show ?thesis by simp
qed

section \<open>Listing and lookups\<close>

text \<open>
  C27: Paging is complete and ends. A client that starts without a token and follows the returned
  tokens receives, after at most one call more than there are matching keys, every key of the API
  (and owner, when given) exactly once, in the order of their identifiers, whatever the page size.
\<close>

theorem paging_complete:
  assumes "mem_inv s" "\<And>i. mem_call_ok (cs i) s" "srv_store srv = mem_Store"
    and "ListKeysRequest_ApiId req \<noteq> []" "ListKeysRequest_PageToken req = []"
    and "card (matching_ids (m_keys s) (opts_of (Some req))) < fuel"
  shows "\<exists>ids. list_every_page fuel L srv cs s req =
      Some (map (\<lambda>i. Some (keyToProto L (the (m_keys s i)))) ids) \<and>
    distinct ids \<and> set ids = matching_ids (m_keys s) (opts_of (Some req)) \<and> sorted ids"
  using mem.list_all_complete [OF assms(1) assms(2) [unfolded mem_call_ok_def] assms(3-5), of fuel L] assms(6)
  by simp

definition demo_list :: PB_ListKeysRequest where
  "demo_list = \<lparr>ListKeysRequest_ApiId = ''api_1'', ListKeysRequest_OwnerPrincipalId = [],
     ListKeysRequest_PageSize = 1, ListKeysRequest_PageToken = []\<rparr>"

theorem paging_complete_witness:
  "list_every_page 2 demo_libs (demo_server None :: (_, _, unit) Server) (\<lambda>_. demo_call ''2'' [''key_1''])
     (demo_store (Some (demo_key 3 []))) demo_list = Some [Some (keyToProto demo_libs (demo_key 3 []))]"
proof -
  have one: "matching_ids (m_keys (demo_store (Some (demo_key 3 [])))) (opts_of (Some demo_list)) = {''key_1''}"
    by (auto simp: matching_ids_def key_matches_def opts_of_def demo_list_def demo_key_def split: if_splits)
  have few: "card (matching_ids (m_keys (demo_store (Some (demo_key 3 [])))) (opts_of (Some demo_list))) < 2"
    unfolding one by simp
  have req: "ListKeysRequest_ApiId demo_list \<noteq> []" "ListKeysRequest_PageToken demo_list = []"
    by (simp_all add: demo_list_def)
  obtain ids where ids: "list_every_page 2 demo_libs (demo_server None :: (_, _, unit) Server)
      (\<lambda>_. demo_call ''2'' [''key_1'']) (demo_store (Some (demo_key 3 []))) demo_list =
      Some (map (\<lambda>i. Some (keyToProto demo_libs (the (m_keys (demo_store (Some (demo_key 3 []))) i)))) ids)"
    "distinct ids" "set ids = {''key_1''}"
    using paging_complete [OF demo_inv(2) demo_call_ok(2) demo_server_sel(1) req few] unfolding one by blast
  from ids(2,3) have "ids = [''key_1'']"
    by (cases ids; cases "tl ids") auto
  with ids(1) show ?thesis by simp
qed

text \<open>Two stores that differ in nothing but the stored hashes (and the index over them).\<close>

definition erase_hash :: "Key \<Rightarrow> Key" where
  "erase_hash k = k\<lparr>k_KeyHash := []\<rparr>"

definition same_but_hashes :: "mem_store \<Rightarrow> mem_store \<Rightarrow> bool" where
  "same_but_hashes s t \<longleftrightarrow> (\<forall>i. map_option erase_hash (m_keys s i) = map_option erase_hash (m_keys t i))"

lemma keyToProto_erase: "keyToProto L (erase_hash k) = keyToProto L k"
  by (simp add: keyToProto_def erase_hash_def Let_def split: option.split)

lemma erase_hash_eqD:
  assumes "erase_hash k = erase_hash k'"
  shows "k_APIID k = k_APIID k'" "k_OwnerPrincipalID k = k_OwnerPrincipalID k'"
    "keyToProto L k = keyToProto L k'"
proof -
  show "k_APIID k = k_APIID k'" using arg_cong [OF assms, of k_APIID] by (simp add: erase_hash_def)
  show "k_OwnerPrincipalID k = k_OwnerPrincipalID k'"
    using arg_cong [OF assms, of k_OwnerPrincipalID] by (simp add: erase_hash_def)
  show "keyToProto L k = keyToProto L k'" using assms by (metis keyToProto_erase)
qed

lemma collect_ids_same:
  assumes "same_but_hashes s t"
  shows "collect_ids opts (m_keys s) order = collect_ids opts (m_keys t) order"
proof (induction order)
  case (Cons i order)
  from assms have e: "map_option erase_hash (m_keys s i) = map_option erase_hash (m_keys t i)"
    by (simp add: same_but_hashes_def)
  show ?case
  proof (cases "m_keys s i")
    case None
    with e have "m_keys t i = None" by simp
    with None Cons show ?thesis by simp
  next
    case (Some k)
    with e obtain k' where "m_keys t i = Some k'" "erase_hash k = erase_hash k'" by (cases "m_keys t i") auto
    with Some Cons erase_hash_eqD(1,2) [of k k'] show ?thesis by simp
  qed
qed simp

lemma proto_same:
  assumes "same_but_hashes s t"
  shows "keyToProto L (case m_keys s i of None \<Rightarrow> zero_Key | Some k \<Rightarrow> k) =
    keyToProto L (case m_keys t i of None \<Rightarrow> zero_Key | Some k \<Rightarrow> k)"
proof -
  from assms have e: "map_option erase_hash (m_keys s i) = map_option erase_hash (m_keys t i)"
    by (simp add: same_but_hashes_def)
  then show ?thesis
    using erase_hash_eqD(3) by (cases "m_keys s i"; cases "m_keys t i") auto
qed

text \<open>
  C29: The stored hashes never leave the store. Two stores that differ only in the hashes of their
  keys answer every \<open>GetKey\<close> and every \<open>ListKeys\<close> request with the same response.
\<close>

theorem reads_hide_hashes:
  assumes "same_but_hashes s t" "srv_store srv = mem_Store"
  shows "fst (Server_GetKey L srv c s req) = fst (Server_GetKey L srv c t req) \<and>
    fst (Server_ListKeys L srv c s req') = fst (Server_ListKeys L srv c t req')"
proof
  let ?i = "GetKeyRequest_GetKeyId req"
  have e: "map_option erase_hash (m_keys s ?i) = map_option erase_hash (m_keys t ?i)"
    using assms(1) by (simp add: same_but_hashes_def)
  show "fst (Server_GetKey L srv c s req) = fst (Server_GetKey L srv c t req)"
    using e erase_hash_eqD(3)
    by (cases "m_keys s ?i"; cases "m_keys t ?i") (auto simp: Server_GetKey_def assms(2) mem_GetKeyByID_def)
  have ids: "collect_ids opts (m_keys s) order = collect_ids opts (m_keys t) order" for opts order
    by (rule collect_ids_same [OF assms(1)])
  show "fst (Server_ListKeys L srv c s req') = fst (Server_ListKeys L srv c t req')"
    by (simp add: Server_ListKeys_def assms(2) mem_ListKeys_def Let_def ids proto_same [OF assms(1)] comp_def)
qed

theorem reads_hide_hashes_witness:
  "fst (Server_GetKey demo_libs (demo_server None :: (_, _, unit) Server) (demo_call ''2'' [])
     (demo_store (Some (demo_key 3 []))) (Some \<lparr>GetKeyRequest_KeyId = ''key_1''\<rparr>)) =
   fst (Server_GetKey demo_libs (demo_server None :: (_, _, unit) Server) (demo_call ''2'' [])
     (demo_store (Some ((demo_key 3 [])\<lparr>k_KeyHash := [1, 2, 3]\<rparr>))) (Some \<lparr>GetKeyRequest_KeyId = ''key_1''\<rparr>))"
proof -
  have "same_but_hashes (demo_store (Some (demo_key 3 []))) (demo_store (Some ((demo_key 3 [])\<lparr>k_KeyHash := [1, 2, 3]\<rparr>)))"
    by (simp add: same_but_hashes_def erase_hash_def)
  from reads_hide_hashes [OF this demo_server_sel(1)] show ?thesis by blast
qed

end
