(* ===== verification/KC_Concurrent.thy ===== *)
theory KC_Concurrent
  imports KC_MemoryService
begin

text \<open>
  Concurrent verifications. \<open>VerifyKey\<close> makes up to three store calls, and other requests may run
  between them. Here the handler is cut at its store calls into three phases (lookup and checks,
  decrement, touch); \<open>verify_phases\<close> says that running the phases one after the other is the handler.
  A system of verifications then takes steps of single phases, in any order, interleaved with
  \<open>RevokeKey\<close>, \<open>RotateKey\<close> and \<open>CreateKey\<close> calls. The call of a store method is atomic, as the mutex
  of the in-memory driver makes it; \<open>KC_PgConcurrent\<close> cuts the Postgres driver at its statements.
\<close>

section \<open>The phases of the handler\<close>

datatype phase =
    PStart
  | PDecrement Key PB_VerifyKeyResponse
  | PTouch Key PB_VerifyKeyResponse
  | PDone "grpc_status + PB_VerifyKeyResponse"

definition after_checks :: "Key \<Rightarrow> PB_VerifyKeyResponse \<Rightarrow> phase" where
  "after_checks k resp = (if 0 < sint (k_RemainingUses k) then PDecrement k resp else PTouch k resp)"

definition verify_lookup ::
  "'ts libs \<Rightarrow> ('e, 's, 'r) Server \<Rightarrow> 'e call \<Rightarrow> 's \<Rightarrow> 'r \<Rightarrow> PB_VerifyKeyRequest option \<Rightarrow> phase \<times> 's \<times> 'r" where
  "verify_lookup L srv c s r req =
     (if keymat_Validate (VerifyKeyRequest_GetPlaintext req) [] \<noteq> None then (PDone (Inr notFound), s, r)
      else
        let hash = keymat_Hash (lib_sha L) (VerifyKeyRequest_GetPlaintext req) in
        case GetKeyByHash (srv_store srv) (c_env c 0) s hash of
          (Inl err, s1) \<Rightarrow>
            if errors_Is err ErrNotFound then (PDone (Inr notFound), s1, r)
            else (PDone (Inl (Status Internal (MsgErrorf ''lookup key: %v'' err))), s1, r)
        | (Inr k, s1) \<Rightarrow>
            let resp = verify_response k in
            if \<not> k_Enabled k then (PDone (Inr (rejected resp VERIFY_RESULT_REVOKED)), s1, r)
            else if (case k_ExpiresAt k of None \<Rightarrow> False | Some t \<Rightarrow> \<not> c_now c < t)
            then (PDone (Inr (rejected resp VERIFY_RESULT_EXPIRED)), s1, r)
            else if k_RemainingUses k = 0 then (PDone (Inr (rejected resp VERIFY_RESULT_DEPLETED)), s1, r)
            else if \<not> hasAllPermissions (k_Permissions k) (VerifyKeyRequest_GetRequiredPermissions req)
            then (PDone (Inr (rejected resp VERIFY_RESULT_FORBIDDEN)), s1, r)
            else if \<not> VerifyKeyRequest_GetSkipRatelimit req \<and> 0 < length (k_LimitRefs k) then
              (case srv_rl srv of
                 None \<Rightarrow>
                   (PDone (Inl (Status FailedPrecondition
                      (Msg ''rate-limiter client not configured but key has limit_refs''))), s1, r)
               | Some consume \<Rightarrow>
                   (case consume r (k_LimitRefs k) (limitCost (VerifyKeyRequest_GetCost req))
                           (VerifyKeyRequest_GetRequestId req) of
                      (Inl err, r') \<Rightarrow>
                        (PDone (Inl (Status Unavailable (MsgErrorf ''rate-limiter consume: %v'' err))), s1, r')
                    | (Inr decisions, r') \<Rightarrow>
                        let resp = resp\<lparr>VerifyKeyResponse_LimitDecisions := limitDecisionsToProto decisions\<rparr>
                        in if \<exists>d \<in> set decisions. \<not> ld_Allowed d
                           then (PDone (Inr (rejected resp VERIFY_RESULT_RATE_LIMITED)), s1, r')
                           else (after_checks k resp, s1, r')))
            else (after_checks k resp, s1, r))"

definition verify_decrement ::
  "('e, 's, 'r) Server \<Rightarrow> 'e call \<Rightarrow> 's \<Rightarrow> Key \<Rightarrow> PB_VerifyKeyResponse \<Rightarrow> phase \<times> 's" where
  "verify_decrement srv c s k resp =
     (case DecrementRemainingUses (srv_store srv) (c_env c 1) s (k_KeyID k) of
        ((_, Some err), s1) \<Rightarrow>
          if errors_Is err ErrDepleted then (PDone (Inr (rejected resp VERIFY_RESULT_DEPLETED)), s1)
          else (PDone (Inl (Status Internal (MsgErrorf ''decrement remaining uses: %v'' err))), s1)
      | ((_, None), s1) \<Rightarrow> (PTouch k resp, s1))"

definition verify_touch ::
  "('e, 's, 'r) Server \<Rightarrow> 'e call \<Rightarrow> 's \<Rightarrow> Key \<Rightarrow> PB_VerifyKeyResponse \<Rightarrow> phase \<times> 's" where
  "verify_touch srv c s k resp =
     (PDone (Inr (resp\<lparr>VerifyKeyResponse_Valid := True, VerifyKeyResponse_Result := VERIFY_RESULT_VALID\<rparr>)),
      snd (TouchLastVerified (srv_store srv) (c_env c 2) s (k_KeyID k) (c_now' c)))"

text \<open>A verification that runs alone: at most three phases.\<close>

definition run_alone ::
  "'ts libs \<Rightarrow> ('e, 's, 'r) Server \<Rightarrow> 'e call \<Rightarrow> PB_VerifyKeyRequest option \<Rightarrow> phase \<times> 's \<times> 'r \<Rightarrow> phase \<times> 's \<times> 'r" where
  "run_alone L srv c req st =
     (case st of (p, s, r) \<Rightarrow>
        (case p of
           PStart \<Rightarrow> verify_lookup L srv c s r req
         | PDecrement k resp \<Rightarrow> (case verify_decrement srv c s k resp of (p', s') \<Rightarrow> (p', s', r))
         | PTouch k resp \<Rightarrow> (case verify_touch srv c s k resp of (p', s') \<Rightarrow> (p', s', r))
         | PDone res \<Rightarrow> (p, s, r)))"

lemma run_alone_Done [simp]: "run_alone L srv c req (PDone res, s, r) = (PDone res, s, r)"
  by (simp add: run_alone_def)

lemma phases_commit:
  "run_alone L srv c req (run_alone L srv c req (after_checks k resp, s, r)) =
     (case verify_commit srv c s k resp of (res, s') \<Rightarrow> (PDone res, s', r))"
  by (auto simp: after_checks_def verify_commit_def run_alone_def verify_decrement_def verify_touch_def Let_def
      split: prod.split option.split)

text \<open>
  The three phases are the handler: running lookup, decrement and touch one after the other
  gives exactly the response and the states of \<open>VerifyKey\<close>, over any store and any limiter.
\<close>

theorem verify_phases:
  "(run_alone L srv c req ^^ 3) (PStart, s, r) =
     (case Server_VerifyKey L srv c s r req of (res, s', r') \<Rightarrow> (PDone res, s', r'))"
proof -
  have start: "run_alone L srv c req (PStart, s, r) = verify_lookup L srv c s r req"
    by (simp add: run_alone_def)
  have three: "(run_alone L srv c req ^^ 3) x = run_alone L srv c req (run_alone L srv c req (run_alone L srv c req x))"
    for x by (simp add: numeral_3_eq_3)
  show ?thesis
    unfolding three start verify_lookup_def Server_VerifyKey_def
    by (auto simp: Let_def phases_commit split: prod.split sum.split option.split)
qed

section \<open>The interleaved system\<close>

inductive conc_step ::
  "'ts libs \<Rightarrow> ('e, 's, 'r) Server \<Rightarrow> ('e call \<Rightarrow> 's \<Rightarrow> bool) \<Rightarrow> ('e call \<times> PB_VerifyKeyRequest option) list \<Rightarrow>
   's \<times> 'r \<times> phase list \<Rightarrow> 's \<times> 'r \<times> phase list \<Rightarrow> bool"
  for L srv ok jobs
where
  lookup: "t < length ps \<Longrightarrow> ps ! t = PStart \<Longrightarrow> jobs ! t = (c, req) \<Longrightarrow>
    verify_lookup L srv c s r req = (p, s', r') \<Longrightarrow> conc_step L srv ok jobs (s, r, ps) (s', r', ps[t := p])"
| decrement: "t < length ps \<Longrightarrow> ps ! t = PDecrement k resp \<Longrightarrow> jobs ! t = (c, req) \<Longrightarrow>
    verify_decrement srv c s k resp = (p, s') \<Longrightarrow> conc_step L srv ok jobs (s, r, ps) (s', r, ps[t := p])"
| touch: "t < length ps \<Longrightarrow> ps ! t = PTouch k resp \<Longrightarrow> jobs ! t = (c, req) \<Longrightarrow>
    verify_touch srv c s k resp = (p, s') \<Longrightarrow> conc_step L srv ok jobs (s, r, ps) (s', r, ps[t := p])"
| revoke: "ok c s \<Longrightarrow> Server_RevokeKey srv c s req1 = (res1, s') \<Longrightarrow> conc_step L srv ok jobs (s, r, ps) (s', r, ps)"
| rotate: "ok c s \<Longrightarrow> Server_RotateKey L srv c s req2 = (res2, s') \<Longrightarrow> conc_step L srv ok jobs (s, r, ps) (s', r, ps)"
| create: "ok c s \<Longrightarrow> Server_CreateKey L srv c s req3 = (res3, s') \<Longrightarrow> conc_step L srv ok jobs (s, r, ps) (s', r, ps)"

text \<open>A verification of key \<open>i\<close> that has been granted, or whose credit has been taken.\<close>

definition granted_phase :: "string \<Rightarrow> phase \<Rightarrow> bool" where
  "granted_phase i p =
     (case p of
        PTouch k resp \<Rightarrow> VerifyKeyResponse_KeyId resp = i
      | PDone (Inr resp) \<Rightarrow> VerifyKeyResponse_Valid resp \<and> VerifyKeyResponse_KeyId resp = i
      | _ \<Rightarrow> False)"

definition grants :: "string \<Rightarrow> phase list \<Rightarrow> nat" where
  "grants i ps = length (filter (granted_phase i) ps)"

lemma grants_update:
  "t < length ps \<Longrightarrow>
   int (grants i (ps[t := p])) = int (grants i ps) + of_bool (granted_phase i p) - of_bool (granted_phase i (ps ! t))"
  by (simp add: grants_def length_filter_update)

definition phase_ok :: "phase \<Rightarrow> bool" where
  "phase_ok p =
     (case p of
        PDecrement k resp \<Rightarrow> VerifyKeyResponse_KeyId resp = k_KeyID k \<and> \<not> VerifyKeyResponse_Valid resp
      | PTouch k resp \<Rightarrow> VerifyKeyResponse_KeyId resp = k_KeyID k \<and> \<not> VerifyKeyResponse_Valid resp
      | _ \<Rightarrow> True)"

text \<open>The invariant: credit taken and credit left add up to the credit the key had.\<close>

definition conc_inv ::
  "('s \<Rightarrow> bool) \<Rightarrow> ('s \<Rightarrow> view) \<Rightarrow> string \<Rightarrow> int \<Rightarrow> 's \<times> 'r \<times> phase list \<Rightarrow> bool" where
  "conc_inv inv_s view_s i n st \<longleftrightarrow>
     (case st of (s, r, ps) \<Rightarrow>
        inv_s s \<and> list_all phase_ok ps \<and>
        (\<exists>k. v_keys (view_s s) i = Some k \<and> 0 \<le> sint (k_RemainingUses k) \<and>
          int (grants i ps) + sint (k_RemainingUses k) = n))"

lemma phase_ok_simps [simp]:
  "phase_ok (PDone res)" "granted_phase i PStart = False" "granted_phase i (PDecrement k resp) = False"
  "granted_phase i (PTouch k resp) \<longleftrightarrow> VerifyKeyResponse_KeyId resp = i"
  "granted_phase i (PDone (Inl err)) = False"
  "granted_phase i (PDone (Inr resp)) \<longleftrightarrow> VerifyKeyResponse_Valid resp \<and> VerifyKeyResponse_KeyId resp = i"
  by (simp_all add: phase_ok_def granted_phase_def)

context store_contract
begin

text \<open>What the lookup phase leads to: a final answer that is not a grant, or a key read from the store.\<close>

lemma lookup_phase:
  assumes "inv s" "\<And>n. env_up (c_env c n)" "srv_store srv = ops"
    and run: "verify_lookup L srv c s r req = (p, s', r')"
  shows "s' = s \<and> phase_ok p \<and>
    (granted_phase i p \<longrightarrow> (\<exists>k. v_keys (view_of s) i = Some k \<and> sint (k_RemainingUses k) < 0))"
proof (cases "VerifyKeyRequest_GetPlaintext req = [] \<or>
    \<not> hash_taken (view_of s) (keymat_Hash (lib_sha L) (VerifyKeyRequest_GetPlaintext req))")
  case True
  then have "p = PDone (Inr notFound)" "s' = s"
    using run get_key_by_hash_miss [OF assms(1) assms(2) [of 0]]
    by (auto simp: verify_lookup_def assms(3) keymat_Validate_def split: if_splits)
  then show ?thesis by (simp add: notFound_def)
next
  case False
  then obtain j k where pt: "VerifyKeyRequest_GetPlaintext req \<noteq> []"
    and k: "v_keys (view_of s) j = Some k"
    and h: "k_KeyHash k = keymat_Hash (lib_sha L) (VerifyKeyRequest_GetPlaintext req)"
    by (auto simp: hash_taken_def)
  have id: "k_KeyID k = j" using view_okD_key(1) [OF view_of_ok [OF assms(1)] k] .
  have s: "s' = s" and p: "(\<exists>res. p = PDone (Inl res)) \<or>
      (\<exists>resp x. p = PDone (Inr (rejected resp x)) \<and> \<not> VerifyKeyResponse_Valid resp) \<or>
      (k_RemainingUses k \<noteq> 0 \<and> (\<exists>resp. p = after_checks k resp \<and> VerifyKeyResponse_KeyId resp = j \<and>
         \<not> VerifyKeyResponse_Valid resp))"
    using run pt get_key_by_hash_hit [OF assms(1) assms(2) [of 0] k h]
    by (auto simp: verify_lookup_def assms(3) keymat_Validate_def Let_def verify_response_def id
        split: if_splits option.splits prod.splits sum.splits)
  have neg: "sint (k_RemainingUses k) < 0" if "k_RemainingUses k \<noteq> 0" "\<not> 0 < sint (k_RemainingUses k)"
    using that by (metis linorder_neqE_linordered_idom signed_eq_0_iff)
  show ?thesis
    using s p k neg id
    by (cases "0 < sint (k_RemainingUses k)") (auto simp: after_checks_def phase_ok_def rejected_def)
qed

lemma decrement_phase:
  assumes "inv s" "\<And>n. env_up (c_env c n)" "srv_store srv = ops" "phase_ok (PDecrement k resp)"
    and "v_keys (view_of s) i = Some ki" "0 \<le> sint (k_RemainingUses ki)"
    and run: "verify_decrement srv c s k resp = (p, s')"
  shows "inv s' \<and> phase_ok p \<and> (\<exists>ki'. v_keys (view_of s') i = Some ki' \<and> 0 \<le> sint (k_RemainingUses ki') \<and>
    of_bool (granted_phase i p) + sint (k_RemainingUses ki') = sint (k_RemainingUses ki))"
proof (cases "v_keys (view_of s) (k_KeyID k)")
  case None
  then show ?thesis
    using run decrement_unknown [OF assms(1) assms(2) [of 1] None] assms(1,5,6)
    by (auto simp: verify_decrement_def assms(3))
next
  case (Some k')
  have resp: "VerifyKeyResponse_KeyId resp = k_KeyID k" "\<not> VerifyKeyResponse_Valid resp"
    using assms(4) by (simp_all add: phase_ok_def)
  consider "sint (k_RemainingUses k') < 0" | "k_RemainingUses k' = 0" | "0 < sint (k_RemainingUses k')"
    by (metis linorder_neqE_linordered_idom signed_eq_0_iff)
  then show ?thesis
  proof cases
    case 1
    then have "k_KeyID k \<noteq> i" using Some assms(5,6) by auto
    then show ?thesis
      using run decrement_unlimited [OF assms(1) assms(2) [of 1] Some 1] assms(1,5,6) resp
      by (auto simp: verify_decrement_def assms(3) phase_ok_def)
  next
    case 2
    then show ?thesis
      using run decrement_depleted [OF assms(1) assms(2) [of 1] Some 2] assms(1,5,6) resp
      by (auto simp: verify_decrement_def assms(3) rejected_def)
  next
    case 3
    let ?k = "k'\<lparr>k_RemainingUses := k_RemainingUses k' - 1, k_UpdatedAt := nt (now_of (c_env c 1))\<rparr>"
    obtain s1 where s1: "DecrementRemainingUses ops (c_env c 1) s (k_KeyID k) = ((k_RemainingUses k' - 1, None), s1)"
      "inv s1" "view_of s1 = (view_of s)\<lparr>v_keys := (v_keys (view_of s))(k_KeyID k \<mapsto> ?k)\<rparr>"
      using decrement [OF assms(1) assms(2) [of 1] Some 3] by blast
    then have "p = PTouch k resp" "s' = s1" using run by (simp_all add: verify_decrement_def assms(3))
    then show ?thesis
      using s1 resp assms(5,6) Some 3 by (cases "k_KeyID k = i") (auto simp: phase_ok_def sint_dec_pos)
  qed
qed

lemma touch_phase:
  assumes "inv s" "\<And>n. env_up (c_env c n)" "srv_store srv = ops" "v_keys (view_of s) i = Some ki"
    and run: "verify_touch srv c s k resp = (p, s')"
  shows "inv s' \<and> phase_ok p \<and> granted_phase i p = granted_phase i (PTouch k resp) \<and>
    (\<exists>ki'. v_keys (view_of s') i = Some ki' \<and> k_RemainingUses ki' = k_RemainingUses ki)"
proof -
  have p: "p = PDone (Inr (resp\<lparr>VerifyKeyResponse_Valid := True, VerifyKeyResponse_Result := VERIFY_RESULT_VALID\<rparr>))"
    and s': "s' = snd (TouchLastVerified ops (c_env c 2) s (k_KeyID k) (c_now' c))"
    using run by (auto simp: verify_touch_def assms(3))
  show ?thesis
  proof (cases "v_keys (view_of s) (k_KeyID k)")
    case None
    then show ?thesis using touch_unknown [OF assms(1) assms(2) [of 2] None] assms(1,4) p s' by simp
  next
    case (Some k')
    obtain s1 where "TouchLastVerified ops (c_env c 2) s (k_KeyID k) (c_now' c) = (Inr (), s1)" "inv s1"
      "view_of s1 = (view_of s)\<lparr>v_keys := (v_keys (view_of s))(k_KeyID k \<mapsto>
         k'\<lparr>k_LastVerifiedAt := Some (nt (c_now' c))\<rparr>)\<rparr>"
      using touch [OF assms(1) assms(2) [of 2] Some] by blast
    then show ?thesis using p s' Some assms(4) by (cases "k_KeyID k = i") auto
  qed
qed

lemma conc_step_inv:
  assumes "conc_step L srv all_ok jobs st st'" "srv_store srv = ops"
    and up: "\<forall>(c, req) \<in> set jobs. \<forall>n. env_up (c_env c n)"
    and "length (snd (snd st)) = length jobs" "conc_inv inv view_of i n st"
  shows "conc_inv inv view_of i n st' \<and> length (snd (snd st')) = length jobs"
  using assms(1,4,5)
proof (induction rule: conc_step.induct)
  case (lookup t ps c req s r p s' r')
  from lookup obtain ki where inv: "inv s" "list_all phase_ok ps" and ki: "v_keys (view_of s) i = Some ki"
    "0 \<le> sint (k_RemainingUses ki)" "int (grants i ps) + sint (k_RemainingUses ki) = n" by (auto simp: conc_inv_def)
  have u: "\<And>n. env_up (c_env c n)" using up lookup(1,3,5) nth_mem by fastforce
  note ph = lookup_phase [OF inv(1) u assms(2) lookup(4), of i]
  then have "\<not> granted_phase i p" using ki by auto
  with ph inv ki lookup(1,2) list_all_update grants_update [OF lookup(1), of i p] lookup(5)
  show ?case by (auto simp: conc_inv_def)
next
  case (decrement t ps k resp c req s p s' r)
  from decrement obtain ki where inv: "inv s" "list_all phase_ok ps" and ki: "v_keys (view_of s) i = Some ki"
    "0 \<le> sint (k_RemainingUses ki)" "int (grants i ps) + sint (k_RemainingUses ki) = n" by (auto simp: conc_inv_def)
  have u: "\<And>n. env_up (c_env c n)" using up decrement(1,3,5) nth_mem by fastforce
  have "phase_ok (PDecrement k resp)" using inv(2) decrement(1,2) by (metis list_all_length)
  note ph = decrement_phase [OF inv(1) u assms(2) this ki(1,2) decrement(4)]
  with inv ki decrement(1,2) list_all_update grants_update [OF decrement(1), of i p] decrement(5)
  show ?case by (auto simp: conc_inv_def)
next
  case (touch t ps k resp c req s p s' r)
  from touch obtain ki where inv: "inv s" "list_all phase_ok ps" and ki: "v_keys (view_of s) i = Some ki"
    "0 \<le> sint (k_RemainingUses ki)" "int (grants i ps) + sint (k_RemainingUses ki) = n" by (auto simp: conc_inv_def)
  have u: "\<And>n. env_up (c_env c n)" using up touch(1,3,5) nth_mem by fastforce
  note ph = touch_phase [OF inv(1) u assms(2) ki(1) touch(4)]
  with inv ki touch(1,2) list_all_update grants_update [OF touch(1), of i p] touch(5)
  show ?case by (auto simp: conc_inv_def)
next
  case (revoke c s req1 res1 s' r ps)
  then have "inv s" by (auto simp: conc_inv_def)
  from revoke_step [OF this revoke(1) assms(2) revoke(2)] revoke(3,4)
  show ?case using admin_step_uses by (fastforce simp: conc_inv_def)
next
  case (rotate c s req2 res2 s' r ps)
  then have "inv s" by (auto simp: conc_inv_def)
  from rotate_step [OF this rotate(1) assms(2) rotate(2)] rotate(3,4)
  show ?case using admin_step_uses by (fastforce simp: conc_inv_def)
next
  case (create c s req3 res3 s' r ps)
  then have "inv s" by (auto simp: conc_inv_def)
  from create_key_step [OF this create(1) assms(2) create(2)] create(3,4)
  show ?case using admin_step_uses by (fastforce simp: conc_inv_def)
qed

lemma conc_run_inv:
  assumes "(conc_step L srv all_ok jobs)\<^sup>*\<^sup>* st st'" "srv_store srv = ops"
    and "\<forall>(c, req) \<in> set jobs. \<forall>n. env_up (c_env c n)"
    and "length (snd (snd st)) = length jobs" "conc_inv inv view_of i n st"
  shows "conc_inv inv view_of i n st'"
proof -
  have "conc_inv inv view_of i n st' \<and> length (snd (snd st')) = length jobs"
    using assms(1)
  proof (induction rule: rtranclp_induct)
    case base
    then show ?case using assms(4,5) by simp
  next
    case (step st1 st2)
    then show ?case using conc_step_inv [OF step(2) assms(2,3)] by blast
  qed
  then show ?thesis by simp
qed

end

section \<open>Properties\<close>

text \<open>
  C4: Concurrent verifications cannot overspend a credit. Start any number of verifications, let
  their phases interleave in any order, with keys being revoked, rotated and created in between: at
  every moment the number of verifications that were granted key \<open>i\<close> (or have its credit taken and
  are about to be) plus the credit left is exactly the credit the key had at the start. So a key
  with credit \<open>n\<close> is never granted more than \<open>n\<close> times, although every verification reads the credit
  before it decrements it.
\<close>

theorem no_overspend:
  assumes "mem_inv s0" "srv_store srv = mem_Store" "m_keys s0 i = Some k" "0 \<le> sint (k_RemainingUses k)"
    and "(conc_step L srv mem_call_ok jobs)\<^sup>*\<^sup>* (s0, r0, replicate (length jobs) PStart) (s, r, ps)"
  shows "\<exists>k'. m_keys s i = Some k' \<and> 0 \<le> sint (k_RemainingUses k') \<and>
    int (grants i ps) + sint (k_RemainingUses k') = sint (k_RemainingUses k)"
proof -
  have "conc_inv mem_inv mem_view i (sint (k_RemainingUses k)) (s0, r0, replicate (length jobs) PStart)"
    using assms(1,3,4) by (simp add: conc_inv_def grants_def list_all_iff phase_ok_def)
  from mem.conc_run_inv [OF assms(5) [unfolded mem_call_ok_def] assms(2) _ _ this]
  show ?thesis by (simp add: conc_inv_def)
qed

text \<open>Two verifications that both read a credit of one before either takes it.\<close>

definition race_jobs :: "(mem_env call \<times> PB_VerifyKeyRequest option) list" where
  "race_jobs = [(demo_call ''2'' [], demo_verify ''secret'' []), (demo_call ''3'' [], demo_verify ''secret'' [])]"

definition race_spent :: mem_store where
  "race_spent = demo_store (Some ((demo_key 1 [])\<lparr>k_RemainingUses := 0, k_UpdatedAt := 7\<rparr>))"

lemma race_lookup:
  "verify_lookup demo_libs (demo_server None) (demo_call u []) (demo_store (Some (demo_key 1 []))) ()
     (demo_verify ''secret'' []) =
   (PDecrement (demo_key 1 []) (verify_response (demo_key 1 [])), demo_store (Some (demo_key 1 [])), ())"
  by (simp add: verify_lookup_def demo_store_def demo_defs mem_GetKeyByHash_def keymat_Validate_def
      keymat_Hash_def Let_def after_checks_def)

lemma race_decrement:
  "verify_decrement (demo_server None) (demo_call u []) (demo_store (Some (demo_key 1 []))) (demo_key 1 []) resp =
     (PTouch (demo_key 1 []) resp, race_spent)"
  "verify_decrement (demo_server None) (demo_call u []) race_spent (demo_key 1 []) resp =
     (PDone (Inr (rejected resp VERIFY_RESULT_DEPLETED)), race_spent)"
  by (simp_all add: verify_decrement_def demo_store_def demo_defs mem_DecrementRemainingUses_def race_spent_def Let_def)

lemma race_run:
  "(conc_step demo_libs (demo_server None) mem_call_ok race_jobs)\<^sup>*\<^sup>*
     (demo_store (Some (demo_key 1 [])), (), replicate (length race_jobs) PStart)
     (race_spent, (), [PTouch (demo_key 1 []) (verify_response (demo_key 1 [])),
       PDone (Inr (rejected (verify_response (demo_key 1 [])) VERIFY_RESULT_DEPLETED))])"
proof -
  let ?s = "demo_store (Some (demo_key 1 []))"
  let ?d = "PDecrement (demo_key 1 []) (verify_response (demo_key 1 []))"
  let ?step = "conc_step demo_libs (demo_server None) mem_call_ok race_jobs"
  note lookup = conc_step.lookup [where ok = mem_call_ok and jobs = race_jobs, OF _ _ _ race_lookup]
  note spend = conc_step.decrement [where ok = mem_call_ok and jobs = race_jobs and L = demo_libs and r = "()",
      OF _ _ _ race_decrement(1) [of "''2''" "verify_response (demo_key 1 [])"]]
  note late = conc_step.decrement [where ok = mem_call_ok and jobs = race_jobs and L = demo_libs and r = "()",
      OF _ _ _ race_decrement(2) [of "''3''" "verify_response (demo_key 1 [])"]]
  have st1: "?step (?s, (), [PStart, PStart]) (?s, (), [?d, PStart])"
    using lookup [of 0 "[PStart, PStart]"] by (simp add: race_jobs_def)
  have st2: "?step (?s, (), [?d, PStart]) (?s, (), [?d, ?d])"
    using lookup [of 1 "[?d, PStart]"] by (simp add: race_jobs_def)
  have st3: "?step (?s, (), [?d, ?d]) (race_spent, (), [PTouch (demo_key 1 []) (verify_response (demo_key 1 [])), ?d])"
    using spend [of 0 "[?d, ?d]"] by (simp add: race_jobs_def)
  have st4: "?step (race_spent, (), [PTouch (demo_key 1 []) (verify_response (demo_key 1 [])), ?d])
      (race_spent, (), [PTouch (demo_key 1 []) (verify_response (demo_key 1 [])),
        PDone (Inr (rejected (verify_response (demo_key 1 [])) VERIFY_RESULT_DEPLETED))])"
    using late [of 1 "[PTouch (demo_key 1 []) (verify_response (demo_key 1 [])), ?d]"] by (simp add: race_jobs_def)
  have two: "replicate (length race_jobs) PStart = [PStart, PStart]" by (simp add: race_jobs_def numeral_2_eq_2)
  show ?thesis
    unfolding two
    by (rule converse_rtranclp_into_rtranclp [OF st1 converse_rtranclp_into_rtranclp [OF st2
        converse_rtranclp_into_rtranclp [OF st3 r_into_rtranclp [of ?step, OF st4]]]])
qed

theorem no_overspend_witness:
  "int (grants ''key_1'' [PTouch (demo_key 1 []) (verify_response (demo_key 1 [])),
     PDone (Inr (rejected (verify_response (demo_key 1 [])) VERIFY_RESULT_DEPLETED))]) = 1"
proof -
  have k: "m_keys (demo_store (Some (demo_key 1 []))) ''key_1'' = Some (demo_key 1 [])"
    "0 \<le> sint (k_RemainingUses (demo_key 1 []))" by (simp_all add: demo_key_def)
  have "m_keys race_spent ''key_1'' = Some ((demo_key 1 [])\<lparr>k_RemainingUses := 0, k_UpdatedAt := 7\<rparr>)"
    by (simp add: race_spent_def)
  with no_overspend [OF demo_inv(2) demo_server_sel(1) k race_run] show ?thesis by (auto simp: demo_key_def)
qed

end
