(* ===== verification/KC_PgConcurrent.thy ===== *)
theory KC_PgConcurrent
  imports KC_Concurrent
begin

text \<open>
  Concurrent verifications over Postgres, one SQL statement at a time. \<open>DecrementRemainingUses\<close> is an
  \<open>UPDATE\<close> and, when that found no row, a \<open>SELECT\<close>; \<open>decrement_statements\<close> says that one after the other
  they are the method. Between any two statements other connections may run statements of the driver,
  any statement may fail, and an \<open>UPDATE\<close> may take effect although its answer is lost.
\<close>

section \<open>The two statements of the decrement\<close>

definition decrement_update ::
  "'j pg_libs \<Rightarrow> pg_env \<Rightarrow> 'j pg_db \<Rightarrow> string \<Rightarrow> (int64 \<times> goerr option) option \<times> 'j pg_db" where
  "decrement_update P e db i =
     (case pg_exec e 0 (\<lambda>db.
             let (hit, rows) = update_rows (\<lambda>r. kr_key_id r = i \<and> 0 < sint (kr_remaining_uses r))
                   (\<lambda>r. r\<lparr>kr_remaining_uses := kr_remaining_uses r - 1,
                          kr_updated_at := pl_time P (pe_now e)\<rparr>) (db_keys db)
             in (case hit of [] \<Rightarrow> Inl ErrNoRows | r # _ \<Rightarrow> Inr (kr_remaining_uses r),
                 db\<lparr>db_keys := rows\<rparr>)) db of
        (Inr remaining, db') \<Rightarrow> (Some (remaining, None), db')
      | (Inl err, db') \<Rightarrow>
          if err \<noteq> ErrNoRows
          then (Some (0, Some (Wrapf ''decrement remaining: %w'' None (err_of err))), db')
          else (None, db'))"

definition decrement_select :: "pg_env \<Rightarrow> 'j pg_db \<Rightarrow> string \<Rightarrow> (int64 \<times> goerr option) \<times> 'j pg_db" where
  "decrement_select e db i =
     (case pg_exec e 1 (\<lambda>db. (query_row (\<lambda>r. kr_key_id r = i) (db_keys db), db)) db of
        (Inl err, db') \<Rightarrow>
          if err = ErrNoRows then ((0, Some (Sentinel ErrNotFound)), db')
          else ((0, Some (Wrapf ''select remaining: %w'' None (err_of err))), db')
      | (Inr r, db') \<Rightarrow>
          if sint (kr_remaining_uses r) < 0 then ((-1, None), db')
          else ((kr_remaining_uses r, Some (Sentinel ErrDepleted)), db'))"

lemma decrement_statements:
  "pg_DecrementRemainingUses P e db i =
     (case decrement_update P e db i of
        (Some res, db') \<Rightarrow> (res, db')
      | (None, db') \<Rightarrow> decrement_select e db' i)"
  unfolding pg_DecrementRemainingUses_def decrement_update_def decrement_select_def
  by (auto split: prod.split sum.split)

section \<open>Phases\<close>

text \<open>The phases of \<open>KC_Concurrent\<close>, and the point between the two statements.\<close>

datatype pg_phase = At phase | PSelect Key PB_VerifyKeyResponse

text \<open>What the handler does with the result of the decrement.\<close>

definition after_decrement :: "Key \<Rightarrow> PB_VerifyKeyResponse \<Rightarrow> int64 \<times> goerr option \<Rightarrow> phase" where
  "after_decrement k resp res =
     (case snd res of
        None \<Rightarrow> PTouch k resp
      | Some err \<Rightarrow>
          if errors_Is err ErrDepleted then PDone (Inr (rejected resp VERIFY_RESULT_DEPLETED))
          else PDone (Inl (Status Internal (MsgErrorf ''decrement remaining uses: %v'' err))))"

definition pg_verify_update ::
  "'j pg_libs \<Rightarrow> pg_env call \<Rightarrow> 'j pg_db \<Rightarrow> Key \<Rightarrow> PB_VerifyKeyResponse \<Rightarrow> pg_phase \<times> 'j pg_db" where
  "pg_verify_update P c db k resp =
     (case decrement_update P (c_env c 1) db (k_KeyID k) of
        (Some res, db') \<Rightarrow> (At (after_decrement k resp res), db')
      | (None, db') \<Rightarrow> (PSelect k resp, db'))"

definition pg_verify_select ::
  "pg_env call \<Rightarrow> 'j pg_db \<Rightarrow> Key \<Rightarrow> PB_VerifyKeyResponse \<Rightarrow> pg_phase \<times> 'j pg_db" where
  "pg_verify_select c db k resp =
     (case decrement_select (c_env c 1) db (k_KeyID k) of (res, db') \<Rightarrow> (At (after_decrement k resp res), db'))"

text \<open>Update and select in sequence are the decrement phase of the handler.\<close>

lemma pg_verify_phases:
  assumes "srv_store srv = pg_Store P"
  shows "(case verify_decrement srv c db k resp of (p, db') \<Rightarrow> (At p, db')) =
    (case pg_verify_update P c db k resp of
       (PSelect k resp, db') \<Rightarrow> pg_verify_select c db' k resp
     | (At p, db') \<Rightarrow> (At p, db'))"
  by (auto simp: verify_decrement_def assms pg_Store_def decrement_statements pg_verify_update_def pg_verify_select_def
      after_decrement_def split: prod.split option.split)

section \<open>The interleaved system\<close>

text \<open>A write of another connection: any write method of the driver, with any arguments, its own faults included.\<close>

inductive other_write :: "'j pg_libs \<Rightarrow> 'j pg_db \<Rightarrow> 'j pg_db \<Rightarrow> bool" for P where
  ow_workspace: "pg_CreateWorkspace P e db w = (res1, db') \<Longrightarrow> other_write P db db'"
| ow_api: "pg_CreateAPI P e db a = (res2, db') \<Longrightarrow> other_write P db db'"
| ow_key: "pg_CreateKey P e db k = (res3, db') \<Longrightarrow> other_write P db db'"
| ow_revoke: "pg_RevokeKey P e db i = (res4, db') \<Longrightarrow> other_write P db db'"
| ow_rotate: "pg_RotateKey P e db i h = (res5, db') \<Longrightarrow> other_write P db db'"
| ow_touch: "pg_TouchLastVerified P e db i t = (res6, db') \<Longrightarrow> other_write P db db'"

inductive pg_conc_step ::
  "'ts libs \<Rightarrow> 'j pg_libs \<Rightarrow> (pg_env, 'j pg_db, 'r) Server \<Rightarrow> (pg_env call \<times> PB_VerifyKeyRequest option) list \<Rightarrow>
   'j pg_db \<times> 'r \<times> pg_phase list \<Rightarrow> 'j pg_db \<times> 'r \<times> pg_phase list \<Rightarrow> bool"
  for L P srv jobs
where
  pg_lookup: "t < length ps \<Longrightarrow> ps ! t = At PStart \<Longrightarrow> jobs ! t = (c, req) \<Longrightarrow>
    verify_lookup L srv c db r req = (p, db', r') \<Longrightarrow> pg_conc_step L P srv jobs (db, r, ps) (db', r', ps[t := At p])"
| pg_update: "t < length ps \<Longrightarrow> ps ! t = At (PDecrement k resp) \<Longrightarrow> jobs ! t = (c, req) \<Longrightarrow>
    pg_verify_update P c db k resp = (p, db') \<Longrightarrow> pg_conc_step L P srv jobs (db, r, ps) (db', r, ps[t := p])"
| pg_update_lost: "t < length ps \<Longrightarrow> ps ! t = At (PDecrement k resp) \<Longrightarrow> jobs ! t = (c, req) \<Longrightarrow>
    decrement_update P (c_env c 1) db (k_KeyID k) = (res, db') \<Longrightarrow>
    pg_conc_step L P srv jobs (db, r, ps) (db', r, ps[t := At (after_decrement k resp
      (0, Some (Wrapf ''decrement remaining: %w'' None (err_of (DriverErr msg)))))])"
| pg_select: "t < length ps \<Longrightarrow> ps ! t = PSelect k resp \<Longrightarrow> jobs ! t = (c, req) \<Longrightarrow>
    pg_verify_select c db k resp = (p, db') \<Longrightarrow> pg_conc_step L P srv jobs (db, r, ps) (db', r, ps[t := p])"
| pg_touch: "t < length ps \<Longrightarrow> ps ! t = At (PTouch k resp) \<Longrightarrow> jobs ! t = (c, req) \<Longrightarrow>
    verify_touch srv c db k resp = (p, db') \<Longrightarrow> pg_conc_step L P srv jobs (db, r, ps) (db', r, ps[t := At p])"
| pg_other: "other_write P db db' \<Longrightarrow> pg_conc_step L P srv jobs (db, r, ps) (db', r, ps)"

section \<open>The credit of a row\<close>

definition credits :: "'j pg_db \<Rightarrow> (string \<times> int64) list" where
  "credits db = map (\<lambda>r. (kr_key_id r, kr_remaining_uses r)) (db_keys db)"

definition row_credit :: "string \<Rightarrow> int64 \<Rightarrow> 'j pg_db \<Rightarrow> bool" where
  "row_credit i x db \<longleftrightarrow> distinct (map fst (credits db)) \<and> (i, x) \<in> set (credits db)"

lemma row_credit_unique: "row_credit i x db \<Longrightarrow> (i, y) \<in> set (credits db) \<Longrightarrow> y = x"
  by (auto simp: row_credit_def dest: eq_key_imp_eq_value)

lemma credits_update [simp]:
  "(\<And>r. kr_key_id (f r) = kr_key_id r) \<Longrightarrow> (\<And>r. kr_remaining_uses (f r) = kr_remaining_uses r) \<Longrightarrow>
   credits (db\<lparr>db_keys := map (\<lambda>r. if p r then f r else r) (db_keys db)\<rparr>) = credits db"
  by (simp add: credits_def)

lemma credits_other_tables [simp]:
  "credits (db\<lparr>db_workspaces := ws\<rparr>) = credits db" "credits (db\<lparr>db_apis := as\<rparr>) = credits db"
  by (simp_all add: credits_def)

text \<open>What a write does to the credits: nothing, or a new row.\<close>

lemma other_write_credits:
  assumes "other_write P db db'"
  shows "credits db' = credits db \<or> (\<exists>j y. j \<notin> fst ` set (credits db) \<and> credits db' = credits db @ [(j, y)])"
  using assms
proof cases
  case (ow_workspace e w res1)
  then show ?thesis
    by (auto simp: pg_CreateWorkspace_def pg_exec_def sql_insert_workspace_def Let_def split: option.splits sum.splits prod.splits if_splits)
next
  case (ow_api e a res2)
  then show ?thesis
    by (auto simp: pg_CreateAPI_def pg_exec_def sql_insert_api_def Let_def split: option.splits sum.splits prod.splits if_splits)
next
  case (ow_key e k res3)
  then show ?thesis
    by (auto simp: pg_CreateKey_def pg_exec_def sql_insert_key_def Let_def credits_def image_image
        split: option.splits sum.splits prod.splits if_splits)
next
  case (ow_revoke e i res4)
  then show ?thesis
    by (auto simp: pg_RevokeKey_def pg_exec_def update_rows_def Let_def split: option.splits sum.splits prod.splits if_splits)
next
  case (ow_rotate e i h res5)
  then show ?thesis
    by (auto simp: pg_RotateKey_def queryKey_def pg_exec_def sql_update_hash_def update_rows_def Let_def
        split: option.splits sum.splits prod.splits if_splits)
next
  case (ow_touch e i t res6)
  then show ?thesis
    by (auto simp: pg_TouchLastVerified_def pg_exec_def update_rows_def Let_def split: option.splits sum.splits prod.splits if_splits)
qed

lemma other_write_credit: "other_write P db db' \<Longrightarrow> row_credit i x db \<Longrightarrow> row_credit i x db'"
  using other_write_credits [of P db db'] by (auto simp: row_credit_def)

text \<open>The \<open>UPDATE\<close> takes one from a positive credit of the key, or changes nothing.\<close>

lemma decrement_update_credit:
  assumes "decrement_update P e db j = (res, db')" "row_credit i x db" "0 \<le> sint x"
  shows "(row_credit i x db' \<and> (i = j \<longrightarrow> (\<forall>n. res \<noteq> Some (n, None)))) \<or> (i = j \<and> 0 < sint x \<and> row_credit i (x - 1) db')"
proof (cases "pe_fault e 0")
  case (Some err)
  then have "db' = db \<and> (\<forall>n. res \<noteq> Some (n, None))"
    using assms(1) by (auto simp: decrement_update_def pg_exec_def split: if_splits)
  with assms(2) show ?thesis by simp
next
  case None
  let ?p = "\<lambda>r. kr_key_id r = j \<and> 0 < sint (kr_remaining_uses r)"
  let ?take = "\<lambda>(k, y). if k = j \<and> 0 < sint y then (k, y - 1 :: int64) else (k, y)"
  have db': "credits db' = map ?take (credits db)"
    and res: "filter ?p (db_keys db) = [] \<Longrightarrow> res = None"
    using assms(1) None
    by (auto simp: decrement_update_def pg_exec_def update_rows_def Let_def credits_def split: list.splits if_splits)
  have ids: "map fst (credits db') = map fst (credits db)" by (auto simp: db')
  have row: "(i, x) \<in> set (credits db)" and dist: "distinct (map fst (credits db))"
    using assms(2) by (simp_all add: row_credit_def)
  have moved: "?take (i, x) \<in> set (credits db')" unfolding db' set_map using row by (rule imageI)
  show ?thesis
  proof (cases "i = j")
    case True
    have "res = None" if "\<not> 0 < sint x"
      using that res row_credit_unique [OF assms(2)] True by (force simp: filter_empty_conv credits_def)
    with True moved dist ids show ?thesis by (auto simp: row_credit_def split: if_splits)
  qed (use moved dist ids in \<open>simp add: row_credit_def\<close>)
qed

lemma decrement_select_result:
  assumes "decrement_select e db j = (res, db')"
  shows "db' = db" "snd res = None \<Longrightarrow> \<exists>y. (j, y) \<in> set (credits db) \<and> sint y < 0"
proof -
  have row: "r \<in> set (db_keys db) \<and> kr_key_id r = j" if "query_row (\<lambda>r. kr_key_id r = j) (db_keys db) = Inr r" for r
    using that by (auto simp: query_row_def filter_eq_Cons_iff split: list.splits)
  show "db' = db" "snd res = None \<Longrightarrow> \<exists>y. (j, y) \<in> set (credits db) \<and> sint y < 0"
    using assms row by (force simp: decrement_select_def pg_exec_def credits_def split: option.splits sum.splits if_splits)+
qed

section \<open>Phases and credit\<close>

lemma pg_GetKeyByHash_row:
  assumes "pg_GetKeyByHash P e db h = (res, db')"
  shows "db' = db" "res = Inr k \<Longrightarrow> (k_KeyID k, k_RemainingUses k) \<in> set (credits db)"
proof -
  have row: "r \<in> set (db_keys db)" if "query_row p (db_keys db) = Inr r" for p r
    using that by (auto simp: query_row_def filter_eq_Cons_iff split: list.splits)
  show "db' = db" "res = Inr k \<Longrightarrow> (k_KeyID k, k_RemainingUses k) \<in> set (credits db)"
    using assms row
    by (force simp: pg_GetKeyByHash_def queryKey_def pg_exec_def key_of_row_def credits_def
        split: option.splits sum.splits if_splits prod.splits)+
qed

lemma pg_lookup_phase:
  assumes srv: "srv_store srv = pg_Store P" and run: "verify_lookup L srv c db r req = (p, db', r')"
  shows "db' = db \<and> phase_ok p \<and> (granted_phase i p \<longrightarrow> (\<exists>y. (i, y) \<in> set (credits db) \<and> sint y < 0))"
proof (cases "keymat_Validate (VerifyKeyRequest_GetPlaintext req) []")
  case (Some err)
  with run show ?thesis by (auto simp: verify_lookup_def notFound_def)
next
  case None
  obtain res db1 where get: "pg_GetKeyByHash P (c_env c 0) db (keymat_Hash (lib_sha L) (VerifyKeyRequest_GetPlaintext req)) = (res, db1)"
    by (rule prod.exhaust)
  note row = pg_GetKeyByHash_row [OF get]
  show ?thesis
  proof (cases res)
    case (Inl err)
    with run None get row(1) show ?thesis
      by (auto simp: verify_lookup_def srv pg_Store_def Let_def notFound_def split: if_splits)
  next
    case (Inr k)
    note k = row(2) [OF Inr]
    have p: "db' = db \<and> ((\<exists>res. p = PDone (Inl res)) \<or>
      (\<exists>resp x. p = PDone (Inr (rejected resp x)) \<and> \<not> VerifyKeyResponse_Valid resp) \<or>
      (k_RemainingUses k \<noteq> 0 \<and> (\<exists>resp. p = after_checks k resp \<and> VerifyKeyResponse_KeyId resp = k_KeyID k \<and>
         \<not> VerifyKeyResponse_Valid resp)))"
      using run None get row(1) Inr
      by (auto simp: verify_lookup_def srv pg_Store_def Let_def verify_response_def
          split: if_splits option.splits prod.splits sum.splits)
    have neg: "sint (k_RemainingUses k) < 0" if "k_RemainingUses k \<noteq> 0" "\<not> 0 < sint (k_RemainingUses k)"
      using that by (metis linorder_neqE_linordered_idom signed_eq_0_iff)
    show ?thesis
      using p k neg by (cases "0 < sint (k_RemainingUses k)") (auto simp: after_checks_def phase_ok_def rejected_def)
  qed
qed

definition pg_granted :: "string \<Rightarrow> pg_phase \<Rightarrow> bool" where
  "pg_granted i q = (case q of At p \<Rightarrow> granted_phase i p | PSelect k resp \<Rightarrow> False)"

definition pg_grants :: "string \<Rightarrow> pg_phase list \<Rightarrow> nat" where
  "pg_grants i ps = length (filter (pg_granted i) ps)"

definition pg_phase_ok :: "pg_phase \<Rightarrow> bool" where
  "pg_phase_ok q = (case q of At p \<Rightarrow> phase_ok p | PSelect k resp \<Rightarrow> phase_ok (PDecrement k resp))"

lemma pg_phase_simps [simp]:
  "pg_granted i (At p) = granted_phase i p" "\<not> pg_granted i (PSelect k resp)"
  "pg_phase_ok (At p) = phase_ok p" "pg_phase_ok (PSelect k resp) = phase_ok (PDecrement k resp)"
  by (simp_all add: pg_granted_def pg_phase_ok_def)

lemma after_decrement_ok:
  assumes "phase_ok (PDecrement k resp)"
  shows "phase_ok (after_decrement k resp res)"
    and "granted_phase i (after_decrement k resp res) \<longleftrightarrow> snd res = None \<and> k_KeyID k = i"
  using assms by (auto simp: after_decrement_def phase_ok_def rejected_def split: option.splits)

text \<open>Credit taken and credit left never exceed the credit there was.\<close>

definition pg_conc_inv :: "string \<Rightarrow> int \<Rightarrow> 'j pg_db \<times> 'r \<times> pg_phase list \<Rightarrow> bool" where
  "pg_conc_inv i n st \<longleftrightarrow>
     (case st of (db, r, ps) \<Rightarrow> list_all pg_phase_ok ps \<and>
        (\<exists>x. row_credit i x db \<and> 0 \<le> sint x \<and> int (pg_grants i ps) + sint x \<le> n))"

text \<open>A phase that replaces another and pays for what it is granted.\<close>

lemma pg_conc_inv_put:
  assumes "pg_conc_inv i n (db, r, ps)" "t < length ps"
    and "\<And>x. row_credit i x db \<Longrightarrow> 0 \<le> sint x \<Longrightarrow> pg_phase_ok (ps ! t) \<Longrightarrow>
      pg_phase_ok q \<and> (\<exists>y. row_credit i y db' \<and> 0 \<le> sint y \<and> 
        of_bool (pg_granted i q) + sint y \<le> of_bool (pg_granted i (ps ! t)) + sint x)"
  shows "pg_conc_inv i n (db', r', ps[t := q])"
proof -
  from assms(1) obtain x where ok: "list_all pg_phase_ok ps" and x: "row_credit i x db" "0 \<le> sint x"
    "int (pg_grants i ps) + sint x \<le> n" by (auto simp: pg_conc_inv_def)
  have "pg_phase_ok (ps ! t)" using ok assms(2) by (simp add: list_all_length)
  from assms(3) [OF x(1,2) this] obtain y where q: "pg_phase_ok q" and
    y: "row_credit i y db'" "0 \<le> sint y"
      "of_bool (pg_granted i q) + sint y \<le> of_bool (pg_granted i (ps ! t)) + sint x" by blast
  have "int (pg_grants i (ps[t := q])) =
      int (pg_grants i ps) + of_bool (pg_granted i q) - of_bool (pg_granted i (ps ! t))"
    unfolding pg_grants_def by (rule length_filter_update [OF assms(2)])
  then show ?thesis using y x(3) list_all_update [OF ok q] unfolding pg_conc_inv_def by auto
qed

lemma pg_conc_step_inv:
  assumes "pg_conc_step L P srv jobs st st'" "srv_store srv = pg_Store P" "pg_conc_inv i n st"
  shows "pg_conc_inv i n st'"
  using assms(1,3)
proof (induction rule: pg_conc_step.induct)
  case (pg_lookup t ps c req db r p db' r')
  note ph = pg_lookup_phase [OF assms(2) pg_lookup(4), of i]
  show ?case
  proof (rule pg_conc_inv_put [OF pg_lookup(5,1)])
    fix x assume x: "row_credit i x db" "0 \<le> sint x"
    then have "\<not> granted_phase i p" using ph row_credit_unique [OF x(1)] by auto
    with ph x show "pg_phase_ok (At p) \<and> (\<exists>y. row_credit i y db' \<and> 0 \<le> sint y \<and> of_bool (pg_granted i (At p)) + sint y \<le> of_bool (pg_granted i (ps ! t)) + sint x)"
      by (auto simp: pg_lookup(2))
  qed
next
  case (pg_update t ps k resp c req db p db' r)
  show ?case
  proof (rule pg_conc_inv_put [OF pg_update(5,1)])
    fix x assume x: "row_credit i x db" "0 \<le> sint x" and "pg_phase_ok (ps ! t)"
    then have ok: "phase_ok (PDecrement k resp)" by (simp add: pg_update(2))
    obtain res where upd: "decrement_update P (c_env c 1) db (k_KeyID k) = (res, db')"
      and p: "p = (case res of None \<Rightarrow> PSelect k resp | Some v \<Rightarrow> At (after_decrement k resp v))"
      using pg_update(4) by (auto simp: pg_verify_update_def split: prod.splits option.splits)
    show "pg_phase_ok p \<and> (\<exists>y. row_credit i y db' \<and> 0 \<le> sint y \<and> of_bool (pg_granted i p) + sint y \<le> of_bool (pg_granted i (ps ! t)) + sint x)"
      using decrement_update_credit [OF upd x] x(2) ok after_decrement_ok [OF ok]
      by (auto simp: p pg_update(2) sint_dec_pos split: option.splits)
  qed
next
  case (pg_update_lost t ps k resp c req db res db' r msg)
  show ?case
  proof (rule pg_conc_inv_put [OF pg_update_lost(5,1)])
    fix x assume x: "row_credit i x db" "0 \<le> sint x" and "pg_phase_ok (ps ! t)"
    then have ok: "phase_ok (PDecrement k resp)" by (simp add: pg_update_lost(2))
    let ?q = "At (after_decrement k resp (0, Some (Wrapf ''decrement remaining: %w'' None (err_of (DriverErr msg)))))"
    show "pg_phase_ok ?q \<and> (\<exists>y. row_credit i y db' \<and> 0 \<le> sint y \<and> of_bool (pg_granted i ?q) + sint y \<le> of_bool (pg_granted i (ps ! t)) + sint x)"
      using decrement_update_credit [OF pg_update_lost(4) x] x(2) after_decrement_ok [OF ok]
      by (auto simp: pg_update_lost(2) sint_dec_pos)
  qed
next
  case (pg_select t ps k resp c req db p db' r)
  show ?case
  proof (rule pg_conc_inv_put [OF pg_select(5,1)])
    fix x assume x: "row_credit i x db" "0 \<le> sint x" and "pg_phase_ok (ps ! t)"
    then have ok: "phase_ok (PDecrement k resp)" by (simp add: pg_select(2))
    obtain res where sel: "decrement_select (c_env c 1) db (k_KeyID k) = (res, db')"
      and p: "p = At (after_decrement k resp res)"
      using pg_select(4) by (auto simp: pg_verify_select_def split: prod.splits)
    note r = decrement_select_result [OF sel]
    have "\<not> (snd res = None \<and> k_KeyID k = i)" using r(2) row_credit_unique [OF x(1)] x(2) by fastforce
    then show "pg_phase_ok p \<and> (\<exists>y. row_credit i y db' \<and> 0 \<le> sint y \<and> of_bool (pg_granted i p) + sint y \<le> of_bool (pg_granted i (ps ! t)) + sint x)"
      using x r(1) after_decrement_ok [OF ok] by (auto simp: p pg_select(2))
  qed
next
  case (pg_touch t ps k resp c req db p db' r)
  show ?case
  proof (rule pg_conc_inv_put [OF pg_touch(5,1)])
    fix x assume x: "row_credit i x db" "0 \<le> sint x" and ok: "pg_phase_ok (ps ! t)"
    obtain res where "pg_TouchLastVerified P (c_env c 2) db (k_KeyID k) (c_now' c) = (res, db')"
      and p: "p = PDone (Inr (resp\<lparr>VerifyKeyResponse_Valid := True, VerifyKeyResponse_Result := VERIFY_RESULT_VALID\<rparr>))"
      using pg_touch(4) by (auto simp: verify_touch_def assms(2) pg_Store_def) (metis prod.collapse)
    from ow_touch [OF this(1)] have "row_credit i x db'" using x(1) by (rule other_write_credit)
    with x(2) show "pg_phase_ok (At p) \<and> (\<exists>y. row_credit i y db' \<and> 0 \<le> sint y \<and>
        of_bool (pg_granted i (At p)) + sint y \<le> of_bool (pg_granted i (ps ! t)) + sint x)"
      by (auto simp: p pg_touch(2))
  qed
next
  case (pg_other db db' r ps)
  then show ?case using other_write_credit by (fastforce simp: pg_conc_inv_def)
qed

section \<open>Properties\<close>

text \<open>
  C5: Over Postgres, too, verifications cannot overspend a credit, and here the statements of one
  verification interleave with everything else: any number of verifications run concurrently, other
  connections write in between, statements fail, and the database may apply a decrement whose answer
  never arrives. The number of verifications that were granted the key plus the credit left in its row
  never exceeds the credit the row had, and the credit never goes below zero.
\<close>

theorem pg_no_overspend:
  assumes "row_credit i x db0" "0 \<le> sint x" "srv_store srv = pg_Store P"
    and "(pg_conc_step L P srv jobs)\<^sup>*\<^sup>* (db0, r0, replicate n (At PStart)) (db, r, ps)"
  shows "\<exists>y. row_credit i y db \<and> 0 \<le> sint y \<and> int (pg_grants i ps) + sint y \<le> sint x"
proof -
  have "pg_conc_inv i (sint x) (db0, r0, replicate n (At PStart))"
    using assms(1,2) by (auto simp: pg_conc_inv_def pg_grants_def list_all_iff phase_ok_def)
  with assms(4) have "pg_conc_inv i (sint x) (db, r, ps)"
    by (induction rule: rtranclp_induct) (auto intro: pg_conc_step_inv [OF _ assms(3)])
  then show ?thesis by (simp add: pg_conc_inv_def)
qed

text \<open>Two verifications that both read a credit of one; the second finds no row to update.\<close>

definition race_row :: "int64 \<Rightarrow> json_doc key_row" where
  "race_row n = \<lparr>kr_key_id = ''key_1'', kr_api_id = ''api_1'', kr_workspace_id = ''ws_1'', kr_owner_principal_id = ''u'',
     kr_name = ''k'', kr_key_hash = string_bytes ''secret'', kr_permissions = [], kr_limit_refs = JRefs [],
     kr_expires_at = None, kr_remaining_uses = n, kr_enabled = True, kr_created_at = 0,
     kr_updated_at = (if n = 1 then 0 else 1234000), kr_last_verified_at = None, kr_metadata = JObject Map.empty\<rparr>"

definition race_db :: "int64 \<Rightarrow> json_doc pg_db" where
  "race_db n = \<lparr>db_workspaces = [], db_apis = [], db_keys = [race_row n]\<rparr>"

definition race_key :: Key where
  "race_key = \<lparr>k_KeyID = ''key_1'', k_APIID = ''api_1'', k_WorkspaceID = ''ws_1'', k_OwnerPrincipalID = ''u'',
     k_Name = ''k'', k_KeyHash = string_bytes ''secret'', k_Permissions = [], k_LimitRefs = [], k_ExpiresAt = None,
     k_RemainingUses = 1, k_Enabled = True, k_CreatedAt = 0, k_UpdatedAt = 0, k_LastVerifiedAt = None, k_Metadata = None\<rparr>"

definition race_call :: "pg_env call" where
  "race_call = \<lparr>c_env = (\<lambda>_. pg_calm ''2''), c_now = 5, c_now' = 6, c_rand = []\<rparr>"

definition race_pg_server :: "(pg_env, json_doc pg_db, unit) Server" where
  "race_pg_server = \<lparr>srv_store = pg_Store pg_micro, srv_rl = None\<rparr>"

definition race_pg_jobs :: "(pg_env call \<times> PB_VerifyKeyRequest option) list" where
  "race_pg_jobs = [(race_call, demo_verify ''secret'' []), (race_call, demo_verify ''secret'' [])]"

lemmas race_pg_defs = race_db_def race_row_def race_key_def race_call_def race_pg_server_def pg_calm_def pg_micro_def
  demo_verify_def demo_libs_def

lemma race_pg_lookup:
  "verify_lookup demo_libs race_pg_server race_call (race_db 1) () (demo_verify ''secret'' []) =
     (PDecrement race_key (verify_response race_key), race_db 1, ())"
  by (simp add: verify_lookup_def race_pg_defs pg_Store_def pg_GetKeyByHash_def queryKey_def pg_exec_def query_row_def
      key_of_row_def keymat_Validate_def keymat_Hash_def Let_def after_checks_def unmarshalMetadata_def)

lemma race_pg_statements:
  "pg_verify_update pg_micro race_call (race_db 1) race_key resp = (At (PTouch race_key resp), race_db 0)"
  "pg_verify_update pg_micro race_call (race_db 0) race_key resp = (PSelect race_key resp, race_db 0)"
  "pg_verify_select race_call (race_db 0) race_key resp =
     (At (PDone (Inr (rejected resp VERIFY_RESULT_DEPLETED))), race_db 0)"
  by (simp_all add: pg_verify_update_def pg_verify_select_def decrement_update_def decrement_select_def race_pg_defs
      pg_exec_def query_row_def update_rows_def after_decrement_def Let_def)

lemma race_pg_run:
  "(pg_conc_step demo_libs pg_micro race_pg_server race_pg_jobs)\<^sup>*\<^sup>* (race_db 1, (), replicate 2 (At PStart))
     (race_db 0, (), [At (PTouch race_key (verify_response race_key)),
       At (PDone (Inr (rejected (verify_response race_key) VERIFY_RESULT_DEPLETED)))])"
proof -
  let ?step = "pg_conc_step demo_libs pg_micro race_pg_server race_pg_jobs"
  let ?resp = "verify_response race_key"
  let ?d = "At (PDecrement race_key ?resp)" and ?g = "At (PTouch race_key ?resp)"
  note job = race_pg_jobs_def
  note pg_update = pg_conc_step.pg_update [where L = demo_libs and srv = race_pg_server and jobs = race_pg_jobs and
      r = "()" and req = "demo_verify ''secret'' []"]
  note pg_select = pg_conc_step.pg_select [where L = demo_libs and P = pg_micro and srv = race_pg_server and
      jobs = race_pg_jobs and r = "()" and req = "demo_verify ''secret'' []"]
  note pg_lookup = pg_conc_step.pg_lookup [where P = pg_micro and jobs = race_pg_jobs]
  have st1: "?step (race_db 1, (), [At PStart, At PStart]) (race_db 1, (), [?d, At PStart])"
    using pg_lookup [OF _ _ _ race_pg_lookup, of 0 "[At PStart, At PStart]"] by (simp add: job)
  have st2: "?step (race_db 1, (), [?d, At PStart]) (race_db 1, (), [?d, ?d])"
    using pg_lookup [OF _ _ _ race_pg_lookup, of 1 "[?d, At PStart]"] by (simp add: job)
  have st3: "?step (race_db 1, (), [?d, ?d]) (race_db 0, (), [?g, ?d])"
    using pg_update [OF _ _ _ race_pg_statements(1), of 0 "[?d, ?d]" ?resp] by (simp add: job)
  have st4: "?step (race_db 0, (), [?g, ?d]) (race_db 0, (), [?g, PSelect race_key ?resp])"
    using pg_update [OF _ _ _ race_pg_statements(2), of 1 "[?g, ?d]" ?resp] by (simp add: job)
  have st5: "?step (race_db 0, (), [?g, PSelect race_key ?resp])
      (race_db 0, (), [?g, At (PDone (Inr (rejected ?resp VERIFY_RESULT_DEPLETED)))])"
    using pg_select [OF _ _ _ race_pg_statements(3), of 1 "[?g, PSelect race_key ?resp]" ?resp] by (simp add: job)
  have two: "replicate 2 (At PStart) = [At PStart, At PStart]" by (simp add: numeral_2_eq_2)
  show ?thesis
    unfolding two
    by (rule converse_rtranclp_into_rtranclp [OF st1 converse_rtranclp_into_rtranclp [OF st2
        converse_rtranclp_into_rtranclp [OF st3 converse_rtranclp_into_rtranclp [OF st4 r_into_rtranclp [of ?step, OF st5]]]]])
qed

theorem pg_no_overspend_witness:
  "\<exists>y. row_credit ''key_1'' y (race_db 0) \<and>
     int (pg_grants ''key_1'' [At (PTouch race_key (verify_response race_key)),
       At (PDone (Inr (rejected (verify_response race_key) VERIFY_RESULT_DEPLETED)))]) + sint y \<le> 1"
proof -
  have "row_credit ''key_1'' 1 (race_db 1)" "0 \<le> sint (1 :: int64)" "srv_store race_pg_server = pg_Store pg_micro"
    by (simp_all add: row_credit_def credits_def race_pg_defs)
  from pg_no_overspend [OF this race_pg_run] show ?thesis by auto
qed

end
