(* ===== verification/KC_Text.thy ===== *)
theory KC_Text
  imports KC_Prelude
begin

text \<open>
  Text as Go's standard library treats it, as far as the configuration needs it: characters and
  hexadecimal digits, UTF-8, \<open>strings.Cut\<close> and \<open>strings.ToLower\<close>, the quoting of \<open>%q\<close>
  (\<open>strconv.Quote\<close>) and the strings of \<open>encoding/json\<close>. Strings are byte sequences, so text that is
  not UTF-8 is covered. The tables of the Unicode database are a parameter, \<open>ucd\<close>; they matter only
  beyond ASCII.
\<close>

section \<open>Characters\<close>

abbreviation char_code :: "char \<Rightarrow> nat" where
  "char_code c \<equiv> of_char c"

definition is_digit :: "char \<Rightarrow> bool" where
  "is_digit c \<longleftrightarrow> 48 \<le> char_code c \<and> char_code c \<le> 57"

definition is_upper :: "char \<Rightarrow> bool" where
  "is_upper c \<longleftrightarrow> 65 \<le> char_code c \<and> char_code c \<le> 90"

definition is_lower :: "char \<Rightarrow> bool" where
  "is_lower c \<longleftrightarrow> 97 \<le> char_code c \<and> char_code c \<le> 122"

definition is_alnum :: "char \<Rightarrow> bool" where
  "is_alnum c \<longleftrightarrow> is_lower c \<or> is_upper c \<or> is_digit c"

definition is_control :: "char \<Rightarrow> bool" where
  "is_control c \<longleftrightarrow> char_code c < 32 \<or> char_code c = 127"

lemmas char_class_defs [go_defs] = is_digit_def is_upper_def is_lower_def is_alnum_def is_control_def

definition ishex :: "char \<Rightarrow> bool" where
  "ishex c \<longleftrightarrow> is_digit c \<or> 97 \<le> char_code c \<and> char_code c \<le> 102 \<or> 65 \<le> char_code c \<and> char_code c \<le> 70"

definition unhex :: "char \<Rightarrow> nat" where
  "unhex c =
     (if is_digit c then char_code c - 48
      else if 97 \<le> char_code c \<and> char_code c \<le> 102 then char_code c - 87
      else char_code c - 55)"

definition upperhex :: "nat \<Rightarrow> char" where
  "upperhex n = char_of (if n < 10 then 48 + n else 55 + n)"

definition lowerhex :: "nat \<Rightarrow> char" where
  "lowerhex n = char_of (if n < 10 then 48 + n else 87 + n)"

lemma char_code_upperhex: "n < 16 \<Longrightarrow> char_code (upperhex n) = (if n < 10 then 48 + n else 55 + n)"
  by (simp add: upperhex_def)

lemma upperhex_digit:
  assumes "n < 16"
  shows "ishex (upperhex n)" "unhex (upperhex n) = n" "is_alnum (upperhex n)"
  using assms by (simp_all add: ishex_def unhex_def go_defs char_code_upperhex)

text \<open>A byte is its two hexadecimal digits.\<close>

lemma hex_byte: "char_of (char_code c div 16 * 16 + char_code c mod 16) = c"
  by simp

lemma char_code_less: "char_code c < 256"
  using of_char_mod_256 [of c, where ?'a = nat] by (metis mod_less_divisor zero_less_numeral)

lemma nibbles_less: "char_code c div 16 < 16" "char_code c mod 16 < 16"
  using char_code_less [of c] by (simp_all add: less_mult_imp_div_less)

section \<open>Cutting\<close>

text \<open>\<open>strings.Cut\<close> at the first occurrence of a byte; \<open>strings.LastIndex\<close> as a cut at the last one.\<close>

definition Cut :: "char \<Rightarrow> string \<Rightarrow> string \<times> string" where
  "Cut sep s = (takeWhile (\<lambda>c. c \<noteq> sep) s, drop 1 (dropWhile (\<lambda>c. c \<noteq> sep) s))"

definition cut_last :: "char \<Rightarrow> string \<Rightarrow> string \<times> string" where
  "cut_last sep s = (case Cut sep (rev s) of (behind, front) \<Rightarrow> (rev front, rev behind))"

lemma While_sep:
  "sep \<notin> set a \<Longrightarrow> takeWhile (\<lambda>c. c \<noteq> sep) (a @ sep # b) = a"
  "sep \<notin> set a \<Longrightarrow> dropWhile (\<lambda>c. c \<noteq> sep) (a @ sep # b) = sep # b"
  "sep \<notin> set a \<Longrightarrow> takeWhile (\<lambda>c. c \<noteq> sep) a = a"
  "sep \<notin> set a \<Longrightarrow> dropWhile (\<lambda>c. c \<noteq> sep) a = []"
  by (induction a) auto

lemma Cut_sep [simp]: "sep \<notin> set a \<Longrightarrow> Cut sep (a @ sep # b) = (a, b)"
  by (simp add: Cut_def While_sep)

lemma Cut_none [simp]: "sep \<notin> set a \<Longrightarrow> Cut sep a = (a, [])"
  by (simp add: Cut_def While_sep)

lemma cut_last_sep [simp]: "sep \<notin> set b \<Longrightarrow> cut_last sep (a @ sep # b) = (a, b)"
  using Cut_sep [of sep "rev b" "rev a"] by (simp add: cut_last_def)

lemma Cut_rest_less: "s \<noteq> [] \<Longrightarrow> length (snd (Cut sep s)) < length s"
  using length_dropWhile_le [of "\<lambda>c. c \<noteq> sep" s] by (cases s) (simp_all add: Cut_def)

section \<open>UTF-8\<close>

record ucd =
  uc_ToLower :: "nat \<Rightarrow> nat"
  uc_IsPrint :: "nat \<Rightarrow> bool"

definition RuneError :: nat where
  "RuneError = 0xFFFD"

text \<open>The rune at the front and its width, unless the front is not a valid encoding.\<close>

definition DecodeRune :: "string \<Rightarrow> (nat \<times> nat) option" where
  "DecodeRune s =
     (let cont = (\<lambda>b. 0x80 \<le> b \<and> b \<le> 0xBF) in
      case map char_code s of
        [] \<Rightarrow> None
      | b0 # t \<Rightarrow>
          if b0 < 0x80 then Some (b0, 1)
          else if 0xC2 \<le> b0 \<and> b0 \<le> 0xDF then
            (case t of
               b1 # _ \<Rightarrow> if cont b1 then Some ((b0 - 0xC0) * 0x40 + (b1 - 0x80), 2) else None
             | _ \<Rightarrow> None)
          else if 0xE0 \<le> b0 \<and> b0 \<le> 0xEF then
            (case t of
               b1 # b2 # _ \<Rightarrow>
                 if (if b0 = 0xE0 then 0xA0 else 0x80) \<le> b1 \<and> b1 \<le> (if b0 = 0xED then 0x9F else 0xBF) \<and> cont b2
                 then Some ((b0 - 0xE0) * 0x1000 + (b1 - 0x80) * 0x40 + (b2 - 0x80), 3) else None
             | _ \<Rightarrow> None)
          else if 0xF0 \<le> b0 \<and> b0 \<le> 0xF4 then
            (case t of
               b1 # b2 # b3 # _ \<Rightarrow>
                 if (if b0 = 0xF0 then 0x90 else 0x80) \<le> b1 \<and> b1 \<le> (if b0 = 0xF4 then 0x8F else 0xBF) \<and>
                   cont b2 \<and> cont b3
                 then Some ((b0 - 0xF0) * 0x40000 + (b1 - 0x80) * 0x1000 + (b2 - 0x80) * 0x40 + (b3 - 0x80), 4)
                 else None
             | _ \<Rightarrow> None)
          else None)"

text \<open>A string as Go ranges over it: runes with their bytes, and the bytes that are not part of one.\<close>

function runes :: "string \<Rightarrow> (nat option \<times> string) list" where
  "runes [] = []"
| "runes (c # s) =
     (case DecodeRune (c # s) of
        None \<Rightarrow> (None, [c]) # runes s
      | Some (r, n) \<Rightarrow> (Some r, take n (c # s)) # runes (drop (n - 1) s))"
  by pat_completeness auto
termination by (relation "measure length") auto

definition EncodeRune :: "nat \<Rightarrow> string" where
  "EncodeRune r =
     map char_of
       (if r < 0x80 then [r]
        else if r < 0x800 then [0xC0 + r div 0x40, 0x80 + r mod 0x40]
        else if 0x10FFFF < r \<or> 0xD800 \<le> r \<and> r \<le> 0xDFFF then [0xEF, 0xBF, 0xBD]
        else if r < 0x10000 then [0xE0 + r div 0x1000, 0x80 + r div 0x40 mod 0x40, 0x80 + r mod 0x40]
        else [0xF0 + r div 0x40000, 0x80 + r div 0x1000 mod 0x40, 0x80 + r div 0x40 mod 0x40, 0x80 + r mod 0x40])"

text \<open>Nothing is lost by ranging over a string.\<close>

lemma runes_concat: "concat (map snd (runes s)) = s"
proof (induction s rule: runes.induct)
  case (2 c s)
  have "0 < n" if "DecodeRune (c # s) = Some (r, n)" for r n
    using that by (auto simp: DecodeRune_def Let_def split: if_splits list.splits)
  then show ?case using 2 by (auto simp: take_Cons' split: option.split prod.split)
qed simp

definition is_ascii :: "string \<Rightarrow> bool" where
  "is_ascii s \<longleftrightarrow> list_all (\<lambda>c. char_code c < 0x80) s"

lemma runes_ascii: "is_ascii s \<Longrightarrow> runes s = map (\<lambda>c. (Some (char_code c), [c])) s"
  by (induction s) (simp_all add: is_ascii_def DecodeRune_def)

section \<open>Lower case and quoting\<close>

definition lower_char :: "char \<Rightarrow> char" where
  "lower_char c = (if is_upper c then char_of (char_code c + 32) else c)"

definition rune_ToLower :: "ucd \<Rightarrow> nat \<Rightarrow> nat" where
  "rune_ToLower U r = (if r < 0x80 then if 65 \<le> r \<and> r \<le> 90 then r + 32 else r else uc_ToLower U r)"

definition ToLower :: "ucd \<Rightarrow> string \<Rightarrow> string" where
  "ToLower U s =
     (if is_ascii s then map lower_char s
      else concat (map (\<lambda>(r, _). EncodeRune (rune_ToLower U (case r of None \<Rightarrow> RuneError | Some r \<Rightarrow> r))) (runes s)))"

text \<open>On ASCII text both branches agree, so the first is only a shortcut.\<close>

lemma ToLower_ascii:
  assumes "is_ascii s"
  shows "concat (map (\<lambda>(r, _). EncodeRune (rune_ToLower U (case r of None \<Rightarrow> RuneError | Some r \<Rightarrow> r))) (runes s)) =
    map lower_char s"
  using assms
  by (simp add: runes_ascii) (induction s, auto simp: is_ascii_def EncodeRune_def rune_ToLower_def lower_char_def is_upper_def)

definition hex2 :: "nat \<Rightarrow> string" where
  "hex2 n = [lowerhex (n div 16 mod 16), lowerhex (n mod 16)]"

definition quote_rune :: "ucd \<Rightarrow> nat \<Rightarrow> string" where
  "quote_rune U r =
     (if r = 34 \<or> r = 92 then [char_of (92 :: nat), char_of r]
      else if (if r < 0x80 then 32 \<le> r \<and> r < 127 else uc_IsPrint U r) then EncodeRune r
      else if 7 \<le> r \<and> r \<le> 13 then [char_of (92 :: nat), ''abtnvfr'' ! (r - 7)]
      else if r < 32 \<or> r = 127 then char_of (92 :: nat) # CHR ''x'' # hex2 r
      else if r < 0x10000 then char_of (92 :: nat) # CHR ''u'' # hex2 (r div 256) @ hex2 r
      else char_of (92 :: nat) # CHR ''U'' # hex2 (r div 0x1000000) @ hex2 (r div 0x10000) @ hex2 (r div 256) @ hex2 r)"

definition Quote :: "ucd \<Rightarrow> string \<Rightarrow> string" where
  "Quote U s =
     (let dq = char_of (34 :: nat)
      in [dq] @ concat (map (\<lambda>(r, bs). case r of
           None \<Rightarrow> char_of (92 :: nat) # CHR ''x'' # hex2 (char_code (hd bs))
         | Some r \<Rightarrow> quote_rune U r) (runes s)) @ [dq])"

section \<open>JSON strings\<close>

text \<open>A string as \<open>encoding/json\<close> writes it, with the escapes for HTML.\<close>

definition json_rune :: "nat option \<times> string \<Rightarrow> string" where
  "json_rune p =
     (let bs = char_of (92 :: nat) in
      case p of
        (None, _) \<Rightarrow> bs # ''ufffd''
      | (Some r, cs) \<Rightarrow>
          if r = 34 \<or> r = 92 then [bs, char_of r]
          else if r = 8 then [bs, CHR ''b''] else if r = 9 then [bs, CHR ''t''] else if r = 10 then [bs, CHR ''n'']
          else if r = 12 then [bs, CHR ''f''] else if r = 13 then [bs, CHR ''r'']
          else if r < 32 \<or> r = 60 \<or> r = 62 \<or> r = 38 then bs # ''u00'' @ hex2 r
          else if r = 0x2028 \<or> r = 0x2029 then bs # ''u202'' @ [lowerhex (r mod 16)]
          else cs)"

definition json_string :: "string \<Rightarrow> string" where
  "json_string s = (let dq = char_of (34 :: nat) in [dq] @ concat (map json_rune (runes s)) @ [dq])"

end
