(* ===== verification/KC_Url.thy ===== *)
theory KC_Url
  imports KC_Text
begin

text \<open>
  Package \<open>net/url\<close> of Go's standard library, as far as the configuration uses it: parsing a URL,
  its query values, and printing it again. The parameter \<open>G\<close> supplies the Unicode tables, the limit
  on the number of query parameters (a setting of the runtime), and the check of hosts with brackets
  or more than one colon, which rests on package \<open>net/netip\<close> and on the release. The locale
  \<open>component\<close> states what the parts of a URL rely on when they are written next to each other: an
  escaped part can be read back, and does not contain the separators.
\<close>

section \<open>Escaping\<close>

datatype encoding = encodePath | encodeHost | encodeUserPassword | encodeQueryComponent | encodeFragment

definition shouldEscape :: "char \<Rightarrow> encoding \<Rightarrow> bool" where
  "shouldEscape c mode =
     (if is_alnum c then False
      else if mode = encodeHost \<and> (c \<in> set ''!$&()*+,;=:[]<>'' \<or> char_code c = 34 \<or> char_code c = 39) then False
      else if c \<in> set ''-_.~'' then False
      else if c \<in> set ''$&+,/:;=?@'' \<and> mode \<noteq> encodeHost then
        (case mode of
           encodePath \<Rightarrow> c = CHR ''?''
         | encodeUserPassword \<Rightarrow> c \<in> set ''@/?:''
         | encodeQueryComponent \<Rightarrow> True
         | _ \<Rightarrow> False)
      else if mode = encodeFragment \<and> c \<in> set ''!()*'' then False
      else True)"

definition escape_char :: "encoding \<Rightarrow> char \<Rightarrow> string" where
  "escape_char mode c =
     (if shouldEscape c mode then
        if c = CHR '' '' \<and> mode = encodeQueryComponent then ''+''
        else [CHR ''%'', upperhex (char_code c div 16), upperhex (char_code c mod 16)]
      else [c])"

definition escape :: "encoding \<Rightarrow> string \<Rightarrow> string" where
  "escape mode s = concat (map (escape_char mode) s)"

text \<open>The error messages: \<open>EscapeError\<close> and \<open>InvalidHostError\<close>.\<close>

definition EscapeError :: "ucd \<Rightarrow> string \<Rightarrow> string" where
  "EscapeError U s = ''invalid URL escape '' @ Quote U s"

definition InvalidHostError :: "ucd \<Rightarrow> string \<Rightarrow> string" where
  "InvalidHostError U s = ''invalid character '' @ Quote U s @ '' in host name''"

fun unescape :: "ucd \<Rightarrow> encoding \<Rightarrow> string \<Rightarrow> string + string" where
  "unescape U mode [] = Inr []"
| "unescape U mode (c # s) =
     (if c = CHR ''%'' then
        (case s of
           a # b # s' \<Rightarrow>
             if \<not> ishex a \<or> \<not> ishex b then Inl (EscapeError U [c, a, b])
             else if mode = encodeHost \<and> unhex a < 8 \<and> [a, b] \<noteq> ''25'' then Inl (EscapeError U [c, a, b])
             else map_sum id (Cons (char_of (unhex a * 16 + unhex b))) (unescape U mode s')
         | _ \<Rightarrow> Inl (EscapeError U (c # s)))
      else if mode = encodeHost \<and> char_code c < 0x80 \<and> shouldEscape c mode then Inl (InvalidHostError U [c])
      else map_sum id (Cons (if c = CHR ''+'' \<and> mode = encodeQueryComponent then CHR '' '' else c)) (unescape U mode s))"

definition validEncoded :: "encoding \<Rightarrow> string \<Rightarrow> bool" where
  "validEncoded mode s \<longleftrightarrow>
     list_all (\<lambda>c. c \<in> set ''!$&()*+,;=:@[]%'' \<or> char_code c = 39 \<or> \<not> shouldEscape c mode) s"

section \<open>Parsing\<close>

record url =
  u_Scheme :: string
  u_Opaque :: string
  u_User :: "(string \<times> string option) option"
  u_Host :: string
  u_Path :: string
  u_RawPath :: string
  u_OmitHost :: bool
  u_ForceQuery :: bool
  u_RawQuery :: string
  u_Fragment :: string
  u_RawFragment :: string

record golib =
  gl_ucd :: ucd
  gl_parseHost :: "string \<Rightarrow> string \<Rightarrow> string + string"
  gl_maxParams :: "nat option"

definition empty_url :: url where
  "empty_url = \<lparr>u_Scheme = [], u_Opaque = [], u_User = None, u_Host = [], u_Path = [], u_RawPath = [], u_OmitHost = False,
     u_ForceQuery = False, u_RawQuery = [], u_Fragment = [], u_RawFragment = []\<rparr>"

definition scheme_char :: "char \<Rightarrow> bool" where
  "scheme_char c \<longleftrightarrow> is_lower c \<or> is_upper c \<or> is_digit c \<or> c \<in> set ''+-.''"

definition getScheme :: "string \<Rightarrow> string + string \<times> string" where
  "getScheme raw =
     (let front = takeWhile scheme_char raw; back = dropWhile scheme_char raw
      in if front \<noteq> [] \<and> \<not> (is_lower (hd front) \<or> is_upper (hd front)) then Inr ([], raw)
         else if back = [] \<or> hd back \<noteq> CHR '':'' then Inr ([], raw)
         else if front = [] then Inl ''missing protocol scheme''
         else Inr (front, tl back))"

definition validOptionalPort :: "string \<Rightarrow> bool" where
  "validOptionalPort port \<longleftrightarrow> port = [] \<or> hd port = CHR '':'' \<and> list_all is_digit (tl port)"

definition parseHost :: "golib \<Rightarrow> string \<Rightarrow> string \<Rightarrow> string + string" where
  "parseHost G scheme host =
     (if CHR ''['' \<in> set host \<or> 1 < count_list host CHR '':'' then gl_parseHost G scheme host
      else
        let port = dropWhile (\<lambda>c. c \<noteq> CHR '':'') host
        in if \<not> validOptionalPort port then Inl (''invalid port '' @ Quote (gl_ucd G) port @ '' after host'')
           else unescape (gl_ucd G) encodeHost host)"

definition validUserinfo :: "string \<Rightarrow> bool" where
  "validUserinfo s \<longleftrightarrow> list_all (\<lambda>c. is_alnum c \<or> c \<in> set ''-._:~!$&()*+,;=%@'' \<or> char_code c = 39) s"

definition parseAuthority :: "golib \<Rightarrow> string \<Rightarrow> string \<Rightarrow> string + (string \<times> string option) option \<times> string" where
  "parseAuthority G scheme authority =
     (let U = gl_ucd G in
      if CHR ''@'' \<notin> set authority then map_sum id (Pair None) (parseHost G scheme authority)
      else
        let (userinfo, hostport) = cut_last CHR ''@'' authority
        in case parseHost G scheme hostport of
             Inl err \<Rightarrow> Inl err
           | Inr host \<Rightarrow>
               if \<not> validUserinfo userinfo then Inl ''net/url: invalid userinfo''
               else if CHR '':'' \<notin> set userinfo
               then map_sum id (\<lambda>name. (Some (name, None), host)) (unescape U encodeUserPassword userinfo)
               else
                 let (username, password) = Cut CHR '':'' userinfo
                 in case unescape U encodeUserPassword username of
                      Inl err \<Rightarrow> Inl err
                    | Inr name \<Rightarrow>
                        map_sum id (\<lambda>pwd. (Some (name, Some pwd), host)) (unescape U encodeUserPassword password))"

definition setPath :: "ucd \<Rightarrow> url \<Rightarrow> string \<Rightarrow> string + url" where
  "setPath U u p =
     map_sum id (\<lambda>path. u\<lparr>u_Path := path, u_RawPath := (if p = escape encodePath path then [] else p)\<rparr>)
       (unescape U encodePath p)"

definition setFragment :: "ucd \<Rightarrow> url \<Rightarrow> string \<Rightarrow> string + url" where
  "setFragment U u f =
     map_sum id (\<lambda>frag. u\<lparr>u_Fragment := frag, u_RawFragment := (if f = escape encodeFragment frag then [] else f)\<rparr>)
       (unescape U encodeFragment f)"

definition has_prefix :: "string \<Rightarrow> string \<Rightarrow> bool" where
  "has_prefix p s \<longleftrightarrow> take (length p) s = p"

text \<open>\<open>parse\<close> with \<open>viaRequest\<close> false; the fragment has been cut off.\<close>

definition parse_rest :: "golib \<Rightarrow> url \<Rightarrow> string \<Rightarrow> string + url" where
  "parse_rest G u rest =
     (if \<not> has_prefix ''/'' rest \<and> u_Scheme u \<noteq> [] then Inr (u\<lparr>u_Opaque := rest\<rparr>)
      else if \<not> has_prefix ''/'' rest \<and> CHR '':'' \<in> set (fst (Cut CHR ''/'' rest))
      then Inl ''first path segment in URL cannot contain colon''
      else if (u_Scheme u \<noteq> [] \<or> \<not> has_prefix ''///'' rest) \<and> has_prefix ''//'' rest then
        let authority = takeWhile (\<lambda>c. c \<noteq> CHR ''/'') (drop 2 rest);
            rest = dropWhile (\<lambda>c. c \<noteq> CHR ''/'') (drop 2 rest)
        in case parseAuthority G (u_Scheme u) authority of
             Inl err \<Rightarrow> Inl err
           | Inr (user, host) \<Rightarrow> setPath (gl_ucd G) (u\<lparr>u_User := user, u_Host := host\<rparr>) rest
      else
        setPath (gl_ucd G) (if u_Scheme u \<noteq> [] \<and> has_prefix ''/'' rest then u\<lparr>u_OmitHost := True\<rparr> else u) rest)"

definition parse :: "golib \<Rightarrow> string \<Rightarrow> string + url" where
  "parse G raw =
     (if list_ex is_control raw then Inl ''net/url: invalid control character in URL''
      else if raw = ''*'' then Inr (empty_url\<lparr>u_Path := ''*''\<rparr>)
      else
        case getScheme raw of
          Inl err \<Rightarrow> Inl err
        | Inr (scheme, rest) \<Rightarrow>
            let u = empty_url\<lparr>u_Scheme := ToLower (gl_ucd G) scheme\<rparr>
            in if rest \<noteq> [] \<and> last rest = CHR ''?'' \<and> count_list rest CHR ''?'' = 1
               then parse_rest G (u\<lparr>u_ForceQuery := True\<rparr>) (butlast rest)
               else let (rest, query) = Cut CHR ''?'' rest in parse_rest G (u\<lparr>u_RawQuery := query\<rparr>) rest)"

definition url_Parse :: "golib \<Rightarrow> string \<Rightarrow> goerr + url" where
  "url_Parse G raw =
     (let U = gl_ucd G; (u, frag) = Cut CHR ''#'' raw;
          failed = (\<lambda>text err. Opaque (''parse '' @ Quote U text @ '': '' @ err))
      in case parse G u of
           Inl err \<Rightarrow> Inl (failed u err)
         | Inr url \<Rightarrow> if frag = [] then Inr url else map_sum (failed raw) id (setFragment U url frag))"

section \<open>Query values\<close>

text \<open>A map from keys to their values, as the list of its entries.\<close>

type_synonym url_values = "(string \<times> string list) list"

fun values_append :: "string \<Rightarrow> string \<Rightarrow> url_values \<Rightarrow> url_values" where
  "values_append k v [] = [(k, [v])]"
| "values_append k v ((k', vs) # m) =
     (if k = k' then (k', vs @ [v]) # m else (k', vs) # values_append k v m)"

text \<open>One pair between ampersands. A pair with a semicolon, or with a bad escape, is dropped.\<close>

definition query_pair :: "ucd \<Rightarrow> string \<Rightarrow> (string \<times> string) option" where
  "query_pair U pair =
     (if CHR '';'' \<in> set pair \<or> pair = [] then None
      else
        let (k, v) = Cut CHR ''='' pair
        in case unescape U encodeQueryComponent k of
             Inl err \<Rightarrow> None
           | Inr k \<Rightarrow>
               (case unescape U encodeQueryComponent v of Inl err \<Rightarrow> None | Inr v \<Rightarrow> Some (k, v)))"

definition add_pair :: "ucd \<Rightarrow> url_values \<Rightarrow> string \<Rightarrow> url_values" where
  "add_pair U m pair = (case query_pair U pair of None \<Rightarrow> m | Some (k, v) \<Rightarrow> values_append k v m)"

function parseQuery :: "ucd \<Rightarrow> url_values \<Rightarrow> string \<Rightarrow> url_values" where
  "parseQuery U m query =
     (if query = [] then m
      else
        let pair = fst (Cut CHR ''&'' query); query' = snd (Cut CHR ''&'' query)
        in parseQuery U (add_pair U m pair) query')"
  by pat_completeness auto
termination by (relation "measure (\<lambda>(U, m, query). length query)") (auto simp: Cut_rest_less)

declare parseQuery.simps [simp del]

definition url_Query :: "golib \<Rightarrow> string \<Rightarrow> url_values" where
  "url_Query G raw =
     (case gl_maxParams G of
        Some n \<Rightarrow> if n < count_list raw CHR ''&'' + 1 then [] else parseQuery (gl_ucd G) [] raw
      | None \<Rightarrow> parseQuery (gl_ucd G) [] raw)"

fun join_pairs :: "string list \<Rightarrow> string" where
  "join_pairs [] = []"
| "join_pairs [p] = p"
| "join_pairs (p # q # ps) = p @ CHR ''&'' # join_pairs (q # ps)"

definition encode_entry :: "string \<times> string list \<Rightarrow> string list" where
  "encode_entry e =
     map (\<lambda>v. escape encodeQueryComponent (fst e) @ CHR ''='' # escape encodeQueryComponent v) (snd e)"

definition Values_Encode :: "url_values \<Rightarrow> string" where
  "Values_Encode m = join_pairs (concat (map encode_entry (sort_key fst m)))"

section \<open>Printing\<close>

definition EscapedPath :: "ucd \<Rightarrow> url \<Rightarrow> string" where
  "EscapedPath U u =
     (if u_RawPath u \<noteq> [] \<and> validEncoded encodePath (u_RawPath u) \<and> unescape U encodePath (u_RawPath u) = Inr (u_Path u)
      then u_RawPath u
      else if u_Path u = ''*'' then ''*'' else escape encodePath (u_Path u))"

definition EscapedFragment :: "ucd \<Rightarrow> url \<Rightarrow> string" where
  "EscapedFragment U u =
     (if u_RawFragment u \<noteq> [] \<and> validEncoded encodeFragment (u_RawFragment u) \<and>
        unescape U encodeFragment (u_RawFragment u) = Inr (u_Fragment u)
      then u_RawFragment u else escape encodeFragment (u_Fragment u))"

definition Userinfo_String :: "string \<times> string option \<Rightarrow> string" where
  "Userinfo_String user =
     (case user of
        (name, None) \<Rightarrow> escape encodeUserPassword name
      | (name, Some pwd) \<Rightarrow>
          if name = [] \<and> pwd = [] then [] else escape encodeUserPassword name @ CHR '':'' # escape encodeUserPassword pwd)"

definition url_String :: "ucd \<Rightarrow> url \<Rightarrow> string" where
  "url_String U u =
     (let scheme = (if u_Scheme u \<noteq> [] then u_Scheme u @ '':'' else []);
          authority =
            (if (u_Scheme u \<noteq> [] \<or> u_Host u \<noteq> [] \<or> u_User u \<noteq> None) \<and>
                \<not> (u_OmitHost u \<and> u_Host u = [] \<and> u_User u = None)
             then (if u_Host u \<noteq> [] \<or> u_Path u \<noteq> [] \<or> u_User u \<noteq> None then ''//'' else []) @
                  (case u_User u of None \<Rightarrow> [] | Some user \<Rightarrow> Userinfo_String user @ ''@'') @ escape encodeHost (u_Host u)
             else []);
          path = EscapedPath U u;
          front = scheme @ authority @ (if path \<noteq> [] \<and> hd path \<noteq> CHR ''/'' \<and> u_Host u \<noteq> [] then ''/'' else []);
          dot = (if front = [] \<and> CHR '':'' \<in> set (fst (Cut CHR ''/'' path)) then ''./'' else []);
          body = (if u_Opaque u \<noteq> [] then scheme @ u_Opaque u else front @ dot @ path)
      in body @ (if u_ForceQuery u \<or> u_RawQuery u \<noteq> [] then CHR ''?'' # u_RawQuery u else []) @
         (if u_Fragment u \<noteq> [] then CHR ''#'' # EscapedFragment U u else []))"

section \<open>Parts that can be read back\<close>

lemma shouldEscape_special [simp]:
  "shouldEscape CHR ''%'' mode" "shouldEscape CHR '' '' mode" "shouldEscape CHR ''#'' mode"
  "mode \<noteq> encodeFragment \<Longrightarrow> shouldEscape CHR ''?'' mode"
  "shouldEscape CHR ''+'' encodeQueryComponent" "\<not> shouldEscape CHR ''/'' encodePath"
  by (cases mode; simp add: shouldEscape_def go_defs)+

lemma escape_simps [simp]:
  "escape mode [] = []" "escape mode (c # s) = escape_char mode c @ escape mode s"
  by (simp_all add: escape_def)

lemma unescape_escape: "mode \<noteq> encodeHost \<Longrightarrow> unescape U mode (escape mode s) = Inr s"
proof (induction s)
  case (Cons c s)
  show ?case
  proof (cases "shouldEscape c mode")
    case False
    then have "c \<noteq> CHR ''%''" "c = CHR ''+'' \<Longrightarrow> mode \<noteq> encodeQueryComponent" by auto
    with False Cons show ?thesis by (auto simp: escape_char_def)
  next
    case True
    with Cons show ?thesis by (auto simp: escape_char_def upperhex_digit nibbles_less)
  qed
qed simp

lemma set_escape:
  assumes "c \<in> set (escape mode s)"
  shows "c = CHR ''%'' \<or> is_alnum c \<or> c = CHR ''+'' \<and> mode = encodeQueryComponent \<or> \<not> shouldEscape c mode"
  using assms by (induction s) (auto simp: escape_char_def upperhex_digit nibbles_less split: if_splits)

lemma control_plain:
  assumes "is_control c"
  shows "\<not> is_alnum c" "c \<notin> set ''!$&()*+,;=:[]<>-_.~/?@%''" "char_code c \<noteq> 34 \<and> char_code c \<noteq> 39"
proof -
  have "list_all (\<lambda>c. \<not> is_control c) ''!$&()*+,;=:[]<>-_.~/?@%''" by code_simp
  then show "c \<notin> set ''!$&()*+,;=:[]<>-_.~/?@%''" using assms by (auto simp only: list_all_iff)
qed (use assms in \<open>auto simp: go_defs\<close>)

lemma control_escaped: "is_control c \<Longrightarrow> shouldEscape c mode"
  using control_plain [of c] by (simp add: shouldEscape_def)

locale component =
  fixes enc :: "'a \<Rightarrow> string" and dec :: "string \<Rightarrow> 'e + 'a" and kept_out :: "char set"
  assumes read_back: "dec (enc x) = Inr x"
    and clean: "c \<in> kept_out \<Longrightarrow> c \<notin> set (enc x)"
    and no_control: "is_control c \<Longrightarrow> c \<in> kept_out"
begin

lemma enc_inject: "enc x = enc y \<longleftrightarrow> x = y"
  using read_back by (metis sum.inject(2))

lemma printable: "\<not> list_ex is_control (enc x)"
  using clean no_control by (auto simp: list_ex_iff)

lemma cut_after: "sep \<in> kept_out \<Longrightarrow> Cut sep (enc x @ sep # rest) = (enc x, rest)"
  by (simp add: clean)

lemma cut_at_end: "sep \<in> kept_out \<Longrightarrow> Cut sep (enc x) = (enc x, [])"
  by (simp add: clean)

end

definition reserved_user :: "char set" where
  "reserved_user = {c. is_control c \<or> c \<in> set ''@/?:#''}"

definition reserved_query :: "char set" where
  "reserved_query = {c. is_control c \<or> c \<in> set ''&=;#?''}"

definition reserved_path :: "char set" where
  "reserved_path = {c. is_control c \<or> c \<in> set ''?#''}"

lemma escape_keeps_out:
  assumes "is_control c \<or> c \<in> set seps"
    and "list_all (\<lambda>c. shouldEscape c mode \<and> c \<notin> set ''%+'' \<and> \<not> is_alnum c) seps"
  shows "c \<notin> set (escape mode s)"
proof
  assume c: "c \<in> set (escape mode s)"
  from assms(1) show False
  proof
    assume "is_control c"
    then show False using set_escape [OF c] control_escaped [of c mode] control_plain [of c] by auto
  next
    assume "c \<in> set seps"
    with assms(2) have "shouldEscape c mode" "c \<notin> set ''%+''" "\<not> is_alnum c" by (simp_all only: list_all_iff) blast+
    then show False using set_escape [OF c] by auto
  qed
qed

interpretation user_part: component "escape encodeUserPassword" "unescape U encodeUserPassword" reserved_user for U
proof
  show "c \<notin> set (escape encodeUserPassword x)" if "c \<in> reserved_user" for c x
    by (rule escape_keeps_out [where seps = "''@/?:#''"]) (use that [unfolded reserved_user_def] in blast, code_simp)
qed (simp_all add: unescape_escape reserved_user_def)

interpretation query_part: component "escape encodeQueryComponent" "unescape U encodeQueryComponent" reserved_query for U
proof
  show "c \<notin> set (escape encodeQueryComponent x)" if "c \<in> reserved_query" for c x
    by (rule escape_keeps_out [where seps = "''&=;#?''"]) (use that [unfolded reserved_query_def] in blast, code_simp)
qed (simp_all add: unescape_escape reserved_query_def)

interpretation path_part: component "escape encodePath" "unescape U encodePath" reserved_path for U
proof
  show "c \<notin> set (escape encodePath x)" if "c \<in> reserved_path" for c x
    by (rule escape_keeps_out [where seps = "''?#''"]) (use that [unfolded reserved_path_def] in blast, code_simp)
qed (simp_all add: unescape_escape reserved_path_def)

lemma userinfo_valid: "validUserinfo (escape encodeUserPassword s)"
proof -
  have "is_alnum c \<or> c \<in> set ''-._:~!$&()*+,;=%@'' \<or> char_code c = 39" if "c \<in> set (escape encodeUserPassword s)" for c
    using set_escape [OF that] by (auto simp: shouldEscape_def split: if_splits)
  then show ?thesis by (simp add: validUserinfo_def list_all_iff)
qed

section \<open>Query values can be read back\<close>

lemma query_pair_encoded:
  "query_pair U (escape encodeQueryComponent k @ CHR ''='' # escape encodeQueryComponent v) = Some (k, v)"
proof -
  have "CHR ''='' \<in> reserved_query" "CHR '';'' \<in> reserved_query" by (simp_all add: reserved_query_def)
  then show ?thesis
    by (simp add: query_pair_def query_part.clean query_part.cut_after query_part.read_back)
qed

lemma parseQuery_join:
  assumes "\<And>p. p \<in> set ps \<Longrightarrow> CHR ''&'' \<notin> set p \<and> p \<noteq> []"
  shows "parseQuery U m (join_pairs ps) = foldl (add_pair U) m ps"
  using assms
proof (induction ps arbitrary: m rule: join_pairs.induct)
  case 1
  then show ?case by (simp add: parseQuery.simps)
next
  case (2 p)
  then show ?case by (subst parseQuery.simps) (simp add: parseQuery.simps)
next
  case (3 p q ps)
  then show ?case by (subst parseQuery.simps) simp
qed

lemma values_append_fresh: "k \<notin> fst ` set m \<Longrightarrow> values_append k v m = m @ [(k, [v])]"
  by (induction m) auto

lemma values_append_last: "k \<notin> fst ` set m \<Longrightarrow> values_append k v (m @ [(k, vs)]) = m @ [(k, vs @ [v])]"
  by (induction m) auto

lemma add_entry:
  assumes "k \<notin> fst ` set m" "vs \<noteq> []"
  shows "foldl (add_pair U) m (encode_entry (k, vs)) = m @ [(k, vs)]"
proof -
  have pair: "add_pair U m' (escape encodeQueryComponent k @ CHR ''='' # escape encodeQueryComponent v) =
      values_append k v m'" for m' v
    by (simp add: add_pair_def query_pair_encoded)
  have "foldl (add_pair U) (m @ [(k, us)]) (encode_entry (k, vs)) = m @ [(k, us @ vs)]" for us vs
    by (induction vs arbitrary: us) (simp_all add: encode_entry_def pair values_append_last [OF assms(1)])
  then show ?thesis
    using assms by (cases vs) (simp_all add: encode_entry_def pair values_append_fresh)
qed

definition proper_values :: "url_values \<Rightarrow> bool" where
  "proper_values m \<longleftrightarrow> distinct (map fst m) \<and> list_all (\<lambda>e. snd e \<noteq> []) m"

lemma add_entries:
  assumes "proper_values (m0 @ m)"
  shows "foldl (add_pair U) m0 (concat (map encode_entry m)) = m0 @ m"
  using assms
proof (induction m arbitrary: m0)
  case (Cons e m)
  then show ?case
    using add_entry [of "fst e" m0 "snd e" U] by (auto simp: proper_values_def)
qed simp

lemma encode_entry_clean:
  "p \<in> set (encode_entry e) \<Longrightarrow> p \<noteq> [] \<and> (c \<in> reserved_query \<longrightarrow> c \<noteq> CHR ''='' \<longrightarrow> c \<notin> set p)"
  by (auto simp: encode_entry_def query_part.clean)

text \<open>How many pairs a query has; the limit of the runtime.\<close>

definition within_limit :: "golib \<Rightarrow> url_values \<Rightarrow> bool" where
  "within_limit G m \<longleftrightarrow> (case gl_maxParams G of None \<Rightarrow> True | Some n \<Rightarrow> length (concat (map snd m)) \<le> n)"

lemma count_join:
  "ps \<noteq> [] \<Longrightarrow> (\<And>p. p \<in> set ps \<Longrightarrow> c \<notin> set p) \<Longrightarrow> c = CHR ''&'' \<Longrightarrow> Suc (count_list (join_pairs ps) c) = length ps"
  by (induction ps rule: join_pairs.induct) (simp_all add: count_notin)

lemma length_encoded: "length (concat (map encode_entry m)) = length (concat (map snd m))"
  by (induction m) (simp_all add: encode_entry_def)

lemma proper_sort: "proper_values (sort_key fst m) = proper_values m"
  by (simp add: proper_values_def list_all_iff distinct_map)

lemma within_sort: "within_limit G (sort_key fst m) = within_limit G m"
proof -
  have "mset (map (length \<circ> snd) (sort_key fst m)) = mset (map (length \<circ> snd) m)" by simp
  then have "sum_list (map (length \<circ> snd) (sort_key fst m)) = sum_list (map (length \<circ> snd) m)"
    by (metis sum_mset_sum_list)
  then show ?thesis by (simp add: within_limit_def length_concat comp_def split: option.split)
qed

lemma query_read_back:
  assumes "proper_values m" "within_limit G m"
  shows "url_Query G (Values_Encode m) = sort_key fst m"
proof -
  define m' where "m' = sort_key fst m"
  let ?ps = "concat (map encode_entry m')"
  have m': "proper_values m'" "within_limit G m'" using assms by (simp_all add: m'_def proper_sort within_sort)
  have amp: "CHR ''&'' \<in> reserved_query" by (simp add: reserved_query_def)
  then have clean: "CHR ''&'' \<notin> set p \<and> p \<noteq> []" if "p \<in> set ?ps" for p
    using that encode_entry_clean by auto
  have parsed: "parseQuery (gl_ucd G) [] (Values_Encode m) = m'"
    using parseQuery_join [of ?ps, OF clean] add_entries [of "[]" m'] m'(1)
    by (simp add: Values_Encode_def m'_def)
  show ?thesis
  proof (cases "?ps = []")
    case True
    then have "m' = []" using m'(1) by (cases m') (auto simp: proper_values_def encode_entry_def)
    then show ?thesis using parsed by (simp add: url_Query_def m'_def split: option.split)
  next
    case False
    then have "count_list (Values_Encode m) CHR ''&'' + 1 = length (concat (map snd m'))"
      using count_join [OF False, of "CHR ''&''"] clean by (simp add: Values_Encode_def m'_def length_encoded)
    then show ?thesis using parsed m'(2) by (simp add: url_Query_def within_limit_def m'_def split: option.splits)
  qed
qed

section \<open>Connection URLs\<close>

text \<open>A host name with an optional port, and a URL with user, password, host, path and query.\<close>

definition hostport :: "string \<Rightarrow> string option \<Rightarrow> string" where
  "hostport name port = name @ (case port of None \<Rightarrow> [] | Some p \<Rightarrow> CHR '':'' # p)"

definition plain_host :: "string \<Rightarrow> string option \<Rightarrow> bool" where
  "plain_host name port \<longleftrightarrow> name \<noteq> [] \<and> list_all (\<lambda>c. is_alnum c \<or> c \<in> set ''-.'') name \<and>
     (case port of None \<Rightarrow> True | Some p \<Rightarrow> list_all is_digit p)"

definition connection_url :: "string \<Rightarrow> string \<Rightarrow> string \<Rightarrow> string \<Rightarrow> string \<Rightarrow> url_values \<Rightarrow> string" where
  "connection_url scheme user password host db q =
     scheme @ ''://'' @ escape encodeUserPassword user @ '':'' @ escape encodeUserPassword password @ ''@'' @ host @
     ''/'' @ escape encodePath db @ (if q = [] then [] else CHR ''?'' # Values_Encode q)"

definition connection_parts :: "string \<Rightarrow> string \<Rightarrow> string \<Rightarrow> string \<Rightarrow> string \<Rightarrow> url_values \<Rightarrow> url" where
  "connection_parts scheme user password host db q =
     empty_url\<lparr>u_Scheme := scheme, u_User := Some (user, Some password), u_Host := host,
       u_Path := CHR ''/'' # db, u_RawQuery := Values_Encode q\<rparr>"

lemma plain_host_chars:
  assumes "plain_host name port" "c \<in> set (hostport name port)"
  shows "is_alnum c \<or> c \<in> set ''-.:''"
  using assms by (auto simp: plain_host_def hostport_def list_all_iff is_alnum_def split: option.splits)

lemma plain_host_clean:
  assumes "plain_host name port" "is_control c \<or> c \<in> set ''[@/?#%''"
  shows "c \<notin> set (hostport name port)"
proof -
  have "list_all (\<lambda>c. \<not> is_alnum c \<and> c \<notin> set ''-.:'') ''[@/?#%''" by code_simp
  then have "\<not> (is_alnum c \<or> c \<in> set ''-.:'')"
    using assms(2) control_plain [of c] by (auto simp only: list_all_iff) simp
  then show ?thesis using plain_host_chars [OF assms(1)] by blast
qed

lemma host_char_escape:
  assumes "is_alnum c \<or> c \<in> set ''-.:''"
  shows "\<not> shouldEscape c encodeHost" "c \<noteq> CHR ''%''"
proof -
  have "list_all (\<lambda>c. \<not> shouldEscape c encodeHost \<and> c \<noteq> CHR ''%'') ''-.:''" by code_simp
  moreover have "is_alnum c \<Longrightarrow> \<not> shouldEscape c encodeHost \<and> c \<noteq> CHR ''%''"
    by (auto simp: shouldEscape_def go_defs)
  ultimately show "\<not> shouldEscape c encodeHost" "c \<noteq> CHR ''%''"
    using assms by (auto simp only: list_all_iff)
qed

lemma host_text_escape:
  "list_all (\<lambda>c. is_alnum c \<or> c \<in> set ''-.:'') s \<Longrightarrow> escape encodeHost s = s \<and> unescape U encodeHost s = Inr s"
  by (induction s) (auto simp: escape_char_def host_char_escape simp del: list.set)

lemma plain_host_escape:
  assumes "plain_host name port"
  shows "escape encodeHost (hostport name port) = hostport name port"
    and "unescape U encodeHost (hostport name port) = Inr (hostport name port)"
  using host_text_escape [of "hostport name port"] plain_host_chars [OF assms] by (auto simp only: list_all_iff)

lemma parseHost_plain:
  assumes "plain_host name port"
  shows "parseHost G scheme (hostport name port) = Inr (hostport name port)"
proof -
  let ?colon = "CHR '':''"
  have "\<not> (is_alnum ?colon \<or> ?colon \<in> set ''-.'')" "\<not> is_digit ?colon" by (simp_all add: go_defs)
  then have name: "?colon \<notin> set name" and port: "\<And>p. port = Some p \<Longrightarrow> ?colon \<notin> set p"
    using assms by (auto simp: plain_host_def list_all_iff simp del: list.set)
  have rest: "dropWhile (\<lambda>c. c \<noteq> ?colon) (hostport name port) = (case port of None \<Rightarrow> [] | Some p \<Rightarrow> ?colon # p)"
    using name by (simp add: hostport_def While_sep split: option.split)
  have count: "count_list (hostport name port) ?colon \<le> 1"
    using name port by (cases port) (simp_all add: hostport_def count_notin)
  have "validOptionalPort (case port of None \<Rightarrow> [] | Some p \<Rightarrow> ?colon # p)"
    using assms by (auto simp: validOptionalPort_def plain_host_def split: option.splits)
  moreover have "CHR ''['' \<notin> set (hostport name port)" by (rule plain_host_clean [OF assms]) simp
  ultimately show ?thesis
    using count plain_host_escape(2) [OF assms] by (simp add: parseHost_def rest Let_def)
qed

lemma getScheme_letters:
  assumes "scheme \<noteq> []" "list_all is_lower scheme"
  shows "getScheme (scheme @ CHR '':'' # rest) = Inr (scheme, rest)"
proof -
  have "\<not> scheme_char CHR '':''" "\<And>c. c \<in> set scheme \<Longrightarrow> scheme_char c"
    using assms(2) by (simp_all add: scheme_char_def go_defs list_all_iff)
  then have "takeWhile scheme_char (scheme @ CHR '':'' # rest) = scheme"
    "dropWhile scheme_char (scheme @ CHR '':'' # rest) = CHR '':'' # rest"
    by (simp_all add: takeWhile_append2 dropWhile_append2)
  moreover have "is_lower (hd scheme)" using assms by (cases scheme) simp_all
  ultimately show ?thesis using assms(1) by (simp add: getScheme_def)
qed

lemma ToLower_lower: "list_all is_lower s \<Longrightarrow> ToLower U s = s"
proof -
  assume "list_all is_lower s"
  then have "is_ascii s" "map lower_char s = s"
    by (induction s) (auto simp: is_ascii_def lower_char_def go_defs)
  then show ?thesis by (simp add: ToLower_def)
qed

lemma Values_Encode_clean:
  assumes "c \<in> reserved_query" "c \<noteq> CHR ''=''" "c \<noteq> CHR ''&''"
  shows "c \<notin> set (Values_Encode m)"
proof -
  have join: "c \<notin> set (join_pairs ps)" if "\<And>p. p \<in> set ps \<Longrightarrow> c \<notin> set p" for ps
    using that assms(3) by (induction ps rule: join_pairs.induct) auto
  show ?thesis
    unfolding Values_Encode_def by (rule join) (use assms(1,2) encode_entry_clean in fastforce)
qed

lemma Values_Encode_Nil: "proper_values m \<Longrightarrow> Values_Encode m = [] \<longleftrightarrow> m = []"
proof
  assume m: "proper_values m" and enc: "Values_Encode m = []"
  have join: "ps = []" if "join_pairs ps = []" "\<And>p. p \<in> set ps \<Longrightarrow> p \<noteq> []" for ps
    using that by (induction ps rule: join_pairs.induct) auto
  have "concat (map encode_entry (sort_key fst m)) = []"
    by (rule join [OF enc [unfolded Values_Encode_def]]) (use encode_entry_clean in fastforce)
  then have "\<forall>e \<in> set m. snd e = []" by (auto simp: encode_entry_def)
  then show "m = []" using m by (cases m) (auto simp: proper_values_def)
qed (simp add: Values_Encode_def)

lemma parseAuthority_plain:
  assumes "plain_host name port"
  shows "parseAuthority G scheme (escape encodeUserPassword user @ CHR '':'' # escape encodeUserPassword password @
      CHR ''@'' # hostport name port) = Inr (Some (user, Some password), hostport name port)"
proof -
  let ?u = "escape encodeUserPassword user" and ?p = "escape encodeUserPassword password"
  have res: "CHR ''@'' \<in> reserved_user" "CHR '':'' \<in> reserved_user" by (simp_all add: reserved_user_def)
  have "CHR ''@'' \<notin> set (hostport name port)" by (rule plain_host_clean [OF assms]) simp
  then have "cut_last CHR ''@'' (?u @ CHR '':'' # ?p @ CHR ''@'' # hostport name port) = (?u @ CHR '':'' # ?p, hostport name port)"
    using cut_last_sep [of "CHR ''@''" "hostport name port" "?u @ CHR '':'' # ?p"] by simp
  moreover have "validUserinfo (?u @ CHR '':'' # ?p)"
    using userinfo_valid [of user] userinfo_valid [of password] by (simp add: validUserinfo_def)
  ultimately show ?thesis
    by (simp add: parseAuthority_def parseHost_plain [OF assms] user_part.cut_after [OF res(2)] user_part.read_back)
qed

text \<open>What a well-formed connection URL is made of.\<close>

definition connection_ok :: "string \<Rightarrow> string \<Rightarrow> string option \<Rightarrow> url_values \<Rightarrow> bool" where
  "connection_ok scheme name port q \<longleftrightarrow>
     scheme \<noteq> [] \<and> list_all is_lower scheme \<and> plain_host name port \<and> proper_values q"

lemma setPath_escaped:
  "setPath U u (CHR ''/'' # escape encodePath db) = Inr (u\<lparr>u_Path := CHR ''/'' # db, u_RawPath := []\<rparr>)"
proof -
  have "CHR ''/'' # escape encodePath db = escape encodePath (CHR ''/'' # db)" by (simp add: escape_char_def)
  then show ?thesis by (simp only: setPath_def path_part.read_back map_sum.simps if_P)
qed

lemma parse_rest_authority:
  assumes "u_Scheme u \<noteq> []" "CHR ''/'' \<notin> set auth" "parseAuthority G (u_Scheme u) auth = Inr (user, host)"
  shows "parse_rest G u (''//'' @ auth @ CHR ''/'' # escape encodePath db) =
    Inr (u\<lparr>u_User := user, u_Host := host, u_Path := CHR ''/'' # db, u_RawPath := []\<rparr>)"
  using assms While_sep(1,2) [OF assms(2), of "escape encodePath db"]
  by (simp add: parse_rest_def has_prefix_def setPath_escaped)

lemma query_cut:
  assumes "c \<notin> set front"
  shows "Cut c (front @ (if query = [] then [] else c # query)) = (front, query)"
    and "front \<noteq> [] \<Longrightarrow> last (front @ (if query = [] then [] else c # query)) = c \<Longrightarrow>
      count_list (front @ (if query = [] then [] else c # query)) c \<noteq> 1"
  using assms last_in_set [of front] last_in_set [of query] by (auto simp: count_notin count_list_0_iff)

lemma parse_split:
  assumes "list_ex is_control raw = False" "raw \<noteq> ''*''"
    and "getScheme raw = Inr (scheme, front @ (if query = [] then [] else CHR ''?'' # query))"
    and "CHR ''?'' \<notin> set front" "front \<noteq> []"
  shows "parse G raw = parse_rest G (empty_url\<lparr>u_Scheme := ToLower (gl_ucd G) scheme, u_RawQuery := query\<rparr>) front"
  using assms query_cut [OF assms(4), of query]
  by (simp only: parse_def if_False sum.case prod.case Let_def) auto

lemma url_Parse_plain:
  assumes "CHR ''#'' \<notin> set raw" "parse G raw = Inr u"
  shows "url_Parse G raw = Inr u"
  using assms by (simp add: url_Parse_def)

text \<open>A hierarchical URL: the characters of its parts decide where they end.\<close>

definition authority_ok :: "string \<Rightarrow> bool" where
  "authority_ok auth \<longleftrightarrow> (\<forall>c. is_control c \<or> c \<in> set ''/?#'' \<longrightarrow> c \<notin> set auth)"

lemma url_Parse_hierarchical:
  fixes query
  defines "q \<equiv> if query = [] then [] else CHR ''?'' # query"
  assumes scheme: "scheme \<noteq> []" "list_all is_lower scheme" and auth: "authority_ok auth"
    and parsed: "parseAuthority G scheme auth = Inr (user, host)"
    and query: "\<And>c. is_control c \<or> c = CHR ''#'' \<Longrightarrow> c \<notin> set query"
  shows "url_Parse G (scheme @ ''://'' @ auth @ CHR ''/'' # escape encodePath db @ q) =
    Inr (empty_url\<lparr>u_Scheme := scheme, u_User := user, u_Host := host, u_Path := CHR ''/'' # db, u_RawQuery := query\<rparr>)"
    (is "url_Parse G ?raw = Inr ?url")
proof -
  let ?front = "''//'' @ auth @ CHR ''/'' # escape encodePath db"
  have raw: "?raw = scheme @ CHR '':'' # ?front @ q" by simp
  have front: "c \<notin> set ?front" if sep: "is_control c \<or> c \<in> set ''?#''" for c
  proof -
    consider "is_control c" | "c = CHR ''?''" | "c = CHR ''#''" using sep by auto
    then have "c \<in> reserved_path \<and> c \<noteq> CHR ''/'' \<and> c \<notin> set auth"
      by cases (use auth control_plain [of c] in \<open>simp_all add: reserved_path_def authority_ok_def\<close>)
    then show ?thesis by (simp add: path_part.clean)
  qed
  have outside: "c \<notin> set ?raw" if sep: "is_control c \<or> c = CHR ''#''" for c
  proof -
    have "\<not> is_lower c \<and> c \<noteq> CHR '':'' \<and> c \<noteq> CHR ''?''" using sep by (rule disjE) (auto simp: go_defs)
    moreover have "c \<notin> set ?front" by (rule front) (use sep in auto)
    ultimately show ?thesis
      using scheme(2) query [OF sep] unfolding raw q_def by (auto simp: list_all_iff)
  qed
  have control: "list_ex is_control ?raw = False" using outside by (auto simp only: list_ex_iff)
  have star: "?raw \<noteq> ''*''" unfolding raw using scheme(1) by (cases scheme) simp_all
  have rest: "getScheme ?raw = Inr (scheme, ?front @ (if query = [] then [] else CHR ''?'' # query))"
    by (simp only: raw getScheme_letters [OF scheme]) (simp only: q_def)
  have "parse G ?raw = parse_rest G (empty_url\<lparr>u_Scheme := ToLower (gl_ucd G) scheme, u_RawQuery := query\<rparr>) ?front"
    by (rule parse_split [OF control star rest]) (rule front, simp_all)
  also have "\<dots> = Inr ?url"
    using auth parsed by (subst parse_rest_authority) (simp_all add: scheme ToLower_lower empty_url_def authority_ok_def)
  finally have "parse G ?raw = Inr ?url" .
  then show ?thesis by (rule url_Parse_plain [rotated]) (rule outside, simp)
qed

lemma host_authority_ok: "plain_host name port \<Longrightarrow> authority_ok (hostport name port)"
  using plain_host_clean by (auto simp: authority_ok_def)

lemma user_authority_ok:
  assumes "plain_host name port"
  shows "authority_ok (escape encodeUserPassword user @ CHR '':'' # escape encodeUserPassword password @
    CHR ''@'' # hostport name port)"
  unfolding authority_ok_def
proof (intro allI impI)
  fix c
  assume sep: "is_control c \<or> c \<in> set ''/?#''"
  then have "c \<in> reserved_user \<and> c \<noteq> CHR '':'' \<and> c \<noteq> CHR ''@''"
  proof
    assume "is_control c"
    then show ?thesis using control_plain [of c] by (simp add: reserved_user_def)
  qed (auto simp: reserved_user_def)
  moreover have "c \<notin> set (hostport name port)" using host_authority_ok [OF assms] sep unfolding authority_ok_def by blast
  ultimately show "c \<notin> set (escape encodeUserPassword user @ CHR '':'' # escape encodeUserPassword password @
      CHR ''@'' # hostport name port)"
    by (simp add: user_part.clean)
qed

lemma url_Parse_connection:
  assumes "connection_ok scheme name port q"
  shows "url_Parse G (connection_url scheme user password (hostport name port) db q) =
    Inr (connection_parts scheme user password (hostport name port) db q)"
proof -
  have ok: "scheme \<noteq> []" "list_all is_lower scheme" "plain_host name port" "proper_values q"
    using assms by (simp_all add: connection_ok_def)
  have "c \<notin> set (Values_Encode q)" if "is_control c \<or> c = CHR ''#''" for c
    using that by (rule disjE) (use control_plain [of c] in \<open>simp_all add: Values_Encode_clean reserved_query_def\<close>)
  from url_Parse_hierarchical [OF ok(1,2) user_authority_ok [OF ok(3)] parseAuthority_plain [OF ok(3)] this]
  show ?thesis by (simp add: connection_url_def connection_parts_def Values_Encode_Nil [OF ok(4)] empty_url_def)
qed

lemma parseAuthority_host:
  assumes "plain_host name port"
  shows "parseAuthority G scheme (hostport name port) = Inr (None, hostport name port)"
  using plain_host_clean [OF assms, of "CHR ''@''"] by (simp add: parseAuthority_def parseHost_plain [OF assms])

lemma url_String_connection:
  assumes "connection_ok scheme name port q" "password \<noteq> []"
  shows "url_String U (connection_parts scheme user password (hostport name port) db q) =
    connection_url scheme user password (hostport name port) db q"
proof -
  have "plain_host name port" "proper_values q" "scheme \<noteq> []" using assms(1) by (simp_all add: connection_ok_def)
  moreover from this have "hostport name port \<noteq> []" by (simp add: hostport_def plain_host_def)
  moreover have "escape encodePath (CHR ''/'' # db) = CHR ''/'' # escape encodePath db" by (simp add: escape_char_def)
  ultimately show ?thesis
    using assms(2) by (simp add: url_String_def connection_parts_def empty_url_def EscapedPath_def Userinfo_String_def
        plain_host_escape(1) connection_url_def Values_Encode_Nil Let_def del: escape_simps)
qed

end
