(* ===== verification/KC_Config.thy ===== *)
theory KC_Config
  imports KC_Url
begin

text \<open>
  Package \<open>internal/config\<close>: loading, validating, redacting and printing the configuration.

  The environment is the function \<open>os.Getenv\<close> computes (an unset variable reads as the empty
  string). URLs, lower case, quoting and JSON strings are those of the standard library, modelled in
  \<open>KC_Url\<close> and \<open>KC_Text\<close>; \<open>G\<close> holds their parameters. The order in which Go ranges over the query map
  is an argument.
\<close>

section \<open>Configuration\<close>

record Config =
  cf_GRPCBindAddr :: string
  cf_MetricsBindAddr :: string
  cf_Store :: string
  cf_PostgresURL :: string
  cf_RateLimiterAddr :: string
  cf_LogLevel :: string

definition StoreMemory :: string where
  "StoreMemory = ''memory''"

definition StorePostgres :: string where
  "StorePostgres = ''postgres''"

definition getEnv :: "(string \<Rightarrow> string) \<Rightarrow> string \<Rightarrow> string \<Rightarrow> string" where
  "getEnv env key fallback = (let v = env key in if v \<noteq> [] then v else fallback)"

definition Load :: "golib \<Rightarrow> (string \<Rightarrow> string) \<Rightarrow> Config" where
  "Load G env =
     (let c = \<lparr>cf_GRPCBindAddr = getEnv env ''KEYCHAIN_GRPC_BIND_ADDR'' ''0.0.0.0:8080'',
               cf_MetricsBindAddr = getEnv env ''KEYCHAIN_METRICS_BIND_ADDR'' ''0.0.0.0:9090'',
               cf_Store = ToLower (gl_ucd G) (getEnv env ''KEYCHAIN_STORE'' []),
               cf_PostgresURL = getEnv env ''KEYCHAIN_POSTGRES_URL'' [],
               cf_RateLimiterAddr = getEnv env ''KEYCHAIN_RATELIMITER_ADDR'' [],
               cf_LogLevel = ToLower (gl_ucd G) (getEnv env ''KEYCHAIN_LOG_LEVEL'' ''info'')\<rparr>
      in if cf_Store c = [] then
           if cf_PostgresURL c \<noteq> [] then c\<lparr>cf_Store := StorePostgres\<rparr> else c\<lparr>cf_Store := StoreMemory\<rparr>
         else c)"

section \<open>Validation\<close>

definition validatePostgresURL :: "golib \<Rightarrow> string \<Rightarrow> goerr option" where
  "validatePostgresURL G raw =
     (case url_Parse G raw of
        Inl err \<Rightarrow> Some (Wrapf ''KEYCHAIN_POSTGRES_URL invalid: %w'' None err)
      | Inr u \<Rightarrow>
          if u_Scheme u \<notin> {''postgres'', ''postgresql''}
          then Some (Opaque (''KEYCHAIN_POSTGRES_URL must use postgres or postgresql scheme, got '' @
                 Quote (gl_ucd G) (u_Scheme u)))
          else if u_Host u = [] then Some (Opaque ''KEYCHAIN_POSTGRES_URL must include a host'')
          else None)"

definition Validate :: "golib \<Rightarrow> Config \<Rightarrow> goerr option" where
  "Validate G c =
     (if cf_GRPCBindAddr c = [] then Some (Opaque ''KEYCHAIN_GRPC_BIND_ADDR is required'')
      else if cf_MetricsBindAddr c = [] then Some (Opaque ''KEYCHAIN_METRICS_BIND_ADDR is required'')
      else if cf_Store c \<notin> {StoreMemory, StorePostgres}
      then Some (Opaque (''KEYCHAIN_STORE='' @ Quote (gl_ucd G) (cf_Store c) @
             '' is unsupported; use memory or postgres''))
      else
        let check_level =
              (if cf_LogLevel c \<in> {''debug'', ''info'', ''warn'', ''error''} then None
               else Some (Opaque (''KEYCHAIN_LOG_LEVEL='' @ Quote (gl_ucd G) (cf_LogLevel c) @ '' is unsupported'')))
        in if cf_Store c = StorePostgres then
             if cf_PostgresURL c = []
             then Some (Opaque ''KEYCHAIN_POSTGRES_URL is required when KEYCHAIN_STORE=postgres'')
             else (case validatePostgresURL G (cf_PostgresURL c) of Some err \<Rightarrow> Some err | None \<Rightarrow> check_level)
           else check_level)"

section \<open>Redaction\<close>

text \<open>
  The loop over the query map, in the order in which the map is ranged over: the values of every
  password parameter are overwritten.
\<close>

definition secret_param :: "golib \<Rightarrow> string \<Rightarrow> bool" where
  "secret_param G k \<longleftrightarrow> ToLower (gl_ucd G) k \<in> {''password'', ''sslpassword''}"

definition values_set :: "string \<Rightarrow> string list \<Rightarrow> url_values \<Rightarrow> url_values" where
  "values_set k vs q = map (\<lambda>e. if fst e = k then (k, vs) else e) q"

fun redact_query :: "golib \<Rightarrow> string list \<Rightarrow> url_values \<Rightarrow> bool \<Rightarrow> url_values \<times> bool" where
  "redact_query G [] q redacted = (q, redacted)"
| "redact_query G (k # ks) q redacted =
     (case map_of q k of
        None \<Rightarrow> redact_query G ks q redacted
      | Some values \<Rightarrow>
          if secret_param G k
          then redact_query G ks (values_set k (map (\<lambda>_. ''REDACTED'') values) q) True
          else redact_query G ks q redacted)"

definition redactURL :: "golib \<Rightarrow> string list \<Rightarrow> string \<Rightarrow> string" where
  "redactURL G order raw =
     (if raw = [] then []
      else
        case url_Parse G raw of
          Inl err \<Rightarrow> raw
        | Inr u \<Rightarrow>
            let (u, redacted) =
                  (case u_User u of
                     Some (name, Some _) \<Rightarrow> (u\<lparr>u_User := Some (name, Some ''REDACTED'')\<rparr>, True)
                   | _ \<Rightarrow> (u, False));
                (q, redacted) = redact_query G order (url_Query G (u_RawQuery u)) redacted
            in if redacted then url_String (gl_ucd G) (u\<lparr>u_RawQuery := Values_Encode q\<rparr>) else raw)"

definition Redacted :: "golib \<Rightarrow> string list \<Rightarrow> Config \<Rightarrow> Config" where
  "Redacted G order c = c\<lparr>cf_PostgresURL := redactURL G order (cf_PostgresURL c)\<rparr>"

section \<open>Printing\<close>

text \<open>\<open>json.MarshalIndent\<close> on the structure: one field per line, indented by two spaces.\<close>

definition json_field :: "string \<Rightarrow> string \<Rightarrow> string" where
  "json_field name v = ''  '' @ json_string name @ '': '' @ json_string v"

definition Config_JSON :: "Config \<Rightarrow> string" where
  "Config_JSON c =
     (let nl = [char_of (10 :: nat)] in
      ''{'' @ nl @ json_field ''grpc_bind_addr'' (cf_GRPCBindAddr c) @ '','' @ nl @
      json_field ''metrics_bind_addr'' (cf_MetricsBindAddr c) @ '','' @ nl @
      json_field ''store'' (cf_Store c) @ '','' @ nl @
      json_field ''postgres_url'' (cf_PostgresURL c) @ '','' @ nl @
      json_field ''rate_limiter_addr'' (cf_RateLimiterAddr c) @ '','' @ nl @
      json_field ''log_level'' (cf_LogLevel c) @ nl @ ''}'')"

section \<open>The redaction loop\<close>

text \<open>What the loop computes, whatever the order.\<close>

definition scrub_entry :: "golib \<Rightarrow> string \<times> string list \<Rightarrow> string \<times> string list" where
  "scrub_entry G e = (fst e, if secret_param G (fst e) then map (\<lambda>_. ''REDACTED'') (snd e) else snd e)"

definition scrub_query :: "golib \<Rightarrow> url_values \<Rightarrow> url_values" where
  "scrub_query G q = map (scrub_entry G) q"

lemma scrub_keys [simp]: "map fst (scrub_query G q) = map fst q"
  by (simp add: scrub_query_def scrub_entry_def comp_def)

lemma values_set_keys [simp]: "map fst (values_set k vs q) = map fst q"
  by (induction q) (simp_all add: values_set_def)

lemma values_set_scrub:
  assumes "distinct (map fst q)" "map_of q k = Some vs" "secret_param G k"
  shows "values_set k (map (\<lambda>_. ''REDACTED'') vs) q = map (\<lambda>e. if fst e = k then scrub_entry G e else e) q"
  using assms by (auto simp: values_set_def scrub_entry_def dest: eq_key_imp_eq_value)

lemma redact_query_gen:
  assumes "distinct (map fst q)"
  shows "redact_query G ks q b =
    (map (\<lambda>e. if fst e \<in> set ks then scrub_entry G e else e) q,
     b \<or> (\<exists>k \<in> set ks. k \<in> fst ` set q \<and> secret_param G k))"
  using assms
proof (induction ks arbitrary: q b)
  case (Cons k ks)
  show ?case
  proof (cases "map_of q k")
    case None
    then have "k \<notin> fst ` set q" by (simp add: map_of_eq_None_iff)
    with Cons.IH [OF Cons.prems] None show ?thesis by auto
  next
    case (Some vs)
    then have k: "k \<in> fst ` set q" by (metis map_of_eq_None_iff option.discI)
    show ?thesis
    proof (cases "secret_param G k")
      case True
      define q' where "q' = map (\<lambda>e. if fst e = k then scrub_entry G e else e) q"
      have step: "redact_query G (k # ks) q b = redact_query G ks q' True"
        by (simp add: Some True q'_def values_set_scrub [OF Cons.prems Some True])
      have key: "fst (scrub_entry G e) = fst e" "scrub_entry G (scrub_entry G e) = scrub_entry G e" for e
        by (simp_all add: scrub_entry_def)
      then have keys: "map fst q' = map fst q" by (simp add: q'_def)
      have "map (\<lambda>e. if fst e \<in> set ks then scrub_entry G e else e) q' =
          map (\<lambda>e. if fst e \<in> set (k # ks) then scrub_entry G e else e) q"
        using key by (simp add: q'_def)
      then show ?thesis
        using Cons.IH [of q' True] Cons.prems k True unfolding step by (auto simp: keys)
    next
      case False
      with Cons.IH [OF Cons.prems] Some show ?thesis by (auto simp: scrub_entry_def)
    qed
  qed
qed simp

lemma redact_query_all:
  assumes "distinct (map fst q)" "set ks = fst ` set q"
  shows "redact_query G ks q b = (scrub_query G q, b \<or> (\<exists>k \<in> fst ` set q. secret_param G k))"
  using redact_query_gen [OF assms(1)] assms(2) by (auto simp: scrub_query_def)

text \<open>Query values have distinct keys.\<close>

lemma values_append_keys:
  "map fst (values_append k v m) = (if k \<in> set (map fst m) then map fst m else map fst m @ [k])"
  by (induction k v m rule: values_append.induct) (auto simp del: set_map simp: set_map [symmetric])

lemma parseQuery_distinct: "distinct (map fst m) \<Longrightarrow> distinct (map fst (parseQuery U m raw))"
proof (induction U m raw rule: parseQuery.induct)
  case (1 U m query)
  have "distinct (map fst (add_pair U m pair))" for pair
    using 1(2) by (auto simp: add_pair_def values_append_keys split: option.split)
  with 1 show ?case by (subst parseQuery.simps) (simp add: Let_def)
qed

lemma url_Query_distinct [simp]: "distinct (map fst (url_Query G raw))"
  by (simp add: url_Query_def parseQuery_distinct split: option.split)

section \<open>Properties\<close>

text \<open>
  What makes a loaded configuration valid. The bind addresses are never the problem, since
  their defaults fill in; a configuration loaded from the environment is valid exactly when the
  store is \<open>memory\<close>, or is \<open>postgres\<close> with a URL that parses, has a postgres scheme and a host,
  and the log level is one of the four known ones.
\<close>

theorem Load_Validate_iff:
  "Validate G (Load G env) = None \<longleftrightarrow>
     (let c = Load G env in
      cf_LogLevel c \<in> {''debug'', ''info'', ''warn'', ''error''} \<and>
      (cf_Store c = StoreMemory \<or>
       cf_Store c = StorePostgres \<and> cf_PostgresURL c \<noteq> [] \<and>
       (\<exists>u. url_Parse G (cf_PostgresURL c) = Inr u \<and> u_Scheme u \<in> {''postgres'', ''postgresql''} \<and> u_Host u \<noteq> [])))"
proof -
  have addr: "cf_GRPCBindAddr (Load G env) \<noteq> []" "cf_MetricsBindAddr (Load G env) \<noteq> []"
    by (simp_all add: Load_def getEnv_def Let_def)
  have differ: "StoreMemory \<noteq> StorePostgres" by (simp add: StoreMemory_def StorePostgres_def)
  define c where "c = Load G env"
  have url: "validatePostgresURL G raw = None \<longleftrightarrow>
      (\<exists>u. url_Parse G raw = Inr u \<and> u_Scheme u \<in> {''postgres'', ''postgresql''} \<and> u_Host u \<noteq> [])" for raw
    by (simp add: validatePostgresURL_def split: sum.split)
  show ?thesis
    using addr differ url [of "cf_PostgresURL c"]
    by (auto simp: Validate_def Let_def c_def [symmetric] simp del: insert_iff split: option.splits)
qed

text \<open>
  With nothing set in the environment the service starts on the in-memory store; with only
  \<open>KEYCHAIN_POSTGRES_URL\<close> set it selects Postgres with that URL.
\<close>

lemma Load_defaults:
  assumes "\<And>k. k \<noteq> ''KEYCHAIN_POSTGRES_URL'' \<Longrightarrow> env k = []"
  shows "Load G env =
    \<lparr>cf_GRPCBindAddr = ''0.0.0.0:8080'', cf_MetricsBindAddr = ''0.0.0.0:9090'',
     cf_Store = (if env ''KEYCHAIN_POSTGRES_URL'' = [] then StoreMemory else StorePostgres),
     cf_PostgresURL = env ''KEYCHAIN_POSTGRES_URL'', cf_RateLimiterAddr = [], cf_LogLevel = ''info''\<rparr>"
proof -
  have "list_all is_lower ''info''" by code_simp
  then have "ToLower (gl_ucd G) ''info'' = ''info''" "ToLower (gl_ucd G) [] = []" by (simp_all add: ToLower_lower)
  then show ?thesis by (simp add: Load_def getEnv_def Let_def assms)
qed

theorem Load_store_selection:
  assumes "\<And>k. k \<noteq> ''KEYCHAIN_POSTGRES_URL'' \<Longrightarrow> env k = []"
  shows "cf_Store (Load G env) = (if env ''KEYCHAIN_POSTGRES_URL'' = [] then StoreMemory else StorePostgres) \<and>
    cf_PostgresURL (Load G env) = env ''KEYCHAIN_POSTGRES_URL'' \<and>
    (env ''KEYCHAIN_POSTGRES_URL'' = [] \<longrightarrow> Validate G (Load G env) = None)"
  by (simp add: Load_defaults [OF assms] Validate_def StoreMemory_def StorePostgres_def)

text \<open>
  A runtime with no characters beyond ASCII that are letters or printable, which rejects hosts in
  brackets.
\<close>

definition ascii_golib :: golib where
  "ascii_golib = \<lparr>gl_ucd = \<lparr>uc_ToLower = (\<lambda>r. r), uc_IsPrint = (\<lambda>_. False)\<rparr>,
     gl_parseHost = (\<lambda>_ _. Inl ''invalid host''), gl_maxParams = Some 10000\<rparr>"

theorem Load_store_selection_witness:
  "cf_Store (Load ascii_golib (\<lambda>k. [])) = ''memory'' \<and> Validate ascii_golib (Load ascii_golib (\<lambda>k. [])) = None"
  using Load_store_selection [of "\<lambda>k. []" ascii_golib] by (simp add: StoreMemory_def)

section \<open>What redaction hides\<close>

text \<open>The user information without its password; whether a URL carries a secret at all.\<close>

definition mask_user :: "(string \<times> string option) option \<Rightarrow> (string \<times> string option) option" where
  "mask_user x = (case x of Some (name, Some _) \<Rightarrow> Some (name, Some ''REDACTED'') | _ \<Rightarrow> x)"

definition has_password :: "url \<Rightarrow> bool" where
  "has_password u \<longleftrightarrow> (\<exists>name p. u_User u = Some (name, Some p))"

definition carries_secret :: "golib \<Rightarrow> url \<Rightarrow> bool" where
  "carries_secret G u \<longleftrightarrow> has_password u \<or> (\<exists>k \<in> fst ` set (url_Query G (u_RawQuery u)). secret_param G k)"

text \<open>A URL without its secrets, as the redactor leaves it.\<close>

definition masked :: "golib \<Rightarrow> url \<Rightarrow> url" where
  "masked G u = u\<lparr>u_User := mask_user (u_User u),
     u_RawQuery := Values_Encode (scrub_query G (url_Query G (u_RawQuery u)))\<rparr>"

lemma redactURL_parsed:
  assumes "raw \<noteq> []" "url_Parse G raw = Inr u" "set order = fst ` set (url_Query G (u_RawQuery u))"
  shows "redactURL G order raw = (if carries_secret G u then url_String (gl_ucd G) (masked G u) else raw)"
proof (cases "has_password u")
  case True
  then obtain name p where "u_User u = Some (name, Some p)" by (auto simp: has_password_def)
  then show ?thesis
    using assms by (simp add: redactURL_def redact_query_all masked_def mask_user_def carries_secret_def has_password_def)
next
  case False
  then have "u_User u = None \<or> (\<exists>name. u_User u = Some (name, None))"
    by (metis has_password_def not_None_eq prod.exhaust)
  then have "redactURL G order raw = (let (q, redacted) = redact_query G order (url_Query G (u_RawQuery u)) False
      in if redacted then url_String (gl_ucd G) (u\<lparr>u_RawQuery := Values_Encode q\<rparr>) else raw)" and "mask_user (u_User u) = u_User u"
    using assms(1,2) by (auto simp: redactURL_def mask_user_def)
  moreover from this(2) have "u\<lparr>u_User := mask_user (u_User u)\<rparr> = u" by simp
  ultimately show ?thesis
    using False assms(3) by (simp add: redact_query_all carries_secret_def masked_def)
qed

section \<open>What has to be hidden\<close>

text \<open>
  The specification of redaction, which refers to none of the redactor's functions. A parameter is a password if
  its name is \<open>password\<close> or \<open>sslpassword\<close> up to the case of its letters. Two queries are the same but
  for passwords if they have the same parameters, with the same values unless the parameter is a password,
  and with as many values if it is one; the order of the parameters does not matter.
\<close>

definition password_key :: "string \<Rightarrow> bool" where
  "password_key k \<longleftrightarrow> map lower_char k = ''password'' \<or> map lower_char k = ''sslpassword''"

definition same_params :: "url_values \<Rightarrow> url_values \<Rightarrow> bool" where
  "same_params q q' \<longleftrightarrow> fst ` set q = fst ` set q' \<and>
     (\<forall>k \<in> fst ` set q. if password_key k then map_option length (map_of q k) = map_option length (map_of q' k)
        else map_of q k = map_of q' k)"

text \<open>
  Two parsed URLs are the same but for passwords if they have a password, in the user information or as
  a parameter, and agree on everything but its text.
\<close>

definition carries_password :: "golib \<Rightarrow> url \<Rightarrow> bool" where
  "carries_password G u \<longleftrightarrow> has_password u \<or> (\<exists>k \<in> fst ` set (url_Query G (u_RawQuery u)). password_key k)"

definition same_but_passwords :: "golib \<Rightarrow> url \<Rightarrow> url \<Rightarrow> bool" where
  "same_but_passwords G u v \<longleftrightarrow> carries_password G u \<and>
     u\<lparr>u_User := None, u_RawQuery := []\<rparr> = v\<lparr>u_User := None, u_RawQuery := []\<rparr> \<and>
     map_option fst (u_User u) = map_option fst (u_User v) \<and> (has_password u \<longleftrightarrow> has_password v) \<and>
     same_params (url_Query G (u_RawQuery u)) (url_Query G (u_RawQuery v))"

text \<open>The query with the values of its passwords replaced.\<close>

definition hide_passwords :: "url_values \<Rightarrow> url_values" where
  "hide_passwords q = map (\<lambda>(k, vs). (k, if password_key k then map (\<lambda>_. ''REDACTED'') vs else vs)) q"

lemma lower_char_ascii: "char_code (lower_char c) < 0x80 \<Longrightarrow> char_code c < 0x80"
  by (auto simp: lower_char_def is_upper_def split: if_splits)

lemma password_key_ascii: "password_key k \<Longrightarrow> is_ascii k"
proof -
  assume "password_key k"
  moreover have "is_ascii ''password''" "is_ascii ''sslpassword''" by code_simp+
  ultimately have "is_ascii (map lower_char k)" by (auto simp: password_key_def)
  then show ?thesis by (auto simp: is_ascii_def list_all_iff lower_char_ascii)
qed

text \<open>The redactor recognises every password, and on ASCII names nothing else.\<close>

lemma secret_param_ascii: "is_ascii k \<Longrightarrow> secret_param G k \<longleftrightarrow> password_key k"
  by (simp add: secret_param_def ToLower_def password_key_def)

lemma password_key_secret: "password_key k \<Longrightarrow> secret_param G k"
  using secret_param_ascii [OF password_key_ascii] by simp

lemma scrub_hides: "\<forall>k \<in> fst ` set q. is_ascii k \<Longrightarrow> scrub_query G q = hide_passwords q"
  by (auto simp: scrub_query_def hide_passwords_def scrub_entry_def secret_param_ascii)

text \<open>Passwords are hidden: queries that are the same but for passwords are written alike.\<close>

lemma map_of_scrub:
  "map_of (scrub_query G q) k =
     (if secret_param G k then map_option (map (\<lambda>_. ''REDACTED'')) (map_of q k) else map_of q k)"
  by (induction q) (auto simp: scrub_query_def scrub_entry_def)

lemma redacted_values: "map (\<lambda>_. x) vs = map (\<lambda>_. x) ws \<longleftrightarrow> length vs = length ws"
  by (simp add: map_replicate_const)

lemma scrub_same:
  assumes "same_params q q'"
  shows "map_of (scrub_query G q) = map_of (scrub_query G q')"
proof
  fix k
  show "map_of (scrub_query G q) k = map_of (scrub_query G q') k"
  proof (cases "k \<in> fst ` set q")
    case True
    then show ?thesis
      using assms password_key_secret [of k G]
      by (cases "map_of q k"; cases "map_of q' k")
        (auto simp: same_params_def map_of_scrub redacted_values split: if_splits dest!: bspec [of _ _ k])
  next
    case False
    then have "map_of q k = None" "map_of q' k = None"
      using assms by (auto simp: same_params_def map_of_eq_None_iff)
    then show ?thesis by (simp add: map_of_scrub)
  qed
qed

lemma Values_Encode_map_of:
  assumes "distinct (map fst q)" "distinct (map fst q')" "map_of q = map_of q'"
  shows "Values_Encode q = Values_Encode q'"
proof -
  have set: "set q = set q'" using assms by (metis map_of_eq_Some_iff subsetI subset_antisym surj_pair)
  have "inj_on fst (set q)" using assms(1) by (simp add: distinct_map)
  then have "sort_key fst q = sort_key fst q'"
    using assms(1,2) set by (intro map_sorted_distinct_set_unique [of fst])
      (simp_all add: distinct_map)
  then show ?thesis by (simp add: Values_Encode_def)
qed

lemma mask_user_same:
  assumes "map_option fst x = map_option fst y" "(\<exists>n p. x = Some (n, Some p)) \<longleftrightarrow> (\<exists>n p. y = Some (n, Some p))"
  shows "mask_user x = mask_user y"
proof (cases x)
  case (Some a)
  then obtain b where "y = Some b" "fst a = fst b" using assms(1) by (cases y) auto
  with Some assms(2) show ?thesis
    by (cases a; cases b; cases "snd a"; cases "snd b") (auto simp: mask_user_def)
qed (use assms(1) in \<open>simp add: mask_user_def\<close>)

lemma masked_same:
  assumes "same_but_passwords G u v"
  shows "masked G u = masked G v" "carries_secret G u" "carries_secret G v"
proof -
  note same = assms [unfolded same_but_passwords_def]
  have "Values_Encode (scrub_query G (url_Query G (u_RawQuery u))) =
      Values_Encode (scrub_query G (url_Query G (u_RawQuery v)))"
    using same by (intro Values_Encode_map_of scrub_same) simp_all
  moreover have "mask_user (u_User u) = mask_user (u_User v)"
    using same by (intro mask_user_same) (simp_all add: has_password_def)
  moreover have "masked G w = (w\<lparr>u_User := None, u_RawQuery := []\<rparr>)\<lparr>u_User := mask_user (u_User w),
      u_RawQuery := Values_Encode (scrub_query G (url_Query G (u_RawQuery w)))\<rparr>" for w
    by (simp add: masked_def)
  ultimately show "masked G u = masked G v" using same by metis
  have "fst ` set (url_Query G (u_RawQuery u)) = fst ` set (url_Query G (u_RawQuery v))"
    using same by (simp add: same_params_def)
  then show "carries_secret G u" "carries_secret G v"
    using same password_key_secret unfolding carries_secret_def carries_password_def by metis+
qed

text \<open>
  Redaction hides passwords: connection URLs that are the same but for passwords have the same
  redacted form, whatever the order in which the queries were ranged over.
\<close>

lemma redactURL_hides_password:
  assumes "raw \<noteq> []" "raw' \<noteq> []" "url_Parse G raw = Inr u" "url_Parse G raw' = Inr v" "same_but_passwords G u v"
    and "set order = fst ` set (url_Query G (u_RawQuery u))" "set order' = fst ` set (url_Query G (u_RawQuery v))"
  shows "redactURL G order raw = redactURL G order' raw'"
  by (simp add: redactURL_parsed [OF assms(1,3,6)] redactURL_parsed [OF assms(2,4,7)] masked_same [OF assms(5)])

lemma scrub_proper: "proper_values q \<Longrightarrow> proper_values (scrub_query G q)"
  by (auto simp: proper_values_def list_all_iff scrub_query_def scrub_entry_def comp_def)

lemma scrub_sort: "scrub_query G (sort_key fst q) = sort_key fst (scrub_query G q)"
  by (simp add: scrub_query_def sort_key_map scrub_entry_def)

lemma Values_Encode_sort: "Values_Encode (sort_key fst q) = Values_Encode q"
  by (simp add: Values_Encode_def sort_key_id_if_sorted)

text \<open>
  C34: What redaction leaves. For a connection URL written from its parts (any user and password, with
  their special characters escaped, a host name with an optional port, any path, and any query
  parameters), the configuration is valid and its redacted form is the URL of the same parts in which
  only the password and the values of password parameters are replaced; nothing else is lost. If the
  parameter names are ASCII text, the values replaced are exactly those of the parameters called
  \<open>password\<close> or \<open>sslpassword\<close> in any mixture of upper and lower case.
\<close>

theorem connection_url_redacted:
  assumes "connection_ok scheme name port q" "scheme \<in> {''postgres'', ''postgresql''}" "within_limit G q"
    and "set order = fst ` set q"
    and "env ''KEYCHAIN_POSTGRES_URL'' = connection_url scheme user password (hostport name port) db q"
    and "\<And>k. k \<noteq> ''KEYCHAIN_POSTGRES_URL'' \<Longrightarrow> env k = []"
  shows "Validate G (Load G env) = None \<and>
    cf_PostgresURL (Redacted G order (Load G env)) =
      connection_url scheme user ''REDACTED'' (hostport name port) db (scrub_query G q) \<and>
    ((\<forall>k \<in> fst ` set q. is_ascii k) \<longrightarrow> scrub_query G q = hide_passwords q)"
proof -
  let ?u = "connection_parts scheme user password (hostport name port) db q"
  define raw where "raw = env ''KEYCHAIN_POSTGRES_URL''"
  have ok: "plain_host name port" "proper_values q" using assms(1) by (simp_all add: connection_ok_def)
  have parse: "url_Parse G raw = Inr ?u" unfolding raw_def assms(5) by (rule url_Parse_connection [OF assms(1)])
  have sel: "u_Scheme ?u = scheme" "u_Host ?u = hostport name port" "u_User ?u = Some (user, Some password)"
    "u_RawQuery ?u = Values_Encode q"
    by (simp_all add: connection_parts_def)
  have query: "url_Query G (Values_Encode q) = sort_key fst q" by (rule query_read_back [OF ok(2) assms(3)])
  have raw: "raw \<noteq> []" unfolding raw_def assms(5) by (simp add: connection_url_def)
  have "masked G ?u = connection_parts scheme user ''REDACTED'' (hostport name port) db (scrub_query G q)"
    by (simp add: masked_def sel query scrub_sort Values_Encode_sort mask_user_def connection_parts_def)
  moreover have "connection_ok scheme name port (scrub_query G q)"
    using assms(1) by (simp add: connection_ok_def scrub_proper)
  moreover have "carries_secret G ?u" by (simp add: carries_secret_def has_password_def sel)
  ultimately have "redactURL G order raw = connection_url scheme user ''REDACTED'' (hostport name port) db (scrub_query G q)"
    using redactURL_parsed [OF raw parse] assms(4) by (simp add: sel query url_String_connection)
  moreover have "hostport name port \<noteq> []" using ok(1) by (simp add: hostport_def plain_host_def)
  then have "validatePostgresURL G raw = None" using assms(2) by (auto simp: validatePostgresURL_def parse sel)
  ultimately show ?thesis
    using raw by (simp add: Load_defaults [OF assms(6)] Validate_def Redacted_def raw_def StorePostgres_def scrub_hides)
qed

theorem connection_url_redacted_witness:
  "redactURL ascii_golib [''sslmode'', ''SSLPassword''] ''postgres://u:p%40ss@db:5432/keychain?SSLPassword=x&sslmode=disable'' =
    ''postgres://u:REDACTED@db:5432/keychain?SSLPassword=REDACTED&sslmode=disable''"
proof -
  let ?q = "[(''SSLPassword'', [''x'']), (''sslmode'', [''disable''])]"
  let ?raw = "''postgres://u:p%40ss@db:5432/keychain?SSLPassword=x&sslmode=disable''"
  have "connection_ok ''postgres'' ''db'' (Some ''5432'') ?q" "within_limit ascii_golib ?q"
    "connection_url ''postgres'' ''u'' ''p@ss'' (hostport ''db'' (Some ''5432'')) ''keychain'' ?q = ?raw"
    "connection_url ''postgres'' ''u'' ''REDACTED'' (hostport ''db'' (Some ''5432'')) ''keychain'' (hide_passwords ?q) =
      ''postgres://u:REDACTED@db:5432/keychain?SSLPassword=REDACTED&sslmode=disable''"
    "is_ascii ''SSLPassword''" "is_ascii ''sslmode''"
    by code_simp+
  then show ?thesis
    using connection_url_redacted [of "''postgres''" "''db''" "Some ''5432''" ?q ascii_golib "[''sslmode'', ''SSLPassword'']"
        "(\<lambda>k. [])(''KEYCHAIN_POSTGRES_URL'' := ?raw)" "''u''" "''p@ss''" "''keychain''"]
    by (simp add: Load_defaults Redacted_def insert_commute)
qed

end
