(* ===== verification/KC_Main.thy ===== *)
theory KC_Main
  imports KC_MemoryService KC_Config
begin

text \<open>
  Command \<open>cmd/keychain\<close>: dispatch of the subcommands, wiring of the configuration, the store, the
  rate limiter and the server, and the order of start and shutdown.

  What the process gets from outside is the record \<open>world\<close>: the environment variables, the outcomes
  of opening Postgres and of listening, what ends the wait (a signal or the return of \<open>Serve\<close>), and
  whether the graceful stop finished in time. A run returns its error and the sequence of its
  effects. Logging and the registration of the health and reflection services are left out; the
  goroutines behind the waits are in \<open>KC_Process\<close>.
\<close>

section \<open>Logger and rate limiter\<close>

datatype slog_level = LevelDebug | LevelInfo | LevelWarn | LevelError

definition newLogger :: "string \<Rightarrow> slog_level" where
  "newLogger level =
     (if level = ''debug'' then LevelDebug else if level = ''warn'' then LevelWarn
      else if level = ''error'' then LevelError else LevelInfo)"

text \<open>The limiter that denies every reference; the loop appends one decision per reference.\<close>

fun deny_refs :: "LimitRef list \<Rightarrow> LimitDecision list \<Rightarrow> LimitDecision list" where
  "deny_refs [] out = out"
| "deny_refs (ref # refs) out =
     deny_refs refs (out @ [\<lparr>ld_LimitID = lr_LimitID ref, ld_ScopeKey = lr_ScopeKey ref, ld_Allowed = False,
       ld_Remaining = 0, ld_RetryAfterMs = 0\<rparr>])"

definition failClosed_Consume :: "'r RateLimiter" where
  "failClosed_Consume r refs cost requestID = (Inr (deny_refs refs []), r)"

text \<open>The constructor, with the warning it logs when an address is configured.\<close>

definition newFailClosedRateLimiter :: "string \<Rightarrow> 'r RateLimiter \<times> string list" where
  "newFailClosedRateLimiter addr =
     (failClosed_Consume,
      if addr \<noteq> [] then [''KEYCHAIN_RATELIMITER_ADDR is set but limit-catalog wiring is not implemented; keys with limit_refs will fail closed'']
      else [])"

section \<open>Effects and the outside world\<close>

datatype driver = DriverMemory | DriverPostgres string

datatype event =
    Opened driver | Listening string | MetricsStarted string | Serving
  | GracefulStop | ForcedStop | MetricsShutdown | Closed driver

datatype wake = SignalReceived | ServeReturned "goerr option"

record 'j world =
  wo_env :: "string \<Rightarrow> string"
  wo_range :: "string list"
  wo_golib :: golib
  wo_pg_libs :: "'j pg_libs"
  wo_pgNew :: "string \<Rightarrow> goerr option"
  wo_listen :: "string \<Rightarrow> goerr option"
  wo_wake :: wake
  wo_in_time :: bool

section \<open>Serving\<close>

definition openStore :: "'j world \<Rightarrow> Config \<Rightarrow> goerr + driver" where
  "openStore W cfg =
     (if cf_Store cfg = StoreMemory then Inr DriverMemory
      else if cf_Store cfg = StorePostgres then
        (case wo_pgNew W (cf_PostgresURL cfg) of
           Some err \<Rightarrow> Inl err
         | None \<Rightarrow> Inr (DriverPostgres (cf_PostgresURL cfg)))
      else Inl (Opaque (''unsupported store '' @ Quote (gl_ucd (wo_golib W)) (cf_Store cfg))))"

text \<open>\<open>keychainserver.New\<close> on the opened store, with the fail-closed limiter.\<close>

definition new_server :: "'j world \<Rightarrow> Config \<Rightarrow> driver \<Rightarrow> goerr option" where
  "new_server W cfg d =
     (let rl = fst (newFailClosedRateLimiter (cf_RateLimiterAddr cfg) :: unit RateLimiter \<times> string list)
      in case d of
        DriverMemory \<Rightarrow>
          (case Server_New \<lparr>opt_Store = Some mem_Store, opt_RateLimiter = Some rl\<rparr> of
             Inl err \<Rightarrow> Some err | Inr _ \<Rightarrow> None)
      | DriverPostgres dsn \<Rightarrow>
          (case Server_New \<lparr>opt_Store = Some (pg_Store (wo_pg_libs W)), opt_RateLimiter = Some rl\<rparr> of
             Inl err \<Rightarrow> Some err | Inr _ \<Rightarrow> None))"

definition shutdownMetrics :: "event list" where
  "shutdownMetrics = [MetricsShutdown]"

definition gracefulStopWithTimeout :: "bool \<Rightarrow> event list" where
  "gracefulStopWithTimeout in_time = GracefulStop # (if in_time then [] else [ForcedStop]) @ shutdownMetrics"

text \<open>With the timeout of 15 seconds, which decides \<open>in_time\<close>.\<close>

definition gracefulStop :: "bool \<Rightarrow> event list" where
  "gracefulStop in_time = gracefulStopWithTimeout in_time"

lemmas stop_defs [simp] = shutdownMetrics_def gracefulStop_def

definition serveUntilDone :: "'j world \<Rightarrow> goerr option \<times> event list" where
  "serveUntilDone W =
     (case wo_wake W of
        ServeReturned (Some err) \<Rightarrow> (Some (Wrapf ''gRPC serve: %w'' None err), Serving # shutdownMetrics)
      | _ \<Rightarrow> (None, Serving # gracefulStop (wo_in_time W)))"

text \<open>The deferred \<open>closeStore\<close> runs on every return after the store was opened.\<close>

definition serveWithContext :: "'j world \<Rightarrow> Config \<Rightarrow> goerr option \<times> event list" where
  "serveWithContext W cfg =
     (case openStore W cfg of
        Inl err \<Rightarrow> (Some (Wrapf ''open store: %w'' None err), [])
      | Inr d \<Rightarrow>
          let (res, evs) =
            (case new_server W cfg d of
               Some err \<Rightarrow> (Some (Wrapf ''keychainserver.New: %w'' None err), [])
             | None \<Rightarrow>
                 (case wo_listen W (cf_GRPCBindAddr cfg) of
                    Some err \<Rightarrow> (Some (Wrapf ''listen %s: %w'' (Some (cf_GRPCBindAddr cfg)) err), [])
                  | None \<Rightarrow>
                      let (res, evs) = serveUntilDone W
                      in (res, [Listening (cf_GRPCBindAddr cfg), MetricsStarted (cf_MetricsBindAddr cfg)] @ evs)))
          in (res, [Opened d] @ evs @ [Closed d]))"

definition serve :: "'j world \<Rightarrow> goerr option \<times> event list" where
  "serve W =
     (let cfg = Load (wo_golib W) (wo_env W)
      in case Validate (wo_golib W) cfg of
           Some err \<Rightarrow> (Some err, [])
         | None \<Rightarrow> serveWithContext W cfg)"

section \<open>Commands\<close>

definition printHelp :: "string list" where
  "printHelp = [''keychain commands:'', ''  serve          Start the gRPC service (default)'',
     ''  version        Print build version and commit'',
     ''  print-config   Print resolved KEYCHAIN_* configuration as JSON'',
     ''  help           Show this help'']"

definition printConfig :: "'j world \<Rightarrow> goerr option \<times> string list" where
  "printConfig W =
     (let cfg = Load (wo_golib W) (wo_env W)
      in (Validate (wo_golib W) cfg, [Config_JSON (Redacted (wo_golib W) (wo_range W) cfg)]))"

definition app_version :: string where
  "app_version = ''dev''"

definition app_commit :: string where
  "app_commit = ''unknown''"

definition run :: "'j world \<Rightarrow> string list \<Rightarrow> goerr option \<times> string list \<times> event list" where
  "run W args =
     (let args = (if length args = 0 then [''serve''] else args); cmd = args ! 0
      in if cmd = ''serve'' then (case serve W of (res, evs) \<Rightarrow> (res, [], evs))
         else if cmd = ''version''
         then (None, [''keychain '' @ app_version @ '' ('' @ app_commit @ '')''], [])
         else if cmd = ''print-config'' then (case printConfig W of (res, out) \<Rightarrow> (res, out, []))
         else if cmd \<in> {''help'', ''-h'', ''--help''} then (None, printHelp, [])
         else (Some (Opaque (''unknown command '' @ Quote (gl_ucd (wo_golib W)) cmd)), [], []))"

text \<open>The exit status: one if \<open>run\<close> returned an error.\<close>

definition main_exit :: "'j world \<Rightarrow> string list \<Rightarrow> nat" where
  "main_exit W args = (case run W args of (None, _) \<Rightarrow> 0 | (Some _, _) \<Rightarrow> 1)"

section \<open>Properties\<close>

lemma deny_refs_append: "deny_refs refs out = out @ deny_refs refs []"
proof (induction refs arbitrary: out)
  case (Cons ref refs)
  show ?case
    by (simp only: deny_refs.simps) (subst (1 2) Cons, simp)
qed simp

lemma deny_refs_denies: "d \<in> set (deny_refs refs []) \<Longrightarrow> \<not> ld_Allowed d"
proof (induction refs)
  case (Cons ref refs)
  then show ?case using deny_refs_append [of refs "[_]"] by auto
qed simp

lemma length_deny_refs: "length (deny_refs refs []) = length refs"
proof (induction refs)
  case (Cons ref refs)
  then show ?case using deny_refs_append [of refs "[_]"] by auto
qed simp

text \<open>
  C26: The shipped command fails closed on rate limits: its limiter answers every reference with a
  denial and never allows one, so through the service as wired (over the in-memory store) a key
  that has limit references is reported valid only if the caller asked to skip the check.
\<close>

theorem command_fails_closed:
  assumes "mem_inv s" "srv_store srv = mem_Store" "srv_rl srv = Some failClosed_Consume"
    and "Server_VerifyKey L srv c s r req = (Inr resp, s', r')" "VerifyKeyResponse_Valid resp"
    and "m_keys s (VerifyKeyResponse_KeyId resp) = Some k"
  shows "k_LimitRefs k = [] \<or> VerifyKeyRequest_GetSkipRatelimit req"
proof -
  note rel = mem_verify_rel(1) [OF assms(1,2,4)]
  obtain i k0 where k0: "v_keys (mem_view s) i = Some k0" "VerifyKeyResponse_KeyId resp = k_KeyID k0"
    and lim: "limiter_consulted req k0 \<longrightarrow> (\<exists>consume ds. srv_rl srv = Some consume \<and>
      consume r (k_LimitRefs k0) (limitCost (VerifyKeyRequest_GetCost req))
        (VerifyKeyRequest_GetRequestId req) = (Inr ds, r') \<and> (\<forall>d \<in> set ds. ld_Allowed d))"
    by (rule verify_rel_valid_cases [OF rel assms(5)]) blast
  have "k0 = k" using k0 assms(6) view_okD_key(1) [OF mem.view_of_ok [OF assms(1)] k0(1)] by simp
  moreover have "\<not> limiter_consulted req k0"
  proof
    assume "limiter_consulted req k0"
    then have "k_LimitRefs k0 \<noteq> []" "\<forall>d \<in> set (deny_refs (k_LimitRefs k0) []). ld_Allowed d"
      using lim assms(3) by (auto simp: limiter_consulted_def failClosed_Consume_def)
    moreover obtain d where "d \<in> set (deny_refs (k_LimitRefs k0) [])"
      using \<open>k_LimitRefs k0 \<noteq> []\<close> length_deny_refs [of "k_LimitRefs k0"]
      by (metis last_in_set length_0_conv)
    ultimately show False using deny_refs_denies by blast
  qed
  ultimately show ?thesis by (auto simp: limiter_consulted_def)
qed

definition skip_verify :: "PB_VerifyKeyRequest option" where
  "skip_verify = map_option (\<lambda>q. q\<lparr>VerifyKeyRequest_SkipRatelimit := True\<rparr>) (demo_verify ''secret'' [''read''])"

theorem command_fails_closed_witness:
  "Server_VerifyKey demo_libs (demo_server (Some failClosed_Consume)) (demo_call ''2'' [])
     (demo_store (Some (demo_key 3 demo_refs))) () skip_verify =
     (Inr (granted (demo_key 3 demo_refs) []),
      (demo_store (Some (demo_key 3 demo_refs)))\<lparr>m_keys := [''key_1'' \<mapsto> used_key 7 6 (demo_key 3 demo_refs)]\<rparr>, ()) \<and>
   VerifyKeyResponse_Valid (granted (demo_key 3 demo_refs) []) \<and>
   k_LimitRefs (demo_key 3 demo_refs) \<noteq> [] \<and> VerifyKeyRequest_GetSkipRatelimit skip_verify"
proof -
  let ?k = "demo_key 3 demo_refs"
  have run: "Server_VerifyKey demo_libs (demo_server (Some failClosed_Consume)) (demo_call ''2'' [])
      (demo_store (Some ?k)) () skip_verify =
    (Inr (granted ?k []), (demo_store (Some ?k))\<lparr>m_keys := [''key_1'' \<mapsto> used_key 7 6 ?k]\<rparr>, ())"
    by (simp add: Server_VerifyKey_def demo_store_def demo_defs mem_GetKeyByHash_def keymat_Validate_def
        keymat_Hash_def verify_commit_def mem_DecrementRemainingUses_def mem_TouchLastVerified_def
        granted_def verify_response_def used_key_def Let_def skip_verify_def)
  have id: "VerifyKeyResponse_Valid (granted ?k [])"
    "m_keys (demo_store (Some ?k)) (VerifyKeyResponse_KeyId (granted ?k [])) = Some ?k"
    by (simp_all add: granted_def verify_response_def demo_key_def)
  have "k_LimitRefs ?k \<noteq> []" by (simp add: demo_key_def demo_refs_def)
  with command_fails_closed [OF demo_inv(2) demo_server_sel(1) demo_server_sel(2) run id] run id(1)
  show ?thesis by blast
qed

definition lifecycle_ok :: "event list \<Rightarrow> bool" where
  "lifecycle_ok evs \<longleftrightarrow> evs = [] \<or>
     (\<exists>d mid. evs = [Opened d] @ mid @ [Closed d] \<and>
       (\<forall>d'. Opened d' \<notin> set mid \<and> Closed d' \<notin> set mid) \<and>
       (Serving \<in> set mid \<longrightarrow> last mid = MetricsShutdown) \<and>
       (ForcedStop \<in> set mid \<longrightarrow> (\<exists>pre. mid = pre @ [GracefulStop, ForcedStop, MetricsShutdown])))"

text \<open>
  C35: Start and shutdown are balanced. Serving performs no effect unless the store was opened; if it
  was, the opening is the first and the closing of the same store the last effect, each happens
  exactly once, on every path, and whenever the server was serving, the metrics server is shut down
  before the store is closed, and a forced stop only follows an attempt at a graceful one.
\<close>

theorem serve_lifecycle: "lifecycle_ok (snd (serve W))"
proof -
  have mid: "\<exists>mid. snd (serveWithContext W cfg) = [Opened d] @ mid @ [Closed d] \<and>
      (mid = [] \<or> (\<exists>a b tail. mid = [Listening a, MetricsStarted b, Serving] @ tail \<and>
        tail \<in> {[MetricsShutdown], [GracefulStop, MetricsShutdown], [GracefulStop, ForcedStop, MetricsShutdown]}))"
    if "openStore W cfg = Inr d" for cfg d
    using that
    by (auto simp: serveWithContext_def serveUntilDone_def gracefulStopWithTimeout_def split_beta Let_def
        split: option.splits wake.splits)
  have "lifecycle_ok (snd (serveWithContext W cfg))" for cfg
  proof (cases "openStore W cfg")
    case (Inl err)
    then show ?thesis by (simp add: serveWithContext_def lifecycle_ok_def)
  next
    case (Inr d)
    from mid [OF this] show ?thesis by (auto simp: lifecycle_ok_def)
  qed
  then show ?thesis by (simp add: serve_def Let_def lifecycle_ok_def split: option.split)
qed

text \<open>
  A configuration that passed validation selects a supported store: opening it can only fail
  with the error of opening Postgres, never as an unsupported store.
\<close>

theorem validated_store_opens:
  assumes "Validate (wo_golib W) cfg = None"
  shows "openStore W cfg = Inr DriverMemory \<or>
    openStore W cfg = (case wo_pgNew W (cf_PostgresURL cfg) of
      None \<Rightarrow> Inr (DriverPostgres (cf_PostgresURL cfg)) | Some err \<Rightarrow> Inl err)"
  using assms by (auto simp: Validate_def openStore_def split: if_splits option.splits)

definition calm_world :: "json_doc world" where
  "calm_world = \<lparr>wo_env = (\<lambda>_. []), wo_range = [], wo_golib = ascii_golib, wo_pg_libs = pg_micro,
     wo_pgNew = (\<lambda>_. None), wo_listen = (\<lambda>_. None), wo_wake = SignalReceived, wo_in_time = True\<rparr>"

lemma calm_world_sel [simp]: "wo_golib calm_world = ascii_golib" "wo_range calm_world = []" "wo_env calm_world k = []"
  by (simp_all add: calm_world_def)

theorem validated_store_opens_witness:
  "openStore calm_world (Load ascii_golib (\<lambda>_. [])) = Inr DriverMemory"
proof -
  have "Validate (wo_golib calm_world) (Load ascii_golib (\<lambda>_. [])) = None"
    by (simp add: Load_defaults Validate_def StoreMemory_def StorePostgres_def)
  from validated_store_opens [OF this] show ?thesis
    by (auto simp: calm_world_def Load_defaults openStore_def StoreMemory_def)
qed

section \<open>What print-config shows\<close>

abbreviation set_url :: "string \<Rightarrow> string list \<Rightarrow> 'j world \<Rightarrow> 'j world" where
  "set_url raw order W \<equiv> W\<lparr>wo_env := (wo_env W)(''KEYCHAIN_POSTGRES_URL'' := raw), wo_range := order\<rparr>"

lemma printConfig_url:
  assumes "raw \<noteq> []"
  shows "snd (printConfig (set_url raw order W)) =
    [Config_JSON ((Load (wo_golib W) ((wo_env W)(''KEYCHAIN_POSTGRES_URL'' := ''*'')))
      \<lparr>cf_PostgresURL := redactURL (wo_golib W) order raw\<rparr>)]"
  using assms by (simp add: printConfig_def Redacted_def Load_def getEnv_def Let_def)

text \<open>
  C33: \<open>print-config\<close> does not reveal a password that the URL parser recognises: one in the user
  information, or the value of a query parameter called \<open>password\<close> or \<open>sslpassword\<close> in any mixture of
  upper and lower case that the parser can decode. If two connection URLs parse, have such a password,
  and agree on everything but the text of their passwords, the command prints the same for both, whatever
  else is in the environment and whatever the orders in which the queries were ranged over. What
  happens to a parameter that cannot be decoded is the subject of \<open>unreadable\<close> below.
\<close>

theorem print_config_hides_password:
  assumes "raw \<noteq> []" "raw' \<noteq> []" "url_Parse (wo_golib W) raw = Inr u" "url_Parse (wo_golib W) raw' = Inr v"
    and "same_but_passwords (wo_golib W) u v"
    and "set order = fst ` set (url_Query (wo_golib W) (u_RawQuery u))"
    and "set order' = fst ` set (url_Query (wo_golib W) (u_RawQuery v))"
  shows "snd (printConfig (set_url raw order W)) = snd (printConfig (set_url raw' order' W))"
  by (simp only: printConfig_url [OF assms(1)] printConfig_url [OF assms(2)] redactURL_hides_password [OF assms])

theorem print_config_hides_password_witness:
  "snd (printConfig (set_url ''postgres://u:one@h/d?SSLPassword=x&a=b'' [''SSLPassword'', ''a''] calm_world)) =
   snd (printConfig (set_url ''postgres://u:two@h/d?a=b&SSLPassword=%20'' [''a'', ''SSLPassword''] calm_world))"
proof -
  let ?u = "\<lambda>p q. empty_url\<lparr>u_Scheme := ''postgres'', u_User := Some (''u'', Some p), u_Host := ''h'', u_Path := ''/d'', u_RawQuery := q\<rparr>"
  have parse: "url_Parse ascii_golib ''postgres://u:one@h/d?SSLPassword=x&a=b'' = Inr (?u ''one'' ''SSLPassword=x&a=b'')"
    "url_Parse ascii_golib ''postgres://u:two@h/d?a=b&SSLPassword=%20'' = Inr (?u ''two'' ''a=b&SSLPassword=%20'')"
    by code_simp+
  have query: "url_Query ascii_golib ''SSLPassword=x&a=b'' = [(''SSLPassword'', [''x'']), (''a'', [''b''])]"
    "url_Query ascii_golib ''a=b&SSLPassword=%20'' = [(''a'', [''b'']), (''SSLPassword'', ['' ''])]"
    by code_simp+
  have "password_key ''SSLPassword''" by code_simp
  then have "same_but_passwords ascii_golib (?u ''one'' ''SSLPassword=x&a=b'') (?u ''two'' ''a=b&SSLPassword=%20'')"
    by (auto simp: same_but_passwords_def same_params_def carries_password_def has_password_def query)
  with print_config_hides_password [of "''postgres://u:one@h/d?SSLPassword=x&a=b''" "''postgres://u:two@h/d?a=b&SSLPassword=%20''"
      calm_world, simplified, OF parse] show ?thesis by (simp add: query)
qed

text \<open>A password that cannot be read as a value of the query, and that does not end the query.\<close>

definition unreadable :: "golib \<Rightarrow> string \<Rightarrow> bool" where
  "unreadable G pw \<longleftrightarrow>
     (CHR '';'' \<in> set pw \<or> (\<exists>err. unescape (gl_ucd G) encodeQueryComponent pw = Inl err)) \<and>
     (\<forall>c \<in> set pw. \<not> is_control c \<and> c \<noteq> CHR ''&'' \<and> c \<noteq> CHR ''#'')"

lemma redact_query_Nil: "redact_query G ks [] b = ([], b)"
  by (induction ks) simp_all

lemma unreadable_dropped:
  assumes "unreadable G pw"
  shows "url_Query G (''password='' @ pw) = []"
proof -
  have "CHR ''&'' \<notin> set (''password='' @ pw)" using assms by (auto simp: unreadable_def)
  moreover have "query_pair U (''password='' @ pw) = None"
    if "CHR '';'' \<in> set pw \<or> (\<exists>err. unescape U encodeQueryComponent pw = Inl err)" for U
    using that Cut_sep [of "CHR ''=''" "''password''" pw] by (auto simp: query_pair_def split: sum.split)
  ultimately show ?thesis
    using assms by (simp add: url_Query_def unreadable_def parseQuery.simps add_pair_def split: option.split)
qed

text \<open>
  C39: Redaction misses a password it cannot decode. If the password parameter of the connection URL
  has a semicolon or a stray percent sign, the parser drops the pair; the configuration is valid, and
  \<open>print-config\<close> succeeds and prints the URL with the password as it is.
\<close>

theorem print_config_leaks_password:
  assumes "plain_host name port" "unreadable (wo_golib W) pw" "\<And>k. k \<noteq> ''KEYCHAIN_POSTGRES_URL'' \<Longrightarrow> wo_env W k = []"
    and raw: "wo_env W ''KEYCHAIN_POSTGRES_URL'' =
      ''postgres://'' @ hostport name port @ CHR ''/'' # escape encodePath db @ ''?password='' @ pw"
  shows "printConfig W = (None, [Config_JSON (Load (wo_golib W) (wo_env W))]) \<and>
    cf_PostgresURL (Load (wo_golib W) (wo_env W)) = wo_env W ''KEYCHAIN_POSTGRES_URL''"
proof -
  let ?G = "wo_golib W" and ?query = "''password='' @ pw"
  let ?u = "empty_url\<lparr>u_Scheme := ''postgres'', u_User := None, u_Host := hostport name port, u_Path := CHR ''/'' # db,
    u_RawQuery := ?query\<rparr>"
  define raw where "raw = wo_env W ''KEYCHAIN_POSTGRES_URL''"
  have "list_all is_lower ''postgres''" by code_simp
  moreover have "c \<notin> set ?query" if "is_control c \<or> c = CHR ''#''" for c
  proof -
    have "list_all (\<lambda>c. \<not> is_control c \<and> c \<noteq> CHR ''#'') ''password=''" by code_simp
    then have "c \<notin> set ''password=''" using that by (auto simp only: list_all_iff)
    moreover have "c \<notin> set pw" using that assms(2) by (auto simp only: unreadable_def)
    ultimately show ?thesis by (auto simp only: set_append)
  qed
  ultimately have parse: "url_Parse ?G raw = Inr ?u"
    using url_Parse_hierarchical [of "''postgres''" "hostport name port" ?G None "hostport name port" ?query db]
      host_authority_ok [OF assms(1)] parseAuthority_host [OF assms(1)]
    by (simp add: raw_def assms(4))
  have "raw \<noteq> []" by (simp add: raw_def assms(4))
  moreover have "redactURL ?G order raw = raw" for order
    using parse unreadable_dropped [OF assms(2)] by (simp add: redactURL_def redact_query_Nil)
  moreover have "validatePostgresURL ?G raw = None"
    using parse assms(1) by (simp add: validatePostgresURL_def hostport_def plain_host_def)
  ultimately show ?thesis
    by (simp add: printConfig_def Load_defaults [OF assms(3)] Validate_def Redacted_def raw_def [symmetric] StorePostgres_def)
qed

theorem print_config_leaks_password_witness:
  "printConfig (set_url ''postgres://db:5432/keychain?password=50%off'' [] calm_world) =
   (None, [Config_JSON ((Load ascii_golib (\<lambda>_. []))\<lparr>cf_Store := StorePostgres,
      cf_PostgresURL := ''postgres://db:5432/keychain?password=50%off''\<rparr>)])"
proof -
  have "plain_host ''db'' (Some ''5432'')" by code_simp
  moreover have "isl (unescape (gl_ucd ascii_golib) encodeQueryComponent ''50%off'')" by code_simp
  then have "unreadable ascii_golib ''50%off''" by (auto simp: unreadable_def isl_def go_defs)
  moreover have "''postgres://db:5432/keychain?password=50%off'' =
      ''postgres://'' @ hostport ''db'' (Some ''5432'') @ CHR ''/'' # escape encodePath ''keychain'' @ ''?password='' @ ''50%off''"
    by code_simp
  ultimately show ?thesis
    using print_config_leaks_password [of "''db''" "Some ''5432''"
        "set_url ''postgres://db:5432/keychain?password=50%off'' [] calm_world" "''50%off''" "''keychain''"]
    by (simp add: Load_defaults)
qed

end
