(* ===== verification/KC_Fair.thy ===== *)
theory KC_Fair
  imports KC_Prelude
begin

text \<open>
  Runs of labelled transition systems and progress under weak fairness. The locale \<open>response\<close> is the
  proof rule: while the goal is not reached some fair action is helpful, it stays so until something
  brings the rank down, and taking it does. Interpreted on the goroutines of the programs.
\<close>

section \<open>Runs\<close>

text \<open>A run: states with the action taken at each moment, or none.\<close>

definition is_run :: "('l \<Rightarrow> 's \<Rightarrow> 's \<Rightarrow> bool) \<Rightarrow> (nat \<Rightarrow> 's) \<Rightarrow> (nat \<Rightarrow> 'l option) \<Rightarrow> bool" where
  "is_run step \<sigma> act \<longleftrightarrow>
     (\<forall>n. case act n of None \<Rightarrow> \<sigma> (Suc n) = \<sigma> n | Some l \<Rightarrow> step l (\<sigma> n) (\<sigma> (Suc n)))"

definition can_step :: "('l \<Rightarrow> 's \<Rightarrow> 's \<Rightarrow> bool) \<Rightarrow> 'l \<Rightarrow> 's \<Rightarrow> bool" where
  "can_step step l s \<longleftrightarrow> (\<exists>s'. step l s s')"

text \<open>Weak fairness: a fair action that can be taken from some moment on is taken.\<close>

definition is_fair :: "('l \<Rightarrow> 's \<Rightarrow> 's \<Rightarrow> bool) \<Rightarrow> 'l set \<Rightarrow> (nat \<Rightarrow> 's) \<Rightarrow> (nat \<Rightarrow> 'l option) \<Rightarrow> bool" where
  "is_fair step fair \<sigma> act \<longleftrightarrow>
     (\<forall>l \<in> fair. \<forall>n. (\<forall>m \<ge> n. can_step step l (\<sigma> m)) \<longrightarrow> (\<exists>m \<ge> n. act m = Some l))"

text \<open>Strong fairness: a fair action that can be taken again and again is taken again and again.\<close>

definition is_strongly_fair ::
  "('l \<Rightarrow> 's \<Rightarrow> 's \<Rightarrow> bool) \<Rightarrow> 'l set \<Rightarrow> (nat \<Rightarrow> 's) \<Rightarrow> (nat \<Rightarrow> 'l option) \<Rightarrow> bool" where
  "is_strongly_fair step fair \<sigma> act \<longleftrightarrow>
     (\<forall>l \<in> fair. (\<forall>n. \<exists>m \<ge> n. can_step step l (\<sigma> m)) \<longrightarrow> (\<forall>n. \<exists>m \<ge> n. act m = Some l))"

text \<open>Finite runs with their labels.\<close>

inductive lts_run :: "('l \<Rightarrow> 's \<Rightarrow> 's \<Rightarrow> bool) \<Rightarrow> 's \<Rightarrow> 'l list \<Rightarrow> 's \<Rightarrow> bool" for step s where
  lts_start: "lts_run step s [] s"
| lts_next: "lts_run step s tr s1 \<Longrightarrow> step l s1 s2 \<Longrightarrow> lts_run step s (tr @ [l]) s2"

lemma is_run_keeps:
  assumes "is_run step \<sigma> act" "I (\<sigma> n)" "\<And>l s s'. I s \<Longrightarrow> step l s s' \<Longrightarrow> I s'" "n \<le> m"
  shows "I (\<sigma> m)"
  using assms(4)
proof (induction m rule: dec_induct)
  case (step m)
  then show ?case using assms(1,3) by (auto simp: is_run_def dest!: spec [of _ m] split: option.splits)
qed (rule assms(2))

section \<open>Response\<close>

locale response =
  fixes step :: "'l \<Rightarrow> 's \<Rightarrow> 's \<Rightarrow> bool"
    and pending :: "'s \<Rightarrow> bool"
    and goal :: "'s \<Rightarrow> bool"
    and rank :: "'s \<Rightarrow> nat"
    and helper :: "'s \<Rightarrow> 'l"
    and fair :: "'l set"
  assumes help_fair: "pending s \<Longrightarrow> helper s \<in> fair"
    and help_enabled: "pending s \<Longrightarrow> can_step step (helper s) s"
    and help_decreases: "pending s \<Longrightarrow> step (helper s) s s' \<Longrightarrow> goal s' \<or> pending s' \<and> rank s' < rank s"
    and others_keep: "pending s \<Longrightarrow> step l s s' \<Longrightarrow>
      goal s' \<or> pending s' \<and> (rank s' < rank s \<or> rank s' = rank s \<and> helper s' = helper s)"
begin

lemma pending_stuck:
  assumes "is_run step \<sigma> act" "pending (\<sigma> n)" "n \<le> m"
    and stuck: "\<And>k. n \<le> k \<Longrightarrow> \<not> goal (\<sigma> k) \<and> \<not> (pending (\<sigma> k) \<and> rank (\<sigma> k) < rank (\<sigma> n))"
  shows "pending (\<sigma> m) \<and> rank (\<sigma> m) = rank (\<sigma> n) \<and> helper (\<sigma> m) = helper (\<sigma> n)"
  using assms(3)
proof (induction m rule: dec_induct)
  case (step m)
  from assms(1) have "case act m of None \<Rightarrow> \<sigma> (Suc m) = \<sigma> m | Some l \<Rightarrow> step l (\<sigma> m) (\<sigma> (Suc m))"
    by (simp add: is_run_def)
  then show ?case
    using others_keep [of "\<sigma> m" _ "\<sigma> (Suc m)"] step stuck [of "Suc m"] by (fastforce split: option.splits)
qed (simp add: assms(2))

lemma rank_drops:
  assumes "is_run step \<sigma> act" "is_fair step fair \<sigma> act" "pending (\<sigma> n)"
  shows "\<exists>m \<ge> n. goal (\<sigma> m) \<or> pending (\<sigma> m) \<and> rank (\<sigma> m) < rank (\<sigma> n)"
proof (rule ccontr)
  assume "\<not> ?thesis"
  then have stuck: "\<not> goal (\<sigma> k) \<and> \<not> (pending (\<sigma> k) \<and> rank (\<sigma> k) < rank (\<sigma> n))" if "n \<le> k" for k
    using that by blast
  note still = pending_stuck [OF assms(1,3) _ stuck]
  have "\<forall>m \<ge> n. can_step step (helper (\<sigma> n)) (\<sigma> m)" using still help_enabled by metis
  then obtain m where m: "n \<le> m" "act m = Some (helper (\<sigma> n))"
    using assms(2) help_fair [OF assms(3)] unfolding is_fair_def by blast
  then have "step (helper (\<sigma> m)) (\<sigma> m) (\<sigma> (Suc m))"
    using assms(1) still [of m] by (auto simp: is_run_def dest!: spec [of _ m])
  then show False
    using help_decreases [of "\<sigma> m" "\<sigma> (Suc m)"] still [of m] stuck [of "Suc m"] m(1) by auto
qed

theorem responds:
  assumes "is_run step \<sigma> act" "is_fair step fair \<sigma> act" "pending (\<sigma> n)"
  shows "\<exists>m \<ge> n. goal (\<sigma> m)"
  using assms(3)
proof (induction "rank (\<sigma> n)" arbitrary: n rule: less_induct)
  case less
  from rank_drops [OF assms(1,2) less.prems] obtain m where m: "n \<le> m"
    "goal (\<sigma> m) \<or> pending (\<sigma> m) \<and> rank (\<sigma> m) < rank (\<sigma> n)" by blast
  then show ?case using less.hyps [of m] by (meson order_trans)
qed

end

end
