(* ===== verification/KC_Process.thy ===== *)
theory KC_Process
  imports KC_Main KC_Fair
begin

text \<open>
  The goroutines of \<open>cmd/keychain\<close>. \<open>KC_Main\<close> gives the order of the effects as seen by the main
  goroutine, with what ends its waits supplied from outside; here the goroutines, their channels, the
  context and the timer take steps of their own, in any order.

  The calls that block in a library (\<open>Serve\<close>, \<open>GracefulStop\<close>, \<open>Stop\<close>, \<open>Shutdown\<close>, \<open>ListenAndServe\<close>,
  closing the store) return at some later moment, with any result, or never; nothing else is assumed
  of them here. What progress needs of them is the set \<open>must_return\<close>.
\<close>

section \<open>Goroutines\<close>

datatype main_pc =
    MWait                        \<comment> \<open>the select of \<open>serveUntilDone\<close>\<close>
  | MServeFailed goerr           \<comment> \<open>in \<open>shutdownMetrics\<close>, after \<open>Serve\<close> failed\<close>
  | MStopWait                    \<comment> \<open>the select of \<open>gracefulStopWithTimeout\<close>\<close>
  | MForce                       \<comment> \<open>in \<open>Stop\<close>\<close>
  | MShutdown                    \<comment> \<open>in \<open>shutdownMetrics\<close>\<close>
  | MClose "goerr option"        \<comment> \<open>in the deferred \<open>closeStore\<close>\<close>
  | MExit "goerr option"

datatype serve_pc = SServing | SSend "goerr option" | SExit

datatype stopper_pc = XIdle | XSpawned | XStopping | XClose | XExit

datatype timer = TimerOff | TimerArmed | TimerFired

datatype listener_pc = HListening | HExit

datatype watcher_pc = WWait | WShutdown | WExit

datatype http_result = HttpNil | HttpServerClosed | HttpErr string

record process =
  pr_done :: bool
  pr_main :: main_pc
  pr_serve :: serve_pc
  pr_errCh :: "goerr option option"
  pr_stopper :: stopper_pc
  pr_stopped :: bool
  pr_timer :: timer
  pr_listener :: listener_pc
  pr_watcher :: watcher_pc
  pr_log :: "string list"
  pr_trace :: "event list"

datatype action =
    Signal | MainSelects | StopReturns | ShutdownReturns | CloseReturns
  | ServeReturns "goerr option" | ServeSends
  | StopperCalls | GracefulReturns | StopperCloses | TimerFires
  | MetricsReturns http_result | WatcherWakes | WatcherReturns

text \<open>The state \<open>startMetricsServer\<close> and the first lines of \<open>serveUntilDone\<close> leave behind.\<close>

definition process_start :: "bool \<Rightarrow> process" where
  "process_start cancelled = \<lparr>pr_done = cancelled, pr_main = MWait, pr_serve = SServing, pr_errCh = None,
     pr_stopper = XIdle, pr_stopped = False, pr_timer = TimerOff, pr_listener = HListening, pr_watcher = WWait,
     pr_log = [], pr_trace = [Serving]\<rparr>"

text \<open>\<open>gracefulStop\<close>: start the goroutine that calls \<open>GracefulStop\<close>, arm the timer, wait.\<close>

definition begin_stop :: "process \<Rightarrow> process" where
  "begin_stop p = p\<lparr>pr_main := MStopWait, pr_stopper := XSpawned, pr_timer := TimerArmed,
     pr_trace := pr_trace p @ [GracefulStop]\<rparr>"

inductive main_step :: "driver \<Rightarrow> action \<Rightarrow> process \<Rightarrow> process \<Rightarrow> bool" for d where
  wait_done: "pr_main p = MWait \<Longrightarrow> pr_done p \<Longrightarrow>
    main_step d MainSelects p (begin_stop (p\<lparr>pr_log := pr_log p @ [''shutdown signal received'']\<rparr>))"
| wait_failed: "pr_main p = MWait \<Longrightarrow> pr_errCh p = Some (Some err) \<Longrightarrow>
    main_step d MainSelects p (p\<lparr>pr_errCh := None, pr_main := MServeFailed err\<rparr>)"
| wait_returned: "pr_main p = MWait \<Longrightarrow> pr_errCh p = Some None \<Longrightarrow>
    main_step d MainSelects p (begin_stop (p\<lparr>pr_errCh := None\<rparr>))"
| stop_in_time: "pr_main p = MStopWait \<Longrightarrow> pr_stopped p \<Longrightarrow> main_step d MainSelects p (p\<lparr>pr_main := MShutdown\<rparr>)"
| stop_timeout: "pr_main p = MStopWait \<Longrightarrow> pr_timer p = TimerFired \<Longrightarrow>
    main_step d MainSelects p (p\<lparr>pr_main := MForce, pr_log := pr_log p @ [''gRPC graceful stop timed out; forcing stop''],
      pr_trace := pr_trace p @ [ForcedStop]\<rparr>)"
| stop_returns: "pr_main p = MForce \<Longrightarrow> main_step d StopReturns p (p\<lparr>pr_main := MShutdown\<rparr>)"
| shutdown_failed: "pr_main p = MServeFailed err \<Longrightarrow>
    main_step d ShutdownReturns p (p\<lparr>pr_main := MClose (Some (Wrapf ''gRPC serve: %w'' None err)),
      pr_trace := pr_trace p @ [MetricsShutdown]\<rparr>)"
| shutdown_returns: "pr_main p = MShutdown \<Longrightarrow>
    main_step d ShutdownReturns p (p\<lparr>pr_main := MClose None, pr_trace := pr_trace p @ [MetricsShutdown]\<rparr>)"
| close_returns: "pr_main p = MClose res \<Longrightarrow>
    main_step d CloseReturns p (p\<lparr>pr_main := MExit res, pr_trace := pr_trace p @ [Closed d]\<rparr>)"

text \<open>The goroutine of \<open>serveUntilDone\<close>; \<open>errCh\<close> has room for one value.\<close>

inductive serve_step :: "action \<Rightarrow> process \<Rightarrow> process \<Rightarrow> bool" where
  serve_returns: "pr_serve p = SServing \<Longrightarrow> serve_step (ServeReturns res) p (p\<lparr>pr_serve := SSend res\<rparr>)"
| serve_sends: "pr_serve p = SSend res \<Longrightarrow> pr_errCh p = None \<Longrightarrow>
    serve_step ServeSends p (p\<lparr>pr_serve := SExit, pr_errCh := Some res\<rparr>)"

text \<open>The goroutine and the timer of \<open>gracefulStopWithTimeout\<close>.\<close>

inductive stopper_step :: "action \<Rightarrow> process \<Rightarrow> process \<Rightarrow> bool" where
  stopper_calls: "pr_stopper p = XSpawned \<Longrightarrow> stopper_step StopperCalls p (p\<lparr>pr_stopper := XStopping\<rparr>)"
| graceful_returns: "pr_stopper p = XStopping \<Longrightarrow> stopper_step GracefulReturns p (p\<lparr>pr_stopper := XClose\<rparr>)"
| stopper_closes: "pr_stopper p = XClose \<Longrightarrow>
    stopper_step StopperCloses p (p\<lparr>pr_stopper := XExit, pr_stopped := True\<rparr>)"
| timer_fires: "pr_timer p = TimerArmed \<Longrightarrow> stopper_step TimerFires p (p\<lparr>pr_timer := TimerFired\<rparr>)"

text \<open>The two goroutines of \<open>startMetricsServer\<close>.\<close>

inductive metrics_step :: "action \<Rightarrow> process \<Rightarrow> process \<Rightarrow> bool" where
  metrics_returns: "pr_listener p = HListening \<Longrightarrow>
    metrics_step (MetricsReturns res) p (p\<lparr>pr_listener := HExit,
      pr_log := pr_log p @ (case res of HttpErr msg \<Rightarrow> [''metrics server failed: '' @ msg] | _ \<Rightarrow> [])\<rparr>)"
| watcher_wakes: "pr_watcher p = WWait \<Longrightarrow> pr_done p \<Longrightarrow> metrics_step WatcherWakes p (p\<lparr>pr_watcher := WShutdown\<rparr>)"
| watcher_returns: "pr_watcher p = WShutdown \<Longrightarrow> metrics_step WatcherReturns p (p\<lparr>pr_watcher := WExit\<rparr>)"

inductive process_step :: "driver \<Rightarrow> action \<Rightarrow> process \<Rightarrow> process \<Rightarrow> bool" for d where
  signal: "\<not> pr_done p \<Longrightarrow> process_step d Signal p (p\<lparr>pr_done := True\<rparr>)"
| main: "main_step d a p p' \<Longrightarrow> process_step d a p p'"
| serve: "serve_step a p p' \<Longrightarrow> process_step d a p p'"
| stopper: "stopper_step a p p' \<Longrightarrow> process_step d a p p'"
| metrics: "metrics_step a p p' \<Longrightarrow> process_step d a p p'"

inductive_cases process_stepE: "process_step d a p p'"
inductive_cases main_stepE: "main_step d a p p'"
inductive_cases serve_stepE: "serve_step a p p'"
inductive_cases stopper_stepE: "stopper_step a p p'"
inductive_cases metrics_stepE: "metrics_step a p p'"

lemmas step_cases = process_stepE main_stepE serve_stepE stopper_stepE metrics_stepE

inductive process_reachable :: "driver \<Rightarrow> bool \<Rightarrow> process \<Rightarrow> bool" for d b where
  start: "process_reachable d b (process_start b)"
| step: "process_reachable d b p \<Longrightarrow> process_step d a p p' \<Longrightarrow> process_reachable d b p'"

text \<open>The handler of the metrics server: one path with a fixed body, no handler for any other.\<close>

definition metrics_mux :: "string \<Rightarrow> string option" where
  "metrics_mux path = (if path = ''/healthz'' then Some ''{\"status\":\"ok\"}'' else None)"

section \<open>Invariant\<close>

text \<open>
  Where the main goroutine is tells what it has done. The serving goroutine finds room in \<open>errCh\<close>
  whenever it is about to send.
\<close>

definition done_ok :: "goerr option \<Rightarrow> event list \<Rightarrow> bool" where
  "done_ok res tr \<longleftrightarrow>
     (case res of
        Some e \<Rightarrow> (\<exists>err. e = Wrapf ''gRPC serve: %w'' None err) \<and> tr = [Serving, MetricsShutdown]
      | None \<Rightarrow> \<exists>b. tr = Serving # gracefulStopWithTimeout b)"

fun main_ok :: "driver \<Rightarrow> main_pc \<Rightarrow> event list \<Rightarrow> bool" where
  "main_ok d MWait tr \<longleftrightarrow> tr = [Serving]"
| "main_ok d (MServeFailed err) tr \<longleftrightarrow> tr = [Serving]"
| "main_ok d MStopWait tr \<longleftrightarrow> tr = [Serving, GracefulStop]"
| "main_ok d MForce tr \<longleftrightarrow> tr = [Serving, GracefulStop, ForcedStop]"
| "main_ok d MShutdown tr \<longleftrightarrow> tr = [Serving, GracefulStop] \<or> tr = [Serving, GracefulStop, ForcedStop]"
| "main_ok d (MClose res) tr \<longleftrightarrow> done_ok res tr"
| "main_ok d (MExit res) tr \<longleftrightarrow> (\<exists>tr'. tr = tr' @ [Closed d] \<and> done_ok res tr')"

lemma done_ok_simps:
  "done_ok (Some (Wrapf ''gRPC serve: %w'' None err)) [Serving, MetricsShutdown]"
  "done_ok None [Serving, GracefulStop, MetricsShutdown]"
  "done_ok None [Serving, GracefulStop, ForcedStop, MetricsShutdown]"
  unfolding done_ok_def gracefulStopWithTimeout_def by (auto intro: exI [of _ True] exI [of _ False])

definition process_inv :: "driver \<Rightarrow> process \<Rightarrow> bool" where
  "process_inv d p \<longleftrightarrow> main_ok d (pr_main p) (pr_trace p) \<and>
     (pr_serve p \<noteq> SExit \<longrightarrow> pr_errCh p = None) \<and>
     (pr_main p = MWait \<and> pr_serve p = SExit \<longrightarrow> pr_errCh p \<noteq> None) \<and>
     (pr_main p = MStopWait \<longrightarrow> pr_timer p \<noteq> TimerOff)"

lemma process_start_inv: "process_inv d (process_start b)"
  by (simp add: process_inv_def process_start_def)

lemma process_step_inv: "process_inv d p \<Longrightarrow> process_step d a p p' \<Longrightarrow> process_inv d p'"
  by (elim step_cases)
    (auto simp: process_inv_def begin_stop_def done_ok_simps)

lemma process_reachable_inv: "process_reachable d b p \<Longrightarrow> process_inv d p"
  by (induction rule: process_reachable.induct) (auto intro: process_start_inv process_step_inv)

section \<open>Progress\<close>

text \<open>
  What has to happen for the process to end: goroutines that can go on do, timers fire, and \<open>Stop\<close>,
  \<open>Shutdown\<close> with its deadline and closing the store return. \<open>Serve\<close> and \<open>GracefulStop\<close> need not return.
\<close>

definition must_return :: "action set" where
  "must_return = {MainSelects, ServeSends, TimerFires, StopReturns, ShutdownReturns, CloseReturns}"

definition exited :: "process \<Rightarrow> bool" where
  "exited p \<longleftrightarrow> (\<exists>res. pr_main p = MExit res)"

text \<open>A reason to stop: the context is done, or \<open>Serve\<close> has returned.\<close>

definition stop_due :: "process \<Rightarrow> bool" where
  "stop_due p \<longleftrightarrow> pr_done p \<or> pr_serve p \<noteq> SServing"

definition stopping :: "driver \<Rightarrow> process \<Rightarrow> bool" where
  "stopping d p \<longleftrightarrow> process_inv d p \<and> \<not> exited p \<and>
     (pr_main p = MWait \<longrightarrow> pr_done p \<or> pr_errCh p \<noteq> None \<or> (\<exists>res. pr_serve p = SSend res))"

fun next_action :: "process \<Rightarrow> action" where
  "next_action p =
     (case pr_main p of
        MWait \<Rightarrow> if pr_done p \<or> pr_errCh p \<noteq> None then MainSelects else ServeSends
      | MServeFailed _ \<Rightarrow> ShutdownReturns
      | MStopWait \<Rightarrow> if pr_stopped p \<or> pr_timer p = TimerFired then MainSelects else TimerFires
      | MForce \<Rightarrow> StopReturns
      | MShutdown \<Rightarrow> ShutdownReturns
      | MClose _ \<Rightarrow> CloseReturns
      | MExit _ \<Rightarrow> Signal)"

fun steps_left :: "process \<Rightarrow> nat" where
  "steps_left p =
     (case pr_main p of
        MWait \<Rightarrow> if pr_done p \<or> pr_errCh p \<noteq> None then 6 else 7
      | MServeFailed _ \<Rightarrow> 2
      | MStopWait \<Rightarrow> if pr_stopped p \<or> pr_timer p = TimerFired then 4 else 5
      | MForce \<Rightarrow> 3
      | MShutdown \<Rightarrow> 2
      | MClose _ \<Rightarrow> 1
      | MExit _ \<Rightarrow> 0)"

lemma next_action_enabled:
  assumes "stopping d p"
  shows "can_step (process_step d) (next_action p) p"
proof (cases "pr_main p")
  case MWait
  consider "pr_done p" | res where "pr_errCh p = Some res" | res where "pr_serve p = SSend res" "pr_errCh p = None"
    using assms MWait by (auto simp: stopping_def)
  then show ?thesis
  proof cases
    case 2
    with MWait show ?thesis
      by (cases res) (auto simp: can_step_def intro: process_step.main [OF wait_failed] process_step.main [OF wait_returned])
  qed (use MWait in \<open>auto simp: can_step_def intro: process_step.main [OF wait_done] process_step.serve [OF serve_sends]\<close>)
next
  case MStopWait
  then have "pr_timer p = TimerArmed \<or> pr_timer p = TimerFired"
    using assms by (cases "pr_timer p") (auto simp: stopping_def process_inv_def)
  with MStopWait show ?thesis
    by (auto simp: can_step_def intro: process_step.main [OF stop_in_time] process_step.main [OF stop_timeout]
        process_step.stopper [OF timer_fires])
qed (use assms in \<open>auto simp: can_step_def stopping_def exited_def intro: process_step.main [OF stop_returns]
    process_step.main [OF shutdown_failed] process_step.main [OF shutdown_returns] process_step.main [OF close_returns]\<close>)

lemma stopping_step:
  assumes "stopping d p" "process_step d a p p'"
  shows "exited p' \<or> stopping d p'"
proof -
  have "process_inv d p'" using assms process_step_inv by (auto simp: stopping_def)
  then show ?thesis
    using assms by (elim step_cases) (auto simp: stopping_def exited_def begin_stop_def process_inv_def)
qed

lemma steps_left_step:
  assumes "stopping d p" "process_step d a p p'" "\<not> exited p'"
  shows "steps_left p' < steps_left p \<or> steps_left p' = steps_left p \<and> next_action p' = next_action p \<and> a \<noteq> next_action p"
  using assms
  by (elim step_cases) (auto simp: stopping_def exited_def begin_stop_def process_inv_def split: main_pc.split)

interpretation shutdown: response "process_step d" "stopping d" exited steps_left next_action must_return
proof
  fix p a p'
  assume p: "stopping d p"
  show "next_action p \<in> must_return"
    using p by (auto simp: must_return_def stopping_def exited_def split: main_pc.split)
  show "can_step (process_step d) (next_action p) p" by (rule next_action_enabled [OF p])
  show "exited p' \<or> stopping d p' \<and> steps_left p' < steps_left p" if "process_step d (next_action p) p p'"
    using stopping_step [OF p that] steps_left_step [OF p that] by blast
  show "exited p' \<or> stopping d p' \<and> (steps_left p' < steps_left p \<or>
      steps_left p' = steps_left p \<and> next_action p' = next_action p)" if "process_step d a p p'"
    using stopping_step [OF p that] steps_left_step [OF p that] by blast
qed

lemma stop_due_stopping: "process_inv d p \<Longrightarrow> stop_due p \<Longrightarrow> exited p \<or> stopping d p"
  by (cases "pr_serve p") (auto simp: stopping_def stop_due_def process_inv_def)

lemma exited_closed:
  "process_inv d p \<Longrightarrow> exited p \<Longrightarrow> \<exists>res tr. pr_main p = MExit res \<and> pr_trace p = tr @ [Closed d]"
  unfolding exited_def process_inv_def by auto

lemma run_inv:
  assumes "\<sigma> 0 = process_start b" "is_run (process_step d) \<sigma> act"
  shows "process_inv d (\<sigma> n)"
  by (rule is_run_keeps [OF assms(2), where I = "process_inv d" and n = 0])
    (auto simp: assms(1) process_start_inv intro: process_step_inv)

text \<open>
  C36: Shutdown always comes to an end. Once the context is done or \<open>Serve\<close> has returned, in every fair
  run of the goroutines the main goroutine returns, and the last thing it does is close the store; also
  when RPCs in flight never finish and \<open>GracefulStop\<close> therefore never returns.
\<close>

theorem process_ends:
  assumes "\<sigma> 0 = process_start b" "is_run (process_step d) \<sigma> act"
    and "is_fair (process_step d) must_return \<sigma> act" "stop_due (\<sigma> n)"
  shows "\<exists>m \<ge> n. \<exists>res tr. pr_main (\<sigma> m) = MExit res \<and> pr_trace (\<sigma> m) = tr @ [Closed d]"
proof -
  from stop_due_stopping [OF run_inv [OF assms(1,2)] assms(4)] obtain m where m: "n \<le> m" "exited (\<sigma> m)"
    using shutdown.responds [OF assms(2,3), of n] by blast
  with exited_closed [OF run_inv [OF assms(1,2), of m]] show ?thesis by blast
qed

text \<open>A run in which the graceful stop times out.\<close>

definition timeout_actions :: "action list" where
  "timeout_actions = [Signal, MainSelects, TimerFires, MainSelects, StopReturns, ShutdownReturns, CloseReturns]"

definition after_timeout :: "main_pc \<Rightarrow> event list \<Rightarrow> process" where
  "after_timeout pc tr = (process_start False)\<lparr>pr_done := True, pr_main := pc, pr_stopper := XSpawned,
     pr_timer := TimerFired, pr_log := [''shutdown signal received'', ''gRPC graceful stop timed out; forcing stop''],
     pr_trace := [Serving, GracefulStop, ForcedStop] @ tr\<rparr>"

definition timeout_states :: "process list" where
  "timeout_states =
     (let p1 = (process_start False)\<lparr>pr_done := True\<rparr>;
          p2 = begin_stop (p1\<lparr>pr_log := pr_log p1 @ [''shutdown signal received'']\<rparr>)
      in [process_start False, p1, p2, p2\<lparr>pr_timer := TimerFired\<rparr>, after_timeout MForce [], after_timeout MShutdown [],
          after_timeout (MClose None) [MetricsShutdown],
          after_timeout (MExit None) [MetricsShutdown, Closed DriverMemory]])"

lemma timeout_steps:
  fixes d :: driver
  defines "p1 \<equiv> (process_start False)\<lparr>pr_done := True\<rparr>"
  defines "p2 \<equiv> begin_stop (p1\<lparr>pr_log := pr_log p1 @ [''shutdown signal received'']\<rparr>)"
  shows "process_step d Signal (process_start False) p1" "process_step d MainSelects p1 p2"
    "process_step d TimerFires p2 (p2\<lparr>pr_timer := TimerFired\<rparr>)"
    "process_step d MainSelects (p2\<lparr>pr_timer := TimerFired\<rparr>) (after_timeout MForce [])"
    "process_step d StopReturns (after_timeout MForce []) (after_timeout MShutdown [])"
    "process_step d ShutdownReturns (after_timeout MShutdown []) (after_timeout (MClose None) [MetricsShutdown])"
    "process_step d CloseReturns (after_timeout (MClose None) [MetricsShutdown])
       (after_timeout (MExit None) [MetricsShutdown, Closed d])"
proof -
  note defs = process_start_def begin_stop_def after_timeout_def
  show "process_step d Signal (process_start False) p1"
    unfolding p1_def by (rule process_step.signal) (simp add: defs)
  show "process_step d MainSelects p1 p2"
    unfolding p2_def by (rule process_step.main [OF wait_done]) (simp_all add: p1_def defs)
  show "process_step d TimerFires p2 (p2\<lparr>pr_timer := TimerFired\<rparr>)"
    by (rule process_step.stopper [OF timer_fires]) (simp add: p2_def defs)
  show "process_step d MainSelects (p2\<lparr>pr_timer := TimerFired\<rparr>) (after_timeout MForce [])"
    using process_step.main [OF stop_timeout, of "p2\<lparr>pr_timer := TimerFired\<rparr>" d] by (simp add: p1_def p2_def defs)
  show "process_step d StopReturns (after_timeout MForce []) (after_timeout MShutdown [])"
    using process_step.main [OF stop_returns, of "after_timeout MForce []" d] by (simp add: defs)
  show "process_step d ShutdownReturns (after_timeout MShutdown []) (after_timeout (MClose None) [MetricsShutdown])"
    using process_step.main [OF shutdown_returns, of "after_timeout MShutdown []" d] by (simp add: defs)
  show "process_step d CloseReturns (after_timeout (MClose None) [MetricsShutdown])
       (after_timeout (MExit None) [MetricsShutdown, Closed d])"
    using process_step.main [OF close_returns, of "after_timeout (MClose None) [MetricsShutdown]" None d] by (simp add: defs)
qed

definition timeout_run :: "nat \<Rightarrow> process" where
  "timeout_run n = timeout_states ! min n 7"

definition timeout_act :: "nat \<Rightarrow> action option" where
  "timeout_act n = (if n < 7 then Some (timeout_actions ! n) else None)"

lemma timeout_is_run: "is_run (process_step DriverMemory) timeout_run timeout_act"
proof -
  have "process_step DriverMemory (timeout_actions ! n) (timeout_states ! n) (timeout_states ! Suc n)" if "n < 7" for n
  proof -
    have "n \<in> {0, 1, 2, 3, 4, 5, 6}" using that by auto
    then show ?thesis
      unfolding timeout_actions_def timeout_states_def Let_def
      by (elim insertE emptyE) (use timeout_steps [of DriverMemory] in \<open>simp_all add: numeral_eq_Suc\<close>)
  qed
  then show ?thesis by (auto simp: is_run_def timeout_run_def timeout_act_def min_def split: option.splits)
qed

lemma timeout_is_fair: "is_fair (process_step DriverMemory) must_return timeout_run timeout_act"
proof -
  have "\<not> can_step (process_step DriverMemory) a (timeout_run m)" if "a \<in> must_return" "7 \<le> m" for a m
    using that
    by (auto simp: can_step_def must_return_def timeout_run_def timeout_states_def Let_def process_start_def after_timeout_def
        elim!: step_cases)
  then show ?thesis unfolding is_fair_def by (metis nat_le_linear)
qed

theorem process_ends_witness:
  "\<exists>m. \<exists>res tr. pr_main (timeout_run m) = MExit res \<and> pr_trace (timeout_run m) = tr @ [Closed DriverMemory]"
proof -
  have "timeout_run 0 = process_start False" "stop_due (timeout_run 1)"
    by (simp_all add: timeout_run_def timeout_states_def Let_def stop_due_def)
  from process_ends [OF this(1) timeout_is_run timeout_is_fair this(2)] show ?thesis by blast
qed

section \<open>The sequential view\<close>

text \<open>Three runs that end: \<open>Serve\<close> fails; the graceful stop is in time; it is not.\<close>

definition can_exit :: "driver \<Rightarrow> goerr option \<Rightarrow> event list \<Rightarrow> bool" where
  "can_exit d res tr \<longleftrightarrow> (\<exists>p. process_reachable d False p \<and> pr_main p = MExit res \<and> pr_trace p = tr @ [Closed d])"

lemma can_exit_forced: "can_exit d None [Serving, GracefulStop, ForcedStop, MetricsShutdown]"
proof -
  note reach = process_reachable.step [OF process_reachable.start [of d False] timeout_steps(1)]
  note reach = process_reachable.step [OF reach timeout_steps(2)]
  note reach = process_reachable.step [OF reach timeout_steps(3)]
  note reach = process_reachable.step [OF reach timeout_steps(4)]
  note reach = process_reachable.step [OF reach timeout_steps(5)]
  note reach = process_reachable.step [OF reach timeout_steps(6)]
  note reach = process_reachable.step [OF reach timeout_steps(7)]
  show ?thesis
    unfolding can_exit_def by (rule exI, rule conjI, rule reach) (simp add: after_timeout_def process_start_def)
qed

text \<open>The last two steps of the main goroutine.\<close>

lemma can_exit_close:
  assumes "process_reachable d False p" "pr_main p = MClose res" "pr_trace p = tr"
  shows "can_exit d res tr"
  unfolding can_exit_def
  by (rule exI, rule conjI, rule process_reachable.step [OF assms(1) process_step.main [OF close_returns [OF assms(2)]]])
    (simp add: assms(3))

lemma can_exit_in_time: "can_exit d None [Serving, GracefulStop, MetricsShutdown]"
proof -
  define p0 p1 p2 where "p0 = process_start False" and "p1 = p0\<lparr>pr_done := True\<rparr>"
    and "p2 = begin_stop (p1\<lparr>pr_log := pr_log p1 @ [''shutdown signal received'']\<rparr>)"
  define p3 p4 p5 p6 where "p3 = p2\<lparr>pr_stopper := XStopping\<rparr>" and "p4 = p3\<lparr>pr_stopper := XClose\<rparr>"
    and "p5 = p4\<lparr>pr_stopper := XExit, pr_stopped := True\<rparr>" and "p6 = p5\<lparr>pr_main := MShutdown\<rparr>"
  note defs = p0_def p1_def p2_def p3_def p4_def p5_def p6_def process_start_def begin_stop_def
  note r1 = process_reachable.step [OF process_reachable.start [of d False] timeout_steps(1)]
  note r2 = process_reachable.step [OF r1 timeout_steps(2)]
  have "process_reachable d False p2" using r2 by (simp only: p0_def p1_def p2_def)
  then have "process_reachable d False p3" unfolding p3_def
    by (rule process_reachable.step [OF _ process_step.stopper [OF stopper_calls]]) (simp add: defs)
  then have "process_reachable d False p4" unfolding p4_def
    by (rule process_reachable.step [OF _ process_step.stopper [OF graceful_returns]]) (simp add: defs)
  then have "process_reachable d False p5" unfolding p5_def
    by (rule process_reachable.step [OF _ process_step.stopper [OF stopper_closes]]) (simp add: defs)
  then have "process_reachable d False p6" unfolding p6_def
    by (rule process_reachable.step [OF _ process_step.main [OF stop_in_time]]) (simp_all add: defs)
  then have "process_reachable d False (p6\<lparr>pr_main := MClose None, pr_trace := pr_trace p6 @ [MetricsShutdown]\<rparr>)"
    by (rule process_reachable.step [OF _ process_step.main [OF shutdown_returns]]) (simp add: defs)
  then show ?thesis by (rule can_exit_close) (simp_all add: defs)
qed

lemma can_exit_failed: "can_exit d (Some (Wrapf ''gRPC serve: %w'' None err)) [Serving, MetricsShutdown]"
proof -
  define p0 p1 p2 p3 where "p0 = process_start False" and "p1 = p0\<lparr>pr_serve := SSend (Some err)\<rparr>"
    and "p2 = p1\<lparr>pr_serve := SExit, pr_errCh := Some (Some err)\<rparr>"
    and "p3 = p2\<lparr>pr_errCh := None, pr_main := MServeFailed err\<rparr>"
  note defs = p0_def p1_def p2_def p3_def process_start_def
  have "process_reachable d False p0" unfolding p0_def by (rule process_reachable.start)
  then have "process_reachable d False p1" unfolding p1_def
    by (rule process_reachable.step [OF _ process_step.serve [OF serve_returns]]) (simp add: defs)
  then have "process_reachable d False p2" unfolding p2_def
    by (rule process_reachable.step [OF _ process_step.serve [OF serve_sends]]) (simp_all add: defs)
  then have "process_reachable d False p3" unfolding p3_def
    by (rule process_reachable.step [OF _ process_step.main [OF wait_failed]]) (simp_all add: defs)
  then have "process_reachable d False (p3\<lparr>pr_main := MClose (Some (Wrapf ''gRPC serve: %w'' None err)),
      pr_trace := pr_trace p3 @ [MetricsShutdown]\<rparr>)"
    by (rule process_reachable.step [OF _ process_step.main [OF shutdown_failed]]) (simp add: defs)
  then show ?thesis by (rule can_exit_close) (simp_all add: defs)
qed

lemma serveUntilDone_done_ok:
  "(\<exists>wake b. serveUntilDone (W\<lparr>wo_wake := wake, wo_in_time := b\<rparr>) = (res, tr)) \<longleftrightarrow> done_ok res tr"
proof
  assume "\<exists>wake b. serveUntilDone (W\<lparr>wo_wake := wake, wo_in_time := b\<rparr>) = (res, tr)"
  then obtain wake b where *: "serveUntilDone (W\<lparr>wo_wake := wake, wo_in_time := b\<rparr>) = (res, tr)" by blast
  show "done_ok res tr"
  proof (cases wake)
    case (ServeReturned x)
    with * show ?thesis by (cases x) (auto simp: serveUntilDone_def done_ok_def)
  qed (use * in \<open>auto simp: serveUntilDone_def done_ok_def\<close>)
next
  assume *: "done_ok res tr"
  show "\<exists>wake b. serveUntilDone (W\<lparr>wo_wake := wake, wo_in_time := b\<rparr>) = (res, tr)"
  proof (cases res)
    case None
    with * obtain b where "tr = Serving # gracefulStopWithTimeout b" by (auto simp: done_ok_def)
    with None show ?thesis by (intro exI [of _ SignalReceived] exI [of _ b]) (simp add: serveUntilDone_def)
  next
    case (Some e)
    with * obtain err where "e = Wrapf ''gRPC serve: %w'' None err" "tr = [Serving, MetricsShutdown]"
      by (auto simp: done_ok_def)
    with Some show ?thesis
      by (intro exI [of _ "ServeReturned (Some err)"] exI [of _ True]) (simp add: serveUntilDone_def)
  qed
qed

text \<open>
  C37: The sequential \<open>serveUntilDone\<close> is exactly the interleaved one. A result with a sequence of effects
  of the main goroutine, followed by the closing of the store, is possible for the goroutines running in
  any interleaving if and only if the sequential model produces it for some way of waking up and some
  outcome of the graceful stop.
\<close>

theorem process_iff_serveUntilDone:
  "(\<exists>b p. process_reachable d b p \<and> pr_main p = MExit res \<and> pr_trace p = tr @ [Closed d]) \<longleftrightarrow>
   (\<exists>wake in_time. serveUntilDone (W\<lparr>wo_wake := wake, wo_in_time := in_time\<rparr>) = (res, tr))"
  unfolding serveUntilDone_done_ok
proof
  assume "\<exists>b p. process_reachable d b p \<and> pr_main p = MExit res \<and> pr_trace p = tr @ [Closed d]"
  then obtain b p where "process_reachable d b p" "pr_main p = MExit res" "pr_trace p = tr @ [Closed d]" by blast
  with process_reachable_inv [of d b p] show "done_ok res tr" by (simp add: process_inv_def)
next
  assume "done_ok res tr"
  then have "can_exit d res tr"
    using can_exit_in_time can_exit_forced can_exit_failed
    by (cases res) (auto simp: done_ok_def gracefulStopWithTimeout_def)
  then show "\<exists>b p. process_reachable d b p \<and> pr_main p = MExit res \<and> pr_trace p = tr @ [Closed d]"
    unfolding can_exit_def by blast
qed

end
