(* ===== verification/KC_Conformance.thy ===== *)
theory KC_Conformance
  imports KC_Paging
begin

text \<open>
  Package \<open>keychainserver/store/conformance\<close>: the suite every driver must pass, as programs over a
  store, and the proof that every driver keeping the store contract passes it.

  A test runs against a rig: the store under test, the environment of its \<open>n\<close>-th call (which may
  depend on the state the call finds) and the \<open>n\<close>-th reading of the wall clock. A test is a function
  of the step counter and the state of the store. \<open>t.Fatal\<close> ends it, so its parts are written in
  continuation style: what follows a check is an argument of the check. The five tests that write
  through references shared with the store are in the theory of the heap, where those references
  exist.
\<close>

section \<open>Running a test\<close>

datatype outcome = Passed | Failed string

record ('e, 's) rig =
  g_store :: "('e, 's) Store"
  g_env :: "nat \<Rightarrow> 's \<Rightarrow> 'e"
  g_clock :: "nat \<Rightarrow> gotime"

type_synonym 's test = "nat \<Rightarrow> 's \<Rightarrow> outcome"

definition fatal :: "string \<Rightarrow> 's test" where
  "fatal msg n s = Failed msg"

definition pass :: "'s test" where
  "pass n s = Passed"

definition require :: "bool \<Rightarrow> string \<Rightarrow> 's test \<Rightarrow> 's test" where
  "require b msg k = (if b then k else fatal msg)"

text \<open>One call of the store, its result handed to what follows.\<close>

definition call :: "('e, 's) rig \<Rightarrow> ('e \<Rightarrow> 's \<Rightarrow> 'r \<times> 's) \<Rightarrow> ('r \<Rightarrow> 's test) \<Rightarrow> 's test" where
  "call T f k n s = (case f (g_env T n s) s of (r, s') \<Rightarrow> k r (Suc n) s')"

text \<open>\<open>time.Now().UTC()\<close>.\<close>

definition time_Now :: "('e, 's) rig \<Rightarrow> (gotime \<Rightarrow> 's test) \<Rightarrow> 's test" where
  "time_Now T k n s = k (g_clock T n) (Suc n) s"

text \<open>
  The three ways the tests treat the error of a call: any error is fatal; exactly the sentinel is
  wanted; the error is dropped and the zero value used (\<open>k, _ := ...\<close>).
\<close>

definition must :: "('e, 's) rig \<Rightarrow> string \<Rightarrow> ('e \<Rightarrow> 's \<Rightarrow> (goerr + 'r) \<times> 's) \<Rightarrow> ('r \<Rightarrow> 's test) \<Rightarrow> 's test" where
  "must T msg f k = call T f (\<lambda>r. case r of Inl err \<Rightarrow> fatal msg | Inr x \<Rightarrow> k x)"

definition wantErr :: "('e, 's) rig \<Rightarrow> sentinel \<Rightarrow> string \<Rightarrow> ('e \<Rightarrow> 's \<Rightarrow> (goerr + 'r) \<times> 's) \<Rightarrow> 's test \<Rightarrow> 's test" where
  "wantErr T target msg f k =
     call T f (\<lambda>r. case r of Inl err \<Rightarrow> require (errors_Is err target) msg k | Inr x \<Rightarrow> fatal msg)"

definition ignoring :: "('e, 's) rig \<Rightarrow> 'r \<Rightarrow> ('e \<Rightarrow> 's \<Rightarrow> (goerr + 'r) \<times> 's) \<Rightarrow> ('r \<Rightarrow> 's test) \<Rightarrow> 's test" where
  "ignoring T zero f k = call T f (\<lambda>r. case r of Inl err \<Rightarrow> k zero | Inr x \<Rightarrow> k x)"

lemmas test_defs = pass_def require_def fatal_def must_def wantErr_def ignoring_def call_def time_Now_def

section \<open>Helpers\<close>

definition time_Hour :: gotime where
  "time_Hour = 3600000000000"

text \<open>\<open>t.Truncate(time.Second)\<close>.\<close>

definition Truncate_Second :: "gotime \<Rightarrow> gotime" where
  "Truncate_Second t = t - t mod 1000000000"

definition IsZero :: "gotime \<Rightarrow> bool" where
  "IsZero t \<longleftrightarrow> t = zero_time"

text \<open>\<open>maps.Equal\<close>: a nil map equals an empty one.\<close>

definition maps_Equal :: "gomap \<Rightarrow> gomap \<Rightarrow> bool" where
  "maps_Equal a b \<longleftrightarrow> case_option Map.empty (\<lambda>m. m) a = case_option Map.empty (\<lambda>m. m) b"

definition newWorkspace :: "string \<Rightarrow> Workspace" where
  "newWorkspace name = \<lparr>w_WorkspaceID = [], w_Name = name, w_OwnerPrincipalID = ''user_owner'',
     w_CreatedAt = zero_time, w_UpdatedAt = zero_time, w_Metadata = None\<rparr>"

definition newAPI :: "string \<Rightarrow> string \<Rightarrow> API" where
  "newAPI workspaceID name = \<lparr>a_APIID = [], a_WorkspaceID = workspaceID, a_Name = name,
     a_KeyPrefix = ''ck_test_'', a_CreatedAt = zero_time, a_UpdatedAt = zero_time, a_Metadata = None\<rparr>"

definition newKey :: "string \<Rightarrow> string \<Rightarrow> string \<Rightarrow> bytes \<Rightarrow> Key" where
  "newKey apiID workspaceID owner hash = \<lparr>k_KeyID = [], k_APIID = apiID, k_WorkspaceID = workspaceID,
     k_OwnerPrincipalID = owner, k_Name = ''test-key'', k_KeyHash = hash, k_Permissions = [''chat:write''],
     k_LimitRefs = [], k_ExpiresAt = None, k_RemainingUses = -1, k_Enabled = True,
     k_CreatedAt = zero_time, k_UpdatedAt = zero_time, k_LastVerifiedAt = None, k_Metadata = None\<rparr>"

lemma newKey_sel [simp]:
  "k_APIID (newKey a w u h) = a" "k_WorkspaceID (newKey a w u h) = w" "k_OwnerPrincipalID (newKey a w u h) = u"
  "k_KeyHash (newKey a w u h) = h" "k_RemainingUses (newKey a w u h) = -1" "k_Enabled (newKey a w u h)"
  by (simp_all add: newKey_def)

definition seedWorkspace :: "('e, 's) rig \<Rightarrow> (Workspace \<Rightarrow> 's test) \<Rightarrow> 's test" where
  "seedWorkspace T k =
     must T ''seed workspace'' (\<lambda>e s. CreateWorkspace (g_store T) e s (newWorkspace ''acme'')) k"

definition seedAPI :: "('e, 's) rig \<Rightarrow> string \<Rightarrow> (API \<Rightarrow> 's test) \<Rightarrow> 's test" where
  "seedAPI T workspaceID k =
     must T ''seed api'' (\<lambda>e s. CreateAPI (g_store T) e s (newAPI workspaceID ''prod'')) k"

text \<open>The zero value \<open>store.API{}\<close>.\<close>

definition zero_API :: API where
  "zero_API = \<lparr>a_APIID = [], a_WorkspaceID = [], a_Name = [], a_KeyPrefix = [], a_CreatedAt = zero_time,
     a_UpdatedAt = zero_time, a_Metadata = None\<rparr>"

text \<open>The two lines most tests start with.\<close>

abbreviation seeded :: "('e, 's) rig \<Rightarrow> (Workspace \<Rightarrow> API \<Rightarrow> 's test) \<Rightarrow> 's test" where
  "seeded T k \<equiv> seedWorkspace T (\<lambda>w. seedAPI T (w_WorkspaceID w) (k w))"

text \<open>\<open>bytes.Repeat([]byte{b}, 32)\<close>.\<close>

abbreviation Repeat32 :: "byte \<Rightarrow> bytes" where
  "Repeat32 b \<equiv> replicate 32 b"

abbreviation (input) create_key :: "('e, 's) rig \<Rightarrow> Key \<Rightarrow> 'e \<Rightarrow> 's \<Rightarrow> (goerr + Key) \<times> 's" where
  "create_key T k \<equiv> \<lambda>e s. CreateKey (g_store T) e s k"

abbreviation (input) get_key :: "('e, 's) rig \<Rightarrow> string \<Rightarrow> 'e \<Rightarrow> 's \<Rightarrow> (goerr + Key) \<times> 's" where
  "get_key T i \<equiv> \<lambda>e s. GetKeyByID (g_store T) e s i"

abbreviation (input) list_opts :: "string \<Rightarrow> int32 \<Rightarrow> string \<Rightarrow> ListKeysOpts" where
  "list_opts a n tok \<equiv> \<lparr>o_APIID = a, o_OwnerPrincipalID = [], o_PageSize = n, o_PageToken = tok\<rparr>"

abbreviation (input) list_keys_of ::
  "('e, 's) rig \<Rightarrow> ListKeysOpts \<Rightarrow> 'e \<Rightarrow> 's \<Rightarrow> (goerr + ListKeysResult) \<times> 's" where
  "list_keys_of T opts \<equiv> \<lambda>e s. ListKeys (g_store T) e s opts"

text \<open>The fields a snapshot compares.\<close>

record keySnapshot =
  ks_hash :: bytes
  ks_permissions :: "string list"
  ks_limitRefs :: "LimitRef list"
  ks_expiresAt :: "gotime option"
  ks_lastVerifiedAt :: "gotime option"
  ks_metadata :: gomap

definition sameOptionalTime :: "gotime option \<Rightarrow> gotime option \<Rightarrow> bool" where
  "sameOptionalTime got want \<longleftrightarrow>
     (if got = None \<or> want = None then got = None \<and> want = None else the got = the want)"

definition assertKeyFields :: "Key \<Rightarrow> keySnapshot \<Rightarrow> 's test \<Rightarrow> 's test" where
  "assertKeyFields got want k =
     require (k_KeyHash got = ks_hash want) ''KeyHash'' (
     require (k_Permissions got = ks_permissions want) ''Permissions'' (
     require (k_LimitRefs got = ks_limitRefs want) ''LimitRefs'' (
     require (sameOptionalTime (k_ExpiresAt got) (ks_expiresAt want)) ''ExpiresAt'' (
     require (sameOptionalTime (k_LastVerifiedAt got) (ks_lastVerifiedAt want)) ''LastVerifiedAt'' (
     require (maps_Equal (k_Metadata got) (ks_metadata want)) ''Metadata'' k)))))"

section \<open>Workspace and API tests\<close>

definition testWorkspaceCreateAndGet :: "('e, 's) rig \<Rightarrow> 's test" where
  "testWorkspaceCreateAndGet T =
     must T ''create'' (\<lambda>e s. CreateWorkspace (g_store T) e s (newWorkspace ''acme'')) (\<lambda>created.
     require (w_WorkspaceID created \<noteq> []) ''WorkspaceID should be assigned by the store'' (
     require (\<not> (IsZero (w_CreatedAt created) \<or> IsZero (w_UpdatedAt created)))
       ''timestamps should be assigned by the store'' (
     must T ''get'' (\<lambda>e s. GetWorkspace (g_store T) e s (w_WorkspaceID created)) (\<lambda>got.
     require (w_WorkspaceID got = w_WorkspaceID created) ''WorkspaceID mismatch'' (
     require (w_Name got = ''acme'') ''Name'' (
     require (w_OwnerPrincipalID got = ''user_owner'') ''OwnerPrincipalID'' pass))))))"

definition testWorkspaceGetNotFound :: "('e, 's) rig \<Rightarrow> 's test" where
  "testWorkspaceGetNotFound T =
     wantErr T ErrNotFound ''want ErrNotFound'' (\<lambda>e s. GetWorkspace (g_store T) e s ''ws_missing'') pass"

definition testAPICreateRequiresWorkspace :: "('e, 's) rig \<Rightarrow> 's test" where
  "testAPICreateRequiresWorkspace T =
     wantErr T ErrNotFound ''want ErrNotFound''
       (\<lambda>e s. CreateAPI (g_store T) e s (newAPI ''ws_missing'' ''prod'')) pass"

definition testAPICreateAndGet :: "('e, 's) rig \<Rightarrow> 's test" where
  "testAPICreateAndGet T =
     seedWorkspace T (\<lambda>w.
     must T ''create'' (\<lambda>e s. CreateAPI (g_store T) e s (newAPI (w_WorkspaceID w) ''prod'')) (\<lambda>created.
     require (a_APIID created \<noteq> []) ''APIID should be assigned by the store'' (
     require (\<not> IsZero (a_CreatedAt created)) ''CreatedAt should be assigned by the store'' (
     must T ''get'' (\<lambda>e s. GetAPI (g_store T) e s (a_APIID created)) (\<lambda>got.
     require (a_WorkspaceID got = w_WorkspaceID w) ''WorkspaceID'' (
     require (a_KeyPrefix got = ''ck_test_'') ''KeyPrefix'' pass))))))"

definition testAPIGetNotFound :: "('e, 's) rig \<Rightarrow> 's test" where
  "testAPIGetNotFound T =
     wantErr T ErrNotFound ''want ErrNotFound'' (\<lambda>e s. GetAPI (g_store T) e s ''api_missing'') pass"

section \<open>Key tests: creation and lookup\<close>

definition testKeyCreateRequiresAPI :: "('e, 's) rig \<Rightarrow> 's test" where
  "testKeyCreateRequiresAPI T =
     wantErr T ErrNotFound ''want ErrNotFound''
       (create_key T (newKey ''api_missing'' ''ws_x'' ''user_1'' (string_bytes ''hash-abc''))) pass"

definition testKeyCreateAndLookup :: "('e, 's) rig \<Rightarrow> 's test" where
  "testKeyCreateAndLookup T =
     seeded T (\<lambda>w a. let hash = Repeat32 0xab in
     must T ''create'' (create_key T (newKey (a_APIID a) (w_WorkspaceID w) ''user_1'' hash)) (\<lambda>created.
     require (k_KeyID created \<noteq> []) ''KeyID should be assigned by the store'' (
     require (k_KeyHash created = hash) ''KeyHash should round-trip exactly'' (
     must T ''GetKeyByID'' (get_key T (k_KeyID created)) (\<lambda>byID.
     require (k_KeyID byID = k_KeyID created) ''GetKeyByID mismatch'' (
     must T ''GetKeyByHash'' (\<lambda>e s. GetKeyByHash (g_store T) e s hash) (\<lambda>byHash.
     require (k_KeyID byHash = k_KeyID created) ''GetKeyByHash mismatch'' pass)))))))"

definition testKeyCreatePreservesAllFields :: "('e, 's) rig \<Rightarrow> 's test" where
  "testKeyCreatePreservesAllFields T =
     seeded T (\<lambda>w a. time_Now T (\<lambda>now1. time_Now T (\<lambda>now2.
     let expires = Truncate_Second (now1 + time_Hour);
         lastVerified = Truncate_Second (now2 - time_Hour);
         hash = Repeat32 0xcd;
         k = newKey (a_APIID a) (w_WorkspaceID w) ''user_1'' hash;
         k = k\<lparr>k_Name := ''full-key''\<rparr>;
         k = k\<lparr>k_Permissions := [''chat:read'', ''chat:write'']\<rparr>;
         k = k\<lparr>k_LimitRefs := [\<lparr>lr_LimitID = ''tokens'', lr_ScopeKey = ''user:user_1''\<rparr>]\<rparr>;
         k = k\<lparr>k_ExpiresAt := Some expires\<rparr>;
         k = k\<lparr>k_LastVerifiedAt := Some lastVerified\<rparr>;
         k = k\<lparr>k_Metadata := Some [''env'' \<mapsto> ''test'']\<rparr>
     in
     must T ''create'' (create_key T k) (\<lambda>created.
     must T ''get'' (get_key T (k_KeyID created)) (\<lambda>got.
     assertKeyFields got
       \<lparr>ks_hash = hash, ks_permissions = [''chat:read'', ''chat:write''],
        ks_limitRefs = [\<lparr>lr_LimitID = ''tokens'', lr_ScopeKey = ''user:user_1''\<rparr>],
        ks_expiresAt = Some expires, ks_lastVerifiedAt = Some lastVerified,
        ks_metadata = Some [''env'' \<mapsto> ''test'']\<rparr> pass)))))"

definition testKeyListPreservesAllFields :: "('e, 's) rig \<Rightarrow> 's test" where
  "testKeyListPreservesAllFields T =
     seeded T (\<lambda>w a. time_Now T (\<lambda>now1. time_Now T (\<lambda>now2.
     let expires = Truncate_Second (now1 + time_Hour);
         lastVerified = Truncate_Second (now2 - time_Hour);
         hash = Repeat32 0xe0;
         k = newKey (a_APIID a) (w_WorkspaceID w) ''user_1'' hash;
         k = k\<lparr>k_Permissions := [''chat:read'', ''chat:write'']\<rparr>;
         k = k\<lparr>k_LimitRefs := [\<lparr>lr_LimitID = ''tokens'', lr_ScopeKey = ''user:user_1''\<rparr>]\<rparr>;
         k = k\<lparr>k_ExpiresAt := Some expires\<rparr>;
         k = k\<lparr>k_LastVerifiedAt := Some lastVerified\<rparr>;
         k = k\<lparr>k_Metadata := Some [''env'' \<mapsto> ''test'']\<rparr>
     in
     must T ''create'' (create_key T k) (\<lambda>_.
     must T ''list'' (list_keys_of T (list_opts (a_APIID a) 10 [])) (\<lambda>res.
     require (length (r_Keys res) = 1) ''list returned keys, want 1'' (
     assertKeyFields (r_Keys res ! 0)
       \<lparr>ks_hash = hash, ks_permissions = [''chat:read'', ''chat:write''],
        ks_limitRefs = [\<lparr>lr_LimitID = ''tokens'', lr_ScopeKey = ''user:user_1''\<rparr>],
        ks_expiresAt = Some expires, ks_lastVerifiedAt = Some lastVerified,
        ks_metadata = Some [''env'' \<mapsto> ''test'']\<rparr> pass))))))"

definition testKeyGetByHashUnknown :: "('e, 's) rig \<Rightarrow> 's test" where
  "testKeyGetByHashUnknown T =
     wantErr T ErrNotFound ''want ErrNotFound'' (\<lambda>e s. GetKeyByHash (g_store T) e s (Repeat32 0x00)) pass"

definition testKeyGetByIDUnknown :: "('e, 's) rig \<Rightarrow> 's test" where
  "testKeyGetByIDUnknown T = wantErr T ErrNotFound ''want ErrNotFound'' (get_key T ''key_missing'') pass"

definition testKeyCreateRejectsDuplicateHash :: "('e, 's) rig \<Rightarrow> 's test" where
  "testKeyCreateRejectsDuplicateHash T =
     seeded T (\<lambda>w a. let hash = Repeat32 0x11 in
     must T ''first create'' (create_key T (newKey (a_APIID a) (w_WorkspaceID w) ''user_1'' hash)) (\<lambda>_.
     wantErr T ErrConflict ''want ErrConflict''
       (create_key T (newKey (a_APIID a) (w_WorkspaceID w) ''user_2'' hash)) pass))"

section \<open>Key tests: revocation and rotation\<close>

definition testKeyRevoke :: "('e, 's) rig \<Rightarrow> 's test" where
  "testKeyRevoke T =
     seeded T (\<lambda>w a.
     must T ''create'' (create_key T (newKey (a_APIID a) (w_WorkspaceID w) ''user_1'' (Repeat32 0x22))) (\<lambda>k.
     must T ''revoke'' (\<lambda>e s. RevokeKey (g_store T) e s (k_KeyID k)) (\<lambda>_.
     must T ''get after revoke'' (get_key T (k_KeyID k)) (\<lambda>got.
     require (\<not> k_Enabled got) ''Enabled should be false after revoke'' pass))))"

definition testKeyRevokeIsIdempotent :: "('e, 's) rig \<Rightarrow> 's test" where
  "testKeyRevokeIsIdempotent T =
     seeded T (\<lambda>w a.
     ignoring T zero_Key (create_key T (newKey (a_APIID a) (w_WorkspaceID w) ''user_1'' (Repeat32 0x33))) (\<lambda>k.
     must T ''first revoke'' (\<lambda>e s. RevokeKey (g_store T) e s (k_KeyID k)) (\<lambda>_.
     must T ''second revoke must be idempotent'' (\<lambda>e s. RevokeKey (g_store T) e s (k_KeyID k)) (\<lambda>_. pass))))"

definition testKeyRevokeUnknownReturnsNotFound :: "('e, 's) rig \<Rightarrow> 's test" where
  "testKeyRevokeUnknownReturnsNotFound T =
     wantErr T ErrNotFound ''want ErrNotFound'' (\<lambda>e s. RevokeKey (g_store T) e s ''key_missing'') pass"

definition testKeyRotate :: "('e, 's) rig \<Rightarrow> 's test" where
  "testKeyRotate T =
     seeded T (\<lambda>w a. let oldHash = Repeat32 0x44; newHash = Repeat32 0x55 in
     ignoring T zero_Key (create_key T (newKey (a_APIID a) (w_WorkspaceID w) ''user_1'' oldHash)) (\<lambda>k.
     must T ''rotate'' (\<lambda>e s. RotateKey (g_store T) e s (k_KeyID k) newHash) (\<lambda>rotated.
     require (k_KeyID rotated = k_KeyID k) ''KeyID changed across rotation'' (
     require (k_KeyHash rotated = newHash) ''KeyHash should be the new hash after rotation'' (
     wantErr T ErrNotFound ''old hash should no longer resolve'' (\<lambda>e s. GetKeyByHash (g_store T) e s oldHash) (
     must T ''new hash should resolve'' (\<lambda>e s. GetKeyByHash (g_store T) e s newHash) (\<lambda>_. pass)))))))"

definition testKeyRotateUnknownReturnsNotFound :: "('e, 's) rig \<Rightarrow> 's test" where
  "testKeyRotateUnknownReturnsNotFound T =
     wantErr T ErrNotFound ''want ErrNotFound''
       (\<lambda>e s. RotateKey (g_store T) e s ''key_missing'' (Repeat32 0x56)) pass"

definition testKeyRotateRejectsDuplicateHash :: "('e, 's) rig \<Rightarrow> 's test" where
  "testKeyRotateRejectsDuplicateHash T =
     seeded T (\<lambda>w a. let hash1 = Repeat32 0x57; hash2 = Repeat32 0x58 in
     must T ''create first'' (create_key T (newKey (a_APIID a) (w_WorkspaceID w) ''user_1'' hash1)) (\<lambda>k.
     must T ''create second'' (create_key T (newKey (a_APIID a) (w_WorkspaceID w) ''user_2'' hash2)) (\<lambda>_.
     wantErr T ErrConflict ''want ErrConflict'' (\<lambda>e s. RotateKey (g_store T) e s (k_KeyID k) hash2) (
     must T ''get after rejected rotate'' (get_key T (k_KeyID k)) (\<lambda>got.
     require (k_KeyHash got = hash1) ''rejected rotate changed the original key hash'' pass)))))"

section \<open>Key tests: listing\<close>

definition testKeyListByAPI :: "('e, 's) rig \<Rightarrow> 's test" where
  "testKeyListByAPI T =
     seeded T (\<lambda>w a1.
     ignoring T zero_API (\<lambda>e s. CreateAPI (g_store T) e s (newAPI (w_WorkspaceID w) ''staging'')) (\<lambda>a2.
     ignoring T zero_Key (create_key T (newKey (a_APIID a1) (w_WorkspaceID w) ''user_1'' (Repeat32 0x60))) (\<lambda>_.
     ignoring T zero_Key (create_key T (newKey (a_APIID a1) (w_WorkspaceID w) ''user_2'' (Repeat32 0x61))) (\<lambda>_.
     ignoring T zero_Key (create_key T (newKey (a_APIID a2) (w_WorkspaceID w) ''user_1'' (Repeat32 0x62))) (\<lambda>_.
     must T ''list'' (list_keys_of T (list_opts (a_APIID a1) 100 [])) (\<lambda>res.
     require (length (r_Keys res) = 2) ''got keys for api1, want 2'' (
     require (\<forall>k \<in> set (r_Keys res). k_APIID k = a_APIID a1) ''list returned a key from api'' pass)))))))"

definition testKeyListFilterByOwner :: "('e, 's) rig \<Rightarrow> 's test" where
  "testKeyListFilterByOwner T =
     seeded T (\<lambda>w a.
     ignoring T zero_Key (create_key T (newKey (a_APIID a) (w_WorkspaceID w) ''user_1'' (Repeat32 0x70))) (\<lambda>_.
     ignoring T zero_Key (create_key T (newKey (a_APIID a) (w_WorkspaceID w) ''user_2'' (Repeat32 0x71))) (\<lambda>_.
     ignoring T zero_Key (create_key T (newKey (a_APIID a) (w_WorkspaceID w) ''user_1'' (Repeat32 0x72))) (\<lambda>_.
     must T ''list'' (list_keys_of T \<lparr>o_APIID = a_APIID a, o_OwnerPrincipalID = ''user_1'', o_PageSize = 100,
                                       o_PageToken = []\<rparr>) (\<lambda>res.
     require (length (r_Keys res) = 2) ''got keys for user_1, want 2'' (
     require (\<forall>k \<in> set (r_Keys res). k_OwnerPrincipalID k = ''user_1'') ''filter leaked'' pass))))))"

text \<open>
  The loop that seeds one key per byte in turn; what follows gets the identifiers in the order of
  creation.
\<close>

primrec seedKeys ::
  "('e, 's) rig \<Rightarrow> string \<Rightarrow> string \<Rightarrow> byte list \<Rightarrow> (string list \<Rightarrow> 's test) \<Rightarrow> 's test" where
  "seedKeys T apiID workspaceID [] k = k []"
| "seedKeys T apiID workspaceID (b # bs) k =
     must T ''seed key'' (create_key T (newKey apiID workspaceID ''user_1'' (Repeat32 b))) (\<lambda>created.
     seedKeys T apiID workspaceID bs (\<lambda>ids. k (k_KeyID created # ids)))"

text \<open>\<open>byte(base + i)\<close> for \<open>i\<close> from 0 below \<open>n\<close>.\<close>

definition byte_range :: "nat \<Rightarrow> nat \<Rightarrow> byte list" where
  "byte_range base n = map (\<lambda>i. of_nat (base + i)) [0..<n]"

text \<open>The keys of a page enter the set of seen identifiers, unless one is there already.\<close>

primrec mark_seen :: "Key list \<Rightarrow> string set \<Rightarrow> string set option" where
  "mark_seen [] seen = Some seen"
| "mark_seen (k # ks) seen =
     (if k_KeyID k \<in> seen then None else mark_seen ks (insert (k_KeyID k) seen))"

primrec list_pages ::
  "nat \<Rightarrow> ('e, 's) rig \<Rightarrow> string \<Rightarrow> string set \<Rightarrow> string \<Rightarrow> (string set \<Rightarrow> 's test) \<Rightarrow> 's test" where
  "list_pages 0 T apiID seen token k = k seen"
| "list_pages (Suc left) T apiID seen token k =
     must T ''page'' (list_keys_of T (list_opts apiID 2 token)) (\<lambda>res.
       case mark_seen (r_Keys res) seen of
         None \<Rightarrow> fatal ''duplicate key across pages''
       | Some seen' \<Rightarrow>
           if r_NextPageToken res = [] then k seen'
           else list_pages left T apiID seen' (r_NextPageToken res) k)"

definition testKeyListPaginates :: "('e, 's) rig \<Rightarrow> 's test" where
  "testKeyListPaginates T =
     seeded T (\<lambda>w a.
     seedKeys T (a_APIID a) (w_WorkspaceID w) (byte_range 0x80 5) (\<lambda>_.
     list_pages 10 T (a_APIID a) {} [] (\<lambda>seen.
     require (card seen = 5) ''paginated through keys, want 5'' pass)))"

definition testKeyListDefaultsPageSize :: "('e, 's) rig \<Rightarrow> 's test" where
  "testKeyListDefaultsPageSize T =
     seeded T (\<lambda>w a.
     seedKeys T (a_APIID a) (w_WorkspaceID w) (byte_range 0 55) (\<lambda>_.
     must T ''first page'' (list_keys_of T (list_opts (a_APIID a) 0 [])) (\<lambda>first.
     require (length (r_Keys first) = 50) ''first page, want default page size 50'' (
     require (r_NextPageToken first \<noteq> []) ''first page should include a next token'' (
     must T ''second page'' (list_keys_of T (list_opts (a_APIID a) 0 (r_NextPageToken first))) (\<lambda>second.
     require (length (r_Keys second) = 5) ''second page, want remaining 5'' (
     require (r_NextPageToken second = []) ''second page next token, want empty'' pass)))))))"

definition testKeyListUnknownAPIIsEmpty :: "('e, 's) rig \<Rightarrow> 's test" where
  "testKeyListUnknownAPIIsEmpty T =
     must T ''list'' (list_keys_of T (list_opts ''api_missing'' 10 [])) (\<lambda>res.
     require (\<not> (length (r_Keys res) \<noteq> 0 \<or> r_NextPageToken res \<noteq> [])) ''want empty result'' pass)"

definition testKeyListPageTokenCanSkipToInsertionPoint :: "('e, 's) rig \<Rightarrow> 's test" where
  "testKeyListPageTokenCanSkipToInsertionPoint T =
     seeded T (\<lambda>w a.
     seedKeys T (a_APIID a) (w_WorkspaceID w) (byte_range 0xc0 3) (\<lambda>ids.
     let ids = sort ids; token = ids ! 0 @ ''~'' in
     must T ''list'' (list_keys_of T (list_opts (a_APIID a) 10 token)) (\<lambda>res.
     require (length (r_Keys res) = 2) ''got keys after synthetic token, want 2'' (
     require (\<not> (k_KeyID (r_Keys res ! 0) \<noteq> ids ! 1 \<or> k_KeyID (r_Keys res ! 1) \<noteq> ids ! 2))
       ''keys after token'' pass))))"

section \<open>Key tests: last verification and credit\<close>

definition testKeyTouchLastVerified :: "('e, 's) rig \<Rightarrow> 's test" where
  "testKeyTouchLastVerified T =
     seeded T (\<lambda>w a.
     ignoring T zero_Key (create_key T (newKey (a_APIID a) (w_WorkspaceID w) ''user_1'' (Repeat32 0x90))) (\<lambda>k.
     time_Now T (\<lambda>now. let at = Truncate_Second now in
     must T ''touch'' (\<lambda>e s. TouchLastVerified (g_store T) e s (k_KeyID k) at) (\<lambda>_.
     ignoring T zero_Key (get_key T (k_KeyID k)) (\<lambda>got.
     require (k_LastVerifiedAt got \<noteq> None) ''LastVerifiedAt should be populated after touch'' (
     require (the (k_LastVerifiedAt got) = at) ''LastVerifiedAt'' pass))))))"

definition testKeyTouchLastVerifiedUnknownReturnsNotFound :: "('e, 's) rig \<Rightarrow> 's test" where
  "testKeyTouchLastVerifiedUnknownReturnsNotFound T =
     time_Now T (\<lambda>now.
     wantErr T ErrNotFound ''want ErrNotFound''
       (\<lambda>e s. TouchLastVerified (g_store T) e s ''key_missing'' now) pass)"

text \<open>A decrement whose error is fatal, and one whose error is dropped.\<close>

abbreviation (input) decrement_of :: "('e, 's) rig \<Rightarrow> string \<Rightarrow> 'e \<Rightarrow> 's \<Rightarrow> (int64 \<times> goerr option) \<times> 's" where
  "decrement_of T i \<equiv> \<lambda>e s. DecrementRemainingUses (g_store T) e s i"

definition testKeyDecrementRemainingUses :: "('e, 's) rig \<Rightarrow> 's test" where
  "testKeyDecrementRemainingUses T =
     seeded T (\<lambda>w a.
     let k = newKey (a_APIID a) (w_WorkspaceID w) ''user_1'' (Repeat32 0xA0); k = k\<lparr>k_RemainingUses := 3\<rparr> in
     must T ''create'' (create_key T k) (\<lambda>created.
     call T (decrement_of T (k_KeyID created)) (\<lambda>(got, err).
     require (err = None) ''decrement'' (
     require (got = 2) ''remaining, want 2'' (
     call T (decrement_of T (k_KeyID created)) (\<lambda>(got, _).
     require (got = 1) ''remaining, want 1'' (
     call T (decrement_of T (k_KeyID created)) (\<lambda>(got, _).
     require (got = 0) ''remaining, want 0'' pass))))))))"

definition testKeyDecrementUnlimitedIsNoop :: "('e, 's) rig \<Rightarrow> 's test" where
  "testKeyDecrementUnlimitedIsNoop T =
     seeded T (\<lambda>w a.
     let k = newKey (a_APIID a) (w_WorkspaceID w) ''user_1'' (Repeat32 0xB0); k = k\<lparr>k_RemainingUses := -1\<rparr> in
     ignoring T zero_Key (create_key T k) (\<lambda>created.
     call T (decrement_of T (k_KeyID created)) (\<lambda>(got, err).
     require (err = None) ''decrement'' (
     require (got = -1) ''unlimited key returned remaining, want -1'' pass))))"

definition testKeyDecrementDepletedReturnsErrDepleted :: "('e, 's) rig \<Rightarrow> 's test" where
  "testKeyDecrementDepletedReturnsErrDepleted T =
     seeded T (\<lambda>w a.
     let k = newKey (a_APIID a) (w_WorkspaceID w) ''user_1'' (Repeat32 0xB1); k = k\<lparr>k_RemainingUses := 0\<rparr> in
     must T ''create'' (create_key T k) (\<lambda>created.
     call T (decrement_of T (k_KeyID created)) (\<lambda>(got, err).
     require (case err of None \<Rightarrow> False | Some err \<Rightarrow> errors_Is err ErrDepleted) ''want ErrDepleted'' (
     require (got = 0) ''remaining, want 0'' (
     must T ''get after depleted decrement'' (get_key T (k_KeyID created)) (\<lambda>after.
     require (k_RemainingUses after = 0) ''RemainingUses, want 0'' pass))))))"

definition testKeyDecrementUnknownReturnsNotFound :: "('e, 's) rig \<Rightarrow> 's test" where
  "testKeyDecrementUnknownReturnsNotFound T =
     call T (decrement_of T ''key_missing'') (\<lambda>(_, err).
     require (case err of None \<Rightarrow> False | Some err \<Rightarrow> errors_Is err ErrNotFound) ''want ErrNotFound'' pass)"

section \<open>The suite\<close>

text \<open>
  \<open>Run\<close> gives every subtest a store of its own: the \<open>i\<close>-th subtest runs on the rig \<open>T i\<close>, from
  the state \<open>newStore i\<close>.
\<close>

definition suite :: "(string \<times> (('e, 's) rig \<Rightarrow> 's test)) list" where
  "suite = [
     (''WorkspaceCreateAndGet'', testWorkspaceCreateAndGet),
     (''WorkspaceGetNotFound'', testWorkspaceGetNotFound),
     (''ApiCreateRequiresWorkspace'', testAPICreateRequiresWorkspace),
     (''ApiCreateAndGet'', testAPICreateAndGet),
     (''ApiGetNotFound'', testAPIGetNotFound),
     (''KeyCreateRequiresApi'', testKeyCreateRequiresAPI),
     (''KeyCreateAndLookup'', testKeyCreateAndLookup),
     (''KeyCreatePreservesAllFields'', testKeyCreatePreservesAllFields),
     (''KeyListPreservesAllFields'', testKeyListPreservesAllFields),
     (''KeyGetByHashUnknown'', testKeyGetByHashUnknown),
     (''KeyGetByIDUnknown'', testKeyGetByIDUnknown),
     (''KeyCreateRejectsDuplicateHash'', testKeyCreateRejectsDuplicateHash),
     (''KeyRevoke'', testKeyRevoke),
     (''KeyRevokeIsIdempotent'', testKeyRevokeIsIdempotent),
     (''KeyRevokeUnknownReturnsNotFound'', testKeyRevokeUnknownReturnsNotFound),
     (''KeyRotate'', testKeyRotate),
     (''KeyRotateUnknownReturnsNotFound'', testKeyRotateUnknownReturnsNotFound),
     (''KeyRotateRejectsDuplicateHash'', testKeyRotateRejectsDuplicateHash),
     (''KeyListByApi'', testKeyListByAPI),
     (''KeyListFilterByOwner'', testKeyListFilterByOwner),
     (''KeyListPaginates'', testKeyListPaginates),
     (''KeyListDefaultsPageSize'', testKeyListDefaultsPageSize),
     (''KeyListUnknownApiIsEmpty'', testKeyListUnknownAPIIsEmpty),
     (''KeyListPageTokenCanSkipToInsertionPoint'', testKeyListPageTokenCanSkipToInsertionPoint),
     (''KeyTouchLastVerified'', testKeyTouchLastVerified),
     (''KeyTouchLastVerifiedUnknownReturnsNotFound'', testKeyTouchLastVerifiedUnknownReturnsNotFound),
     (''KeyDecrementRemainingUses'', testKeyDecrementRemainingUses),
     (''KeyDecrementUnlimitedIsNoop'', testKeyDecrementUnlimitedIsNoop),
     (''KeyDecrementDepletedReturnsErrDepleted'', testKeyDecrementDepletedReturnsErrDepleted),
     (''KeyDecrementUnknownReturnsNotFound'', testKeyDecrementUnknownReturnsNotFound)]"

definition conformance_Run :: "(nat \<Rightarrow> ('e, 's) rig) \<Rightarrow> (nat \<Rightarrow> 's) \<Rightarrow> (string \<times> outcome) list" where
  "conformance_Run T newStore =
     map (\<lambda>(i, name, test). (name, test (T i) 0 (newStore i))) (enumerate 0 suite)"

section \<open>Bytes and pages\<close>

lemma length_byte_range [simp]: "length (byte_range base n) = n"
  by (simp add: byte_range_def)

lemma distinct_byte_range:
  assumes "base + n \<le> 256"
  shows "distinct (byte_range base n)"
proof -
  have "inj_on (\<lambda>i. of_nat (base + i) :: byte) {0..<n}"
  proof (rule inj_onI)
    fix i j assume ij: "i \<in> {0..<n}" "j \<in> {0..<n}" and eq: "(of_nat (base + i) :: byte) = of_nat (base + j)"
    have "unat (of_nat (base + l) :: byte) = base + l" if "l < n" for l
      using that assms by (simp add: unat_of_nat del: of_nat_add)
    with ij have "unat (of_nat (base + i) :: byte) = base + i" "unat (of_nat (base + j) :: byte) = base + j"
      by (simp_all only: atLeastLessThan_iff)
    with eq show "i = j" by (metis add_left_cancel)
  qed
  then show ?thesis by (simp add: byte_range_def distinct_map)
qed

text \<open>A page of new identifiers is marked as a whole.\<close>

lemma mark_seen_new:
  assumes "distinct ids" "set ids \<inter> seen = {}" "\<And>i. i \<in> set ids \<Longrightarrow> k_KeyID (f i) = i"
  shows "mark_seen (map f ids) seen = Some (seen \<union> set ids)"
  using assms by (induction ids arbitrary: seen) auto

section \<open>A driver under test\<close>

text \<open>
  What a run of the suite relies on beyond the contract: within one test (fewer than 64 steps) no
  identifier is drawn twice, an unused identifier is accepted as fresh, every call is answered, the
  clock does not read the zero time, and the sample values of the tests (times of whole seconds,
  one limit reference, one metadata entry) survive the driver's normal form. The synthetic page
  token of one test appends a tilde to an identifier; the collation must place it between that
  identifier and the next.
\<close>

locale tested_driver = store_contract +
  fixes T :: "('a, 'b) rig"
  assumes under_test: "g_store T = ops"
    and answered: "inv s \<Longrightarrow> env_up (g_env T n s)"
    and ranged: "inv s \<Longrightarrow> env_range (g_env T n s) s"
    and unused_fresh:
      "inv s \<Longrightarrow> id_of ''ws'' e \<notin> dom (v_workspaces (view_of s)) \<Longrightarrow>
       id_of ''api'' e \<notin> dom (v_apis (view_of s)) \<Longrightarrow> id_of ''key'' e \<notin> dom (v_keys (view_of s)) \<Longrightarrow>
       env_fresh e s"
    and drawn_once: "m < n \<Longrightarrow> n < 64 \<Longrightarrow> id_of p (g_env T m s) \<noteq> id_of p (g_env T n s')"
    and clock_set: "now_of (g_env T n s) \<noteq> zero_time"
    and seconds_kept: "nt (Truncate_Second t) = Truncate_Second t"
    and refs_kept: "nr [\<lparr>lr_LimitID = ''tokens'', lr_ScopeKey = ''user:user_1''\<rparr>] =
      [\<lparr>lr_LimitID = ''tokens'', lr_ScopeKey = ''user:user_1''\<rparr>]"
    and metadata_kept: "maps_Equal (nm (Some [''env'' \<mapsto> ''test''])) (Some [''env'' \<mapsto> ''test''])"
    and tilde_between:
      "id_of ''key'' (g_env T m s) < id_of ''key'' (g_env T n s') \<Longrightarrow>
       coll (id_of ''key'' (g_env T m s)) < coll (id_of ''key'' (g_env T m s) @ ''~'') \<and>
       coll (id_of ''key'' (g_env T m s) @ ''~'') < coll (id_of ''key'' (g_env T n s'))"
begin

text \<open>The identifiers drawn before step \<open>n\<close>, and the assertion the rules below carry along.\<close>

definition drawn :: "string \<Rightarrow> nat \<Rightarrow> string set" where
  "drawn p n = {id_of p (g_env T m s) | m s. m < n}"

definition ready :: "nat \<Rightarrow> 'b \<Rightarrow> string set \<Rightarrow> string set \<Rightarrow> (string \<rightharpoonup> Key) \<Rightarrow> bool" where
  "ready n s W A ks \<longleftrightarrow> inv s \<and> dom (v_workspaces (view_of s)) = W \<and> dom (v_apis (view_of s)) = A \<and>
     v_keys (view_of s) = ks \<and> W \<subseteq> drawn ''ws'' n \<and> A \<subseteq> drawn ''api'' n \<and> dom ks \<subseteq> drawn ''key'' n"

lemma drawn_mono: "x \<in> drawn p n \<Longrightarrow> x \<in> drawn p (Suc n)"
  unfolding drawn_def by (auto intro: less_SucI)

lemma drawn_now: "id_of p (g_env T n s) \<in> drawn p (Suc n)"
  unfolding drawn_def by auto

lemma drawn_fresh:
  assumes "n < 64"
  shows "id_of p (g_env T n s) \<notin> drawn p n"
proof
  assume "id_of p (g_env T n s) \<in> drawn p n"
  then obtain m s' where "m < n" "id_of p (g_env T n s) = id_of p (g_env T m s')"
    by (auto simp: drawn_def)
  with assms drawn_once [of m n p s' s] show False by simp
qed

lemma ready_start: "inv s \<Longrightarrow> view_of s = empty_view \<Longrightarrow> ready 0 s {} {} Map.empty"
  by (simp add: ready_def empty_view_def)

lemma ready_inv: "ready n s W A ks \<Longrightarrow> inv s"
  by (simp add: ready_def)

lemma ready_keys: "ready n s W A ks \<Longrightarrow> v_keys (view_of s) = ks"
  by (simp add: ready_def)

lemma ready_later: "ready n s W A ks \<Longrightarrow> ready (Suc n) s W A ks"
  unfolding ready_def by (auto intro: drawn_mono)

lemma ready_step:
  assumes "ready n s W A ks" "inv s'" "dom (v_workspaces (view_of s')) = W"
    and "dom (v_apis (view_of s')) = A" "v_keys (view_of s') = ks'" "dom ks' \<subseteq> dom ks"
  shows "ready (Suc n) s' W A ks'"
proof -
  have "dom ks' \<subseteq> drawn ''key'' (Suc n)"
    using assms(6) ready_later [OF assms(1)] unfolding ready_def by blast
  with assms(2-5) ready_later [OF assms(1)] show ?thesis by (simp add: ready_def)
qed

lemma ready_key_id: "ready n s W A ks \<Longrightarrow> ks i = Some k \<Longrightarrow> k_KeyID k = i \<and> i \<noteq> []"
  using view_okD_key(1,2) view_of_ok unfolding ready_def by metis

lemma ready_fresh:
  assumes "ready n s W A ks" "n < 64"
  shows "env_fresh (g_env T n s) s"
  using assms drawn_fresh [OF assms(2)] by (intro unused_fresh) (auto simp: ready_def)

section \<open>Rules for the calls\<close>

lemma call_CreateWorkspace:
  assumes "ready n s W A ks" "n < 64"
    and "\<And>i t s'. i \<noteq> [] \<Longrightarrow> t \<noteq> zero_time \<Longrightarrow> ready (Suc n) s' (insert i W) A ks \<Longrightarrow>
      v_workspaces (view_of s') i = Some (norm_workspace nt nm (stamp_workspace i t w)) \<Longrightarrow>
      P (Inr (stamp_workspace i t w)) (Suc n) s' = Passed"
  shows "call T (\<lambda>e s. CreateWorkspace (g_store T) e s w) P n s = Passed"
proof -
  let ?e = "g_env T n s"
  obtain s' where s': "CreateWorkspace ops ?e s w = (Inr (stamp_workspace (id_of ''ws'' ?e) (now_of ?e) w), s')"
      "inv s'" "view_of s' = (view_of s)\<lparr>v_workspaces := (v_workspaces (view_of s))(id_of ''ws'' ?e \<mapsto>
        norm_workspace nt nm (stamp_workspace (id_of ''ws'' ?e) (now_of ?e) w))\<rparr>"
    using create_workspace [OF ready_inv [OF assms(1)] answered [OF ready_inv [OF assms(1)]]
        ready_fresh [OF assms(1,2)]] by metis
  have "ready (Suc n) s' (insert (id_of ''ws'' ?e) W) A ks"
    using assms(1) s'(2,3) unfolding ready_def by (auto intro: drawn_mono drawn_now)
  from assms(3) [OF id_of_nonempty clock_set this] s' show ?thesis
    by (simp add: call_def under_test)
qed

lemma call_CreateAPI:
  assumes "ready n s W A ks" "n < 64" "a_WorkspaceID a \<in> W"
    and "\<And>i t s'. i \<noteq> [] \<Longrightarrow> i \<notin> A \<Longrightarrow> t \<noteq> zero_time \<Longrightarrow> ready (Suc n) s' W (insert i A) ks \<Longrightarrow>
      v_apis (view_of s') i = Some (norm_api nt nm (stamp_api i t a)) \<Longrightarrow>
      P (Inr (stamp_api i t a)) (Suc n) s' = Passed"
  shows "call T (\<lambda>e s. CreateAPI (g_store T) e s a) P n s = Passed"
proof -
  let ?e = "g_env T n s"
  have "a_WorkspaceID a \<in> dom (v_workspaces (view_of s))" using assms(1,3) by (simp add: ready_def)
  then obtain s' where s': "CreateAPI ops ?e s a = (Inr (stamp_api (id_of ''api'' ?e) (now_of ?e) a), s')"
      "inv s'" "id_of ''api'' ?e \<notin> dom (v_apis (view_of s))"
      "view_of s' = (view_of s)\<lparr>v_apis := (v_apis (view_of s))(id_of ''api'' ?e \<mapsto>
        norm_api nt nm (stamp_api (id_of ''api'' ?e) (now_of ?e) a))\<rparr>"
    using create_api [OF ready_inv [OF assms(1)] answered [OF ready_inv [OF assms(1)]]
        ready_fresh [OF assms(1,2)]] by metis
  have "ready (Suc n) s' W (insert (id_of ''api'' ?e) A) ks"
    using assms(1) s'(2,4) unfolding ready_def by (auto intro: drawn_mono drawn_now)
  moreover have "id_of ''api'' ?e \<notin> A" using s'(3) assms(1) by (simp add: ready_def)
  ultimately show ?thesis
    using assms(4) [OF id_of_nonempty _ clock_set] s' by (simp add: call_def under_test)
qed

lemma call_CreateAPI_unknown:
  assumes "ready n s W A ks" "n < 64" "a_WorkspaceID a \<notin> W"
    and "P (Inl (Wrapf ''workspace %q: %w'' (Some (a_WorkspaceID a)) (Sentinel ErrNotFound))) (Suc n) s = Passed"
  shows "call T (\<lambda>e s. CreateAPI (g_store T) e s a) P n s = Passed"
  using create_api_no_workspace [OF ready_inv [OF assms(1)] answered [OF ready_inv [OF assms(1)]]
      ready_fresh [OF assms(1,2)], of a] assms(1,3,4)
  by (simp add: call_def under_test ready_def)

lemma call_CreateKey:
  assumes "ready n s W A ks" "n < 64" "k_WorkspaceID k \<in> W" "k_APIID k \<in> A"
    and new: "\<And>i k'. ks i = Some k' \<Longrightarrow> k_KeyHash k' \<noteq> k_KeyHash k"
    and P: "\<And>i t s'. i \<noteq> [] \<Longrightarrow> i \<notin> dom ks \<Longrightarrow> t \<noteq> zero_time \<Longrightarrow>
      ready (Suc n) s' W A (ks(i \<mapsto> norm_key nt nm nr (stamp_key i t k))) \<Longrightarrow>
      P (Inr (stamp_key i t k)) (Suc n) s' = Passed"
  shows "call T (\<lambda>e s. CreateKey (g_store T) e s k) P n s = Passed"
proof -
  let ?e = "g_env T n s"
  let ?k = "stamp_key (id_of ''key'' ?e) (now_of ?e) k"
  have pre: "k_APIID k \<in> dom (v_apis (view_of s))" "k_WorkspaceID k \<in> dom (v_workspaces (view_of s))"
      "\<not> hash_taken (view_of s) (k_KeyHash k)"
    using assms(1,3,4) new by (auto simp: ready_def hash_taken_def)
  obtain s' where s': "CreateKey ops ?e s k = (Inr ?k, s')" "inv s'"
      "id_of ''key'' ?e \<notin> dom (v_keys (view_of s))"
      "view_of s' = (view_of s)\<lparr>v_keys := (v_keys (view_of s))(id_of ''key'' ?e \<mapsto> norm_key nt nm nr ?k)\<rparr>"
    using create_key [OF ready_inv [OF assms(1)] answered [OF ready_inv [OF assms(1)]]
        ready_fresh [OF assms(1,2)] pre] by metis
  have "ready (Suc n) s' W A (ks(id_of ''key'' ?e \<mapsto> norm_key nt nm nr ?k))"
    using assms(1) s'(2,4) unfolding ready_def by (auto intro: drawn_mono drawn_now)
  moreover have "id_of ''key'' ?e \<notin> dom ks" using s'(3) assms(1) by (simp add: ready_def)
  ultimately show ?thesis
    using P [OF id_of_nonempty _ clock_set] s' by (simp add: call_def under_test)
qed

lemma call_CreateKey_unknown:
  assumes "ready n s W A Map.empty" "n < 64" "k_APIID k \<notin> A"
    and "P (Inl (Wrapf ''api %q: %w'' (Some (k_APIID k)) (Sentinel ErrNotFound))) (Suc n) s = Passed"
  shows "call T (\<lambda>e s. CreateKey (g_store T) e s k) P n s = Passed"
  using create_key_no_api [OF ready_inv [OF assms(1)] answered [OF ready_inv [OF assms(1)]]
      ready_fresh [OF assms(1,2)], of k] assms(1,3,4)
  by (simp add: call_def under_test ready_def hash_taken_def)

lemma call_CreateKey_conflict:
  assumes "ready n s W A ks" "n < 64" "k_APIID k \<in> A" "ks i = Some k'" "k_KeyHash k' = k_KeyHash k"
    and "ready (Suc n) s W A ks \<Longrightarrow> P (Inl (Sentinel ErrConflict)) (Suc n) s = Passed"
  shows "call T (\<lambda>e s. CreateKey (g_store T) e s k) P n s = Passed"
proof -
  have "k_APIID k \<in> dom (v_apis (view_of s))" "hash_taken (view_of s) (k_KeyHash k)"
    using assms(1,3-5) by (auto simp: ready_def hash_taken_def)
  then show ?thesis
    using create_key_conflict [OF ready_inv [OF assms(1)] answered [OF ready_inv [OF assms(1)]]
        ready_fresh [OF assms(1,2)], of k] assms(6) ready_later [OF assms(1)]
    by (simp add: call_def under_test)
qed

text \<open>The reading calls leave the state alone.\<close>

lemma call_GetWorkspace:
  assumes "ready n s W A ks"
    and "ready (Suc n) s W A ks \<Longrightarrow>
      P (case v_workspaces (view_of s) i of None \<Rightarrow> Inl (Sentinel ErrNotFound) | Some w \<Rightarrow> Inr w) (Suc n) s = Passed"
  shows "call T (\<lambda>e s. GetWorkspace (g_store T) e s i) P n s = Passed"
  using get_workspace [OF ready_inv [OF assms(1)] answered [OF ready_inv [OF assms(1)]]]
    assms(2) [OF ready_later [OF assms(1)]]
  by (simp add: call_def under_test)

lemma call_GetAPI:
  assumes "ready n s W A ks"
    and "ready (Suc n) s W A ks \<Longrightarrow>
      P (case v_apis (view_of s) i of None \<Rightarrow> Inl (Sentinel ErrNotFound) | Some a \<Rightarrow> Inr a) (Suc n) s = Passed"
  shows "call T (\<lambda>e s. GetAPI (g_store T) e s i) P n s = Passed"
  using get_api [OF ready_inv [OF assms(1)] answered [OF ready_inv [OF assms(1)]]]
    assms(2) [OF ready_later [OF assms(1)]]
  by (simp add: call_def under_test)

lemma call_GetKeyByID:
  assumes "ready n s W A ks"
    and "ready (Suc n) s W A ks \<Longrightarrow>
      P (case ks i of None \<Rightarrow> Inl (Sentinel ErrNotFound) | Some k \<Rightarrow> Inr k) (Suc n) s = Passed"
  shows "call T (\<lambda>e s. GetKeyByID (g_store T) e s i) P n s = Passed"
  using get_key_by_id [OF ready_inv [OF assms(1)] answered [OF ready_inv [OF assms(1)]]]
    assms(2) [OF ready_later [OF assms(1)]] ready_keys [OF assms(1)]
  by (simp add: call_def under_test)

lemma call_GetKeyByHash:
  assumes "ready n s W A ks" "ks i = Some k" "k_KeyHash k = h"
    and "ready (Suc n) s W A ks \<Longrightarrow> P (Inr k) (Suc n) s = Passed"
  shows "call T (\<lambda>e s. GetKeyByHash (g_store T) e s h) P n s = Passed"
  using get_key_by_hash_hit [OF ready_inv [OF assms(1)] answered [OF ready_inv [OF assms(1)]] _ assms(3), of i]
    assms(2) assms(4) [OF ready_later [OF assms(1)]] ready_keys [OF assms(1)]
  by (simp add: call_def under_test)

lemma call_GetKeyByHash_unknown:
  assumes "ready n s W A ks" "\<And>i k. ks i = Some k \<Longrightarrow> k_KeyHash k \<noteq> h"
    and "ready (Suc n) s W A ks \<Longrightarrow> P (Inl (Sentinel ErrNotFound)) (Suc n) s = Passed"
  shows "call T (\<lambda>e s. GetKeyByHash (g_store T) e s h) P n s = Passed"
proof -
  have "\<not> hash_taken (view_of s) h"
    using assms(2) ready_keys [OF assms(1)] by (auto simp: hash_taken_def)
  then show ?thesis
    using get_key_by_hash_miss [OF ready_inv [OF assms(1)] answered [OF ready_inv [OF assms(1)]]]
      assms(3) [OF ready_later [OF assms(1)]]
    by (simp add: call_def under_test)
qed

lemma call_ListKeys:
  assumes "ready n s W A ks"
    and "\<And>ids. distinct ids \<Longrightarrow> set ids = matching_ids ks opts \<Longrightarrow> ready (Suc n) s W A ks \<Longrightarrow>
      P (Inr (page_of coll ks opts ids)) (Suc n) s = Passed"
  shows "call T (\<lambda>e s. ListKeys (g_store T) e s opts) P n s = Passed"
proof -
  note inv = ready_inv [OF assms(1)]
  obtain ids where ids: "distinct ids" "set ids = matching_ids ks opts"
    by (metis finite_distinct_list matching_ids_finite [OF inv] ready_keys [OF assms(1)])
  then show ?thesis
    using list_keys [OF inv answered [OF inv] ranged [OF inv] ids(1), of opts] assms(2) [OF ids ready_later [OF assms(1)]]
      ready_keys [OF assms(1)]
    by (simp add: call_def under_test)
qed

text \<open>The calls that change one key.\<close>

lemma call_RevokeKey:
  assumes "ready n s W A ks" "ks i = Some k"
    and "\<And>u s'. ready (Suc n) s' W A (ks(i \<mapsto> k\<lparr>k_Enabled := False, k_UpdatedAt := u\<rparr>)) \<Longrightarrow>
      P (Inr ()) (Suc n) s' = Passed"
  shows "call T (\<lambda>e s. RevokeKey (g_store T) e s i) P n s = Passed"
proof -
  note inv = ready_inv [OF assms(1)]
  have "v_keys (view_of s) i = Some k" using assms(2) ready_keys [OF assms(1)] by simp
  from revoke_key [OF inv answered [OF inv] this, of n]
  obtain s' u where s': "RevokeKey ops (g_env T n s) s i = (Inr (), s')" "inv s'"
      "view_of s' = (view_of s)\<lparr>v_keys := (v_keys (view_of s))(i \<mapsto> k\<lparr>k_Enabled := False, k_UpdatedAt := u\<rparr>)\<rparr>"
    by blast
  have "ready (Suc n) s' W A (ks(i \<mapsto> k\<lparr>k_Enabled := False, k_UpdatedAt := u\<rparr>))"
    by (rule ready_step [OF assms(1) s'(2)]) (use assms(1,2) s'(3) in \<open>auto simp: ready_def\<close>)
  from assms(3) [OF this] s'(1) show ?thesis by (simp add: call_def under_test)
qed

lemma call_RevokeKey_unknown:
  assumes "ready n s W A ks" "ks i = None"
    and "P (Inl (Sentinel ErrNotFound)) (Suc n) s = Passed"
  shows "call T (\<lambda>e s. RevokeKey (g_store T) e s i) P n s = Passed"
  using revoke_key_unknown [OF ready_inv [OF assms(1)] answered [OF ready_inv [OF assms(1)]], of i] assms(2,3)
    ready_keys [OF assms(1)]
  by (simp add: call_def under_test)

lemma call_RotateKey:
  assumes "ready n s W A ks" "ks i = Some k"
    and free: "\<And>i' k'. ks i' = Some k' \<Longrightarrow> i' \<noteq> i \<Longrightarrow> k_KeyHash k' \<noteq> h"
    and P: "\<And>u s'. ready (Suc n) s' W A (ks(i \<mapsto> k\<lparr>k_KeyHash := h, k_UpdatedAt := u\<rparr>)) \<Longrightarrow>
      P (Inr (k\<lparr>k_KeyHash := h, k_UpdatedAt := u\<rparr>)) (Suc n) s' = Passed"
  shows "call T (\<lambda>e s. RotateKey (g_store T) e s i h) P n s = Passed"
proof -
  note inv = ready_inv [OF assms(1)]
  let ?k = "k\<lparr>k_KeyHash := h, k_UpdatedAt := nt (now_of (g_env T n s))\<rparr>"
  have "v_keys (view_of s) i = Some k" "hash_free_for (view_of s) i h"
    using assms(2) free ready_keys [OF assms(1)] by (auto simp: hash_free_for_def)
  from rotate_key [OF inv answered [OF inv] this, of n]
  obtain s' where s': "RotateKey ops (g_env T n s) s i h = (Inr ?k, s')" "inv s'"
      "view_of s' = (view_of s)\<lparr>v_keys := (v_keys (view_of s))(i \<mapsto> ?k)\<rparr>"
    by blast
  have "ready (Suc n) s' W A (ks(i \<mapsto> ?k))"
    by (rule ready_step [OF assms(1) s'(2)]) (use assms(1,2) s'(3) in \<open>auto simp: ready_def\<close>)
  from P [OF this] s'(1) show ?thesis by (simp add: call_def under_test)
qed

lemma call_RotateKey_unknown:
  assumes "ready n s W A ks" "ks i = None"
    and "P (Inl (Sentinel ErrNotFound)) (Suc n) s = Passed"
  shows "call T (\<lambda>e s. RotateKey (g_store T) e s i h) P n s = Passed"
  using rotate_key_unknown [OF ready_inv [OF assms(1)] answered [OF ready_inv [OF assms(1)]], of i] assms(2,3)
    ready_keys [OF assms(1)]
  by (simp add: call_def under_test)

lemma call_RotateKey_conflict:
  assumes "ready n s W A ks" "ks i = Some k" "ks i' = Some k'" "i' \<noteq> i" "k_KeyHash k' = h"
    and "ready (Suc n) s W A ks \<Longrightarrow> P (Inl (Sentinel ErrConflict)) (Suc n) s = Passed"
  shows "call T (\<lambda>e s. RotateKey (g_store T) e s i h) P n s = Passed"
proof -
  have "v_keys (view_of s) i = Some k" "\<not> hash_free_for (view_of s) i h"
    using assms(2-5) ready_keys [OF assms(1)] by (auto simp: hash_free_for_def)
  from rotate_key_conflict [OF ready_inv [OF assms(1)] answered [OF ready_inv [OF assms(1)]] this, of n]
  show ?thesis using assms(6) [OF ready_later [OF assms(1)]] by (simp add: call_def under_test)
qed

lemma call_TouchLastVerified:
  assumes "ready n s W A ks" "ks i = Some k"
    and "\<And>s'. ready (Suc n) s' W A (ks(i \<mapsto> k\<lparr>k_LastVerifiedAt := Some (nt t)\<rparr>)) \<Longrightarrow>
      P (Inr ()) (Suc n) s' = Passed"
  shows "call T (\<lambda>e s. TouchLastVerified (g_store T) e s i t) P n s = Passed"
proof -
  note inv = ready_inv [OF assms(1)]
  have "v_keys (view_of s) i = Some k" using assms(2) ready_keys [OF assms(1)] by simp
  from touch [OF inv answered [OF inv] this, of n t]
  obtain s' where s': "TouchLastVerified ops (g_env T n s) s i t = (Inr (), s')" "inv s'"
      "view_of s' = (view_of s)\<lparr>v_keys := (v_keys (view_of s))(i \<mapsto> k\<lparr>k_LastVerifiedAt := Some (nt t)\<rparr>)\<rparr>"
    by blast
  have "ready (Suc n) s' W A (ks(i \<mapsto> k\<lparr>k_LastVerifiedAt := Some (nt t)\<rparr>))"
    by (rule ready_step [OF assms(1) s'(2)]) (use assms(1,2) s'(3) in \<open>auto simp: ready_def\<close>)
  from assms(3) [OF this] s'(1) show ?thesis by (simp add: call_def under_test)
qed

lemma call_TouchLastVerified_unknown:
  assumes "ready n s W A ks" "ks i = None"
    and "P (Inl (Sentinel ErrNotFound)) (Suc n) s = Passed"
  shows "call T (\<lambda>e s. TouchLastVerified (g_store T) e s i t) P n s = Passed"
  using touch_unknown [OF ready_inv [OF assms(1)] answered [OF ready_inv [OF assms(1)]], of i] assms(2,3)
    ready_keys [OF assms(1)]
  by (simp add: call_def under_test)

lemma call_Decrement:
  assumes "ready n s W A ks" "ks i = Some k" "0 < sint (k_RemainingUses k)"
    and "\<And>u s'. ready (Suc n) s' W A (ks(i \<mapsto> k\<lparr>k_RemainingUses := k_RemainingUses k - 1, k_UpdatedAt := u\<rparr>)) \<Longrightarrow>
      P (k_RemainingUses k - 1, None) (Suc n) s' = Passed"
  shows "call T (\<lambda>e s. DecrementRemainingUses (g_store T) e s i) P n s = Passed"
proof -
  note inv = ready_inv [OF assms(1)]
  let ?k = "k\<lparr>k_RemainingUses := k_RemainingUses k - 1, k_UpdatedAt := nt (now_of (g_env T n s))\<rparr>"
  have "v_keys (view_of s) i = Some k" using assms(2) ready_keys [OF assms(1)] by simp
  from decrement [OF inv answered [OF inv] this assms(3), of n]
  obtain s' where s': "DecrementRemainingUses ops (g_env T n s) s i = ((k_RemainingUses k - 1, None), s')"
      "inv s'" "view_of s' = (view_of s)\<lparr>v_keys := (v_keys (view_of s))(i \<mapsto> ?k)\<rparr>"
    by blast
  have "ready (Suc n) s' W A (ks(i \<mapsto> ?k))"
    by (rule ready_step [OF assms(1) s'(2)]) (use assms(1,2) s'(3) in \<open>auto simp: ready_def\<close>)
  from assms(4) [OF this] s'(1) show ?thesis by (simp add: call_def under_test)
qed

lemma call_Decrement_still:
  assumes "ready n s W A ks" "\<And>k. ks i = Some k \<Longrightarrow> sint (k_RemainingUses k) \<le> 0"
    and "ready (Suc n) s W A ks \<Longrightarrow>
      P (case ks i of None \<Rightarrow> (0, Some (Sentinel ErrNotFound))
         | Some k \<Rightarrow> if k_RemainingUses k = 0 then (0, Some (Sentinel ErrDepleted)) else (-1, None)) (Suc n) s = Passed"
  shows "call T (\<lambda>e s. DecrementRemainingUses (g_store T) e s i) P n s = Passed"
proof -
  note inv = ready_inv [OF assms(1)]
  note laws = decrement_unknown [OF inv answered [OF inv], of i n] decrement_unlimited [OF inv answered [OF inv], of i _ n]
    decrement_depleted [OF inv answered [OF inv], of i _ n]
  have "sint (k_RemainingUses k) < 0" if "ks i = Some k" "k_RemainingUses k \<noteq> 0" for k
    using assms(2) [OF that(1)] that(2) by (simp add: order.strict_iff_order signed_eq_0_iff)
  then show ?thesis
    using laws assms(3) [OF ready_later [OF assms(1)]] ready_keys [OF assms(1)]
    by (cases "ks i") (auto simp: call_def under_test split: if_splits)
qed

section \<open>Every test passes\<close>

lemmas call_defs = must_def wantErr_def ignoring_def seedWorkspace_def seedAPI_def

lemma passed [simp]: "pass n s = Passed" "require True msg k = k"
  by (simp_all add: pass_def require_def)

lemma time_Now_Passed: "k (g_clock T n) (Suc n) s = Passed \<Longrightarrow> time_Now T k n s = Passed"
  by (simp add: time_Now_def)

lemma seeded_Passed:
  assumes "ready 0 s {} {} Map.empty"
    and "\<And>w a s. w_WorkspaceID w \<noteq> [] \<Longrightarrow> a_APIID a \<noteq> [] \<Longrightarrow>
      ready (Suc (Suc 0)) s {w_WorkspaceID w} {a_APIID a} Map.empty \<Longrightarrow> k w a (Suc (Suc 0)) s = Passed"
  shows "seeded T k 0 s = Passed"
  unfolding call_defs
  apply (rule call_CreateWorkspace [OF assms(1)], simp, simp)
  apply (erule call_CreateAPI, simp, simp add: newAPI_def stamp_workspace_def, simp)
  apply (rule assms(2); simp add: stamp_workspace_def stamp_api_def)
  done

lemma testWorkspaceCreateAndGet_Passed:
  "ready 0 s {} {} Map.empty \<Longrightarrow> testWorkspaceCreateAndGet T 0 s = Passed"
  unfolding testWorkspaceCreateAndGet_def must_def
  apply (erule call_CreateWorkspace, simp)
  apply (simp add: stamp_workspace_def IsZero_def)
  apply (erule call_GetWorkspace)
  apply (simp add: newWorkspace_def)
  done

lemma unknown_Passed:
  assumes "ready 0 s {} {} Map.empty"
  shows "testWorkspaceGetNotFound T 0 s = Passed" "testAPICreateRequiresWorkspace T 0 s = Passed"
    "testAPIGetNotFound T 0 s = Passed" "testKeyCreateRequiresAPI T 0 s = Passed"
    "testKeyGetByHashUnknown T 0 s = Passed" "testKeyGetByIDUnknown T 0 s = Passed"
    "testKeyRevokeUnknownReturnsNotFound T 0 s = Passed" "testKeyRotateUnknownReturnsNotFound T 0 s = Passed"
    "testKeyTouchLastVerifiedUnknownReturnsNotFound T 0 s = Passed"
    "testKeyDecrementUnknownReturnsNotFound T 0 s = Passed"
proof -
  have none: "v_workspaces (view_of s) i = None" "v_apis (view_of s) i = None" for i
    using assms by (auto simp: ready_def)
  show "testWorkspaceGetNotFound T 0 s = Passed" "testAPIGetNotFound T 0 s = Passed"
    "testKeyGetByIDUnknown T 0 s = Passed"
    unfolding testWorkspaceGetNotFound_def testAPIGetNotFound_def testKeyGetByIDUnknown_def wantErr_def
    by (rule call_GetWorkspace [OF assms] call_GetAPI [OF assms] call_GetKeyByID [OF assms], simp add: none)+
  show "testAPICreateRequiresWorkspace T 0 s = Passed" "testKeyCreateRequiresAPI T 0 s = Passed"
    unfolding testAPICreateRequiresWorkspace_def testKeyCreateRequiresAPI_def wantErr_def
    by (rule call_CreateAPI_unknown [OF assms] call_CreateKey_unknown [OF assms]; simp)+
  show "testKeyGetByHashUnknown T 0 s = Passed" "testKeyRevokeUnknownReturnsNotFound T 0 s = Passed"
    "testKeyRotateUnknownReturnsNotFound T 0 s = Passed"
    unfolding testKeyGetByHashUnknown_def testKeyRevokeUnknownReturnsNotFound_def
      testKeyRotateUnknownReturnsNotFound_def wantErr_def
    by (rule call_GetKeyByHash_unknown [OF assms] call_RevokeKey_unknown [OF assms]
        call_RotateKey_unknown [OF assms]; simp)+
  show "testKeyTouchLastVerifiedUnknownReturnsNotFound T 0 s = Passed"
    unfolding testKeyTouchLastVerifiedUnknownReturnsNotFound_def wantErr_def
    by (rule time_Now_Passed, rule call_TouchLastVerified_unknown [OF ready_later [OF assms]]; simp)
  show "testKeyDecrementUnknownReturnsNotFound T 0 s = Passed"
    unfolding testKeyDecrementUnknownReturnsNotFound_def
    by (rule call_Decrement_still [OF assms]; simp)
qed

lemma testAPICreateAndGet_Passed:
  "ready 0 s {} {} Map.empty \<Longrightarrow> testAPICreateAndGet T 0 s = Passed"
  unfolding testAPICreateAndGet_def must_def seedWorkspace_def
  apply (erule call_CreateWorkspace, simp)
  apply (simp add: stamp_workspace_def)
  apply (erule call_CreateAPI, simp, simp add: newAPI_def)
  apply (simp add: stamp_api_def IsZero_def)
  apply (erule call_GetAPI)
  apply (simp add: newAPI_def)
  done

text \<open>
  A key with a new hash enters the seeded store; the form in which the tests use the rule.
\<close>

lemma call_CreateKey_seeded:
  assumes "ready n s {w} {a} ks" "n < 64" "k_WorkspaceID k = w" "k_APIID k = a"
    and "\<And>i k'. ks i = Some k' \<Longrightarrow> k_KeyHash k' \<noteq> k_KeyHash k"
    and "\<And>i t s'. i \<noteq> [] \<Longrightarrow> i \<notin> dom ks \<Longrightarrow>
      ready (Suc n) s' {w} {a} (ks(i \<mapsto> norm_key nt nm nr (stamp_key i t k))) \<Longrightarrow>
      P (Inr (stamp_key i t k)) (Suc n) s' = Passed"
  shows "call T (\<lambda>e s. CreateKey (g_store T) e s k) P n s = Passed"
  using assms by (intro call_CreateKey [OF assms(1,2)]) simp_all

lemma stamp_key_sel [simp]:
  "k_KeyID (stamp_key i t k) = i" "k_APIID (stamp_key i t k) = k_APIID k"
  "k_OwnerPrincipalID (stamp_key i t k) = k_OwnerPrincipalID k" "k_KeyHash (stamp_key i t k) = k_KeyHash k"
  "k_Permissions (stamp_key i t k) = k_Permissions k" "k_LimitRefs (stamp_key i t k) = k_LimitRefs k"
  "k_ExpiresAt (stamp_key i t k) = k_ExpiresAt k" "k_RemainingUses (stamp_key i t k) = k_RemainingUses k"
  "k_LastVerifiedAt (stamp_key i t k) = k_LastVerifiedAt k" "k_Metadata (stamp_key i t k) = k_Metadata k"
  by (simp_all add: stamp_key_def)

lemma key_lookup_Passed:
  assumes "ready 0 s {} {} Map.empty"
  shows "testKeyCreateAndLookup T 0 s = Passed" "testKeyCreateRejectsDuplicateHash T 0 s = Passed"
proof -
  show "testKeyCreateAndLookup T 0 s = Passed"
    unfolding testKeyCreateAndLookup_def
    apply (rule seeded_Passed [OF assms])
    apply (simp add: Let_def must_def)
    apply (erule call_CreateKey_seeded; simp)
    apply (erule call_GetKeyByID, simp)
    apply (erule call_GetKeyByHash, rule fun_upd_same; simp)
    done
  show "testKeyCreateRejectsDuplicateHash T 0 s = Passed"
    unfolding testKeyCreateRejectsDuplicateHash_def
    apply (rule seeded_Passed [OF assms])
    apply (simp add: Let_def must_def wantErr_def)
    apply (erule call_CreateKey_seeded; simp)
    apply (erule call_CreateKey_conflict, simp, simp, rule fun_upd_same; simp)
    done
qed

lemma revoke_Passed:
  assumes "ready 0 s {} {} Map.empty"
  shows "testKeyRevoke T 0 s = Passed" "testKeyRevokeIsIdempotent T 0 s = Passed"
proof -
  show "testKeyRevoke T 0 s = Passed"
    unfolding testKeyRevoke_def
    apply (rule seeded_Passed [OF assms])
    apply (simp add: Let_def must_def)
    apply (erule call_CreateKey_seeded; simp)
    apply (erule call_RevokeKey, rule fun_upd_same, simp)
    apply (erule call_GetKeyByID, simp)
    done
  show "testKeyRevokeIsIdempotent T 0 s = Passed"
    unfolding testKeyRevokeIsIdempotent_def
    apply (rule seeded_Passed [OF assms])
    apply (simp add: Let_def must_def ignoring_def)
    apply (erule call_CreateKey_seeded; simp)
    apply (erule call_RevokeKey, rule fun_upd_same, simp)
    apply (erule call_RevokeKey, rule fun_upd_same, simp)
    done
qed

lemma rotate_Passed:
  assumes "ready 0 s {} {} Map.empty"
  shows "testKeyRotate T 0 s = Passed" "testKeyRotateRejectsDuplicateHash T 0 s = Passed"
proof -
  show "testKeyRotate T 0 s = Passed"
    unfolding testKeyRotate_def
    apply (rule seeded_Passed [OF assms])
    apply (simp add: Let_def must_def wantErr_def ignoring_def)
    apply (erule call_CreateKey_seeded; simp)
    apply (erule call_RotateKey, rule fun_upd_same, simp split: if_splits)
    apply simp
    apply (erule call_GetKeyByHash_unknown, force split: if_splits)
    apply simp
    apply (erule call_GetKeyByHash, rule fun_upd_same; simp)
    done
  show "testKeyRotateRejectsDuplicateHash T 0 s = Passed"
    unfolding testKeyRotateRejectsDuplicateHash_def
    apply (rule seeded_Passed [OF assms])
    apply (simp add: Let_def must_def wantErr_def)
    apply (erule call_CreateKey_seeded; simp)
    subgoal for w a i
      apply (erule call_CreateKey_seeded, simp, simp, simp, force split: if_splits, simp)
      apply (erule call_RotateKey_conflict [where i = i], simp, rule fun_upd_same; simp)
      apply (erule call_GetKeyByID, simp)
      done
    done
qed

lemma touch_Passed:
  assumes "ready 0 s {} {} Map.empty"
  shows "testKeyTouchLastVerified T 0 s = Passed"
  unfolding testKeyTouchLastVerified_def
  apply (rule seeded_Passed [OF assms])
  apply (simp add: Let_def must_def ignoring_def)
  apply (erule call_CreateKey_seeded; simp)
  apply (rule time_Now_Passed)
  apply (drule ready_later, erule call_TouchLastVerified, rule fun_upd_same, simp)
  apply (erule call_GetKeyByID, simp add: seconds_kept)
  done

lemma decrement_Passed:
  assumes "ready 0 s {} {} Map.empty"
  shows "testKeyDecrementRemainingUses T 0 s = Passed" "testKeyDecrementUnlimitedIsNoop T 0 s = Passed"
    "testKeyDecrementDepletedReturnsErrDepleted T 0 s = Passed"
proof -
  show "testKeyDecrementRemainingUses T 0 s = Passed"
    unfolding testKeyDecrementRemainingUses_def
    apply (rule seeded_Passed [OF assms])
    apply (simp add: Let_def must_def)
    apply (erule call_CreateKey_seeded; simp)
    apply (erule call_Decrement, rule fun_upd_same, simp, simp)
    apply (erule call_Decrement, rule fun_upd_same, simp, simp)
    apply (erule call_Decrement, rule fun_upd_same, simp, simp)
    done
  show "testKeyDecrementUnlimitedIsNoop T 0 s = Passed"
    unfolding testKeyDecrementUnlimitedIsNoop_def
    apply (rule seeded_Passed [OF assms])
    apply (simp add: Let_def must_def ignoring_def)
    apply (erule call_CreateKey_seeded; simp)
    apply (erule call_Decrement_still, force, simp)
    done
  show "testKeyDecrementDepletedReturnsErrDepleted T 0 s = Passed"
    unfolding testKeyDecrementDepletedReturnsErrDepleted_def
    apply (rule seeded_Passed [OF assms])
    apply (simp add: Let_def must_def)
    apply (erule call_CreateKey_seeded; simp)
    apply (erule call_Decrement_still, force, simp)
    apply (erule call_GetKeyByID, simp)
    done
qed

section \<open>The listing tests pass\<close>

text \<open>A first page that holds everything, and the identifiers a page shows.\<close>

lemma page_of_all:
  assumes "o_PageToken opts = []" "length ids \<le> page_size (o_PageSize opts)"
  shows "page_of coll ks opts ids = \<lparr>r_Keys = map (the \<circ> ks) (sort_key coll ids), r_NextPageToken = []\<rparr>"
  using assms by (simp add: page_of_def page_ids_def after_token_def)

lemma distinct_length_card: "distinct ids \<Longrightarrow> set ids = M \<Longrightarrow> length ids = card M"
  by (metis distinct_card)

lemma whole_page:
  assumes "o_PageToken opts = []" "distinct ids" "set ids = matching_ids ks opts"
    and "card (matching_ids ks opts) \<le> page_size (o_PageSize opts)"
  shows "length (r_Keys (page_of coll ks opts ids)) = card (matching_ids ks opts)"
    and "set (r_Keys (page_of coll ks opts ids)) = {k. \<exists>i. ks i = Some k \<and> key_matches opts k}"
    and "r_NextPageToken (page_of coll ks opts ids) = []"
  using assms distinct_length_card [OF assms(2,3)]
  by (auto simp: page_of_all matching_ids_def image_iff)
    (metis option.sel)

lemma one_key_page:
  assumes "distinct ids" "set ids = matching_ids [i \<mapsto> k] opts" "key_matches opts k" "o_PageToken opts = []"
  shows "page_of coll [i \<mapsto> k] opts ids = \<lparr>r_Keys = [k], r_NextPageToken = []\<rparr>"
proof -
  have set: "set ids = {i}" using assms(2,3) by (auto simp: matching_ids_def)
  then have "length ids = 1" using distinct_length_card [OF assms(1)] by simp
  with set have "ids = [i]" by (cases ids) auto
  then show ?thesis
    using assms(4) page_size_pos [of "o_PageSize opts"] by (simp add: page_of_all Suc_le_eq del: page_size_pos)
qed

lemma list_unknown_Passed:
  assumes "ready 0 s {} {} Map.empty"
  shows "testKeyListUnknownAPIIsEmpty T 0 s = Passed"
  unfolding testKeyListUnknownAPIIsEmpty_def must_def
  by (rule call_ListKeys [OF assms]) (simp add: matching_ids_def page_of_all)

lemma snapshot_Passed:
  assumes "ready 0 s {} {} Map.empty"
  shows "testKeyCreatePreservesAllFields T 0 s = Passed" "testKeyListPreservesAllFields T 0 s = Passed"
proof -
  show "testKeyCreatePreservesAllFields T 0 s = Passed"
    unfolding testKeyCreatePreservesAllFields_def
    apply (rule seeded_Passed [OF assms])
    apply (rule time_Now_Passed)+
    apply (simp add: Let_def must_def)
    apply (drule ready_later, drule ready_later, erule call_CreateKey_seeded; simp)
    apply (erule call_GetKeyByID)
    apply (simp add: assertKeyFields_def sameOptionalTime_def seconds_kept refs_kept metadata_kept)
    done
  show "testKeyListPreservesAllFields T 0 s = Passed"
    unfolding testKeyListPreservesAllFields_def
    apply (rule seeded_Passed [OF assms])
    apply (rule time_Now_Passed)+
    apply (simp add: Let_def must_def)
    apply (drule ready_later, drule ready_later, erule call_CreateKey_seeded; simp)
    apply (erule call_ListKeys, simp add: one_key_page key_matches_def)
    apply (simp add: assertKeyFields_def sameOptionalTime_def seconds_kept refs_kept metadata_kept)
    done
qed

lemma matching_ids_upd [simp]:
  assumes "i \<notin> dom ks"
  shows "matching_ids (ks(i \<mapsto> k)) opts =
    (if key_matches opts k then insert i (matching_ids ks opts) else matching_ids ks opts)"
  using assms by (auto simp: matching_ids_def)

lemma matching_ids_empty [simp]: "matching_ids Map.empty opts = {}"
  by (simp add: matching_ids_def)

lemma call_ListKeys_whole:
  assumes "ready n s W A ks" "o_PageToken opts = []"
    and "card (matching_ids ks opts) \<le> page_size (o_PageSize opts)"
    and "\<And>res. length (r_Keys res) = card (matching_ids ks opts) \<Longrightarrow>
      \<forall>k \<in> set (r_Keys res). key_matches opts k \<Longrightarrow> P (Inr res) (Suc n) s = Passed"
  shows "call T (\<lambda>e s. ListKeys (g_store T) e s opts) P n s = Passed"
proof (rule call_ListKeys [OF assms(1)])
  fix ids assume ids: "distinct ids" "set ids = matching_ids ks opts"
  note page = whole_page [OF assms(2) ids assms(3)]
  show "P (Inr (page_of coll ks opts ids)) (Suc n) s = Passed"
    by (rule assms(4)) (auto simp: page)
qed

lemma list_by_api_Passed:
  assumes "ready 0 s {} {} Map.empty"
  shows "testKeyListByAPI T 0 s = Passed"
  unfolding testKeyListByAPI_def
  apply (rule seeded_Passed [OF assms])
  apply (simp add: must_def ignoring_def)
  apply (erule call_CreateAPI, simp, simp add: newAPI_def, simp)
  apply (erule call_CreateKey, simp, simp, simp, simp, simp)
  apply (erule call_CreateKey, simp, simp, simp, force split: if_splits, simp)
  apply (erule call_CreateKey, simp, simp, simp add: stamp_api_def, force split: if_splits, simp)
  apply (erule call_ListKeys_whole; simp add: key_matches_def stamp_api_def page_size_def)
  done

lemma list_by_owner_Passed:
  assumes "ready 0 s {} {} Map.empty"
  shows "testKeyListFilterByOwner T 0 s = Passed"
  unfolding testKeyListFilterByOwner_def
  apply (rule seeded_Passed [OF assms])
  apply (simp add: must_def ignoring_def)
  apply (erule call_CreateKey, simp, simp, simp, simp, simp)
  apply (erule call_CreateKey, simp, simp, simp, force split: if_splits, simp)
  apply (erule call_CreateKey, simp, simp, simp, force split: if_splits, simp)
  apply (erule call_ListKeys_whole; simp add: key_matches_def page_size_def)
  done

text \<open>
  Seeding keeps what there was and adds one key per byte, all of the given API and under distinct
  identifiers.
\<close>

lemma seedKeys_Passed:
  assumes "ready n s {w} {a} ks" "n + length bs \<le> 64" "distinct bs"
    and "\<And>i k b. ks i = Some k \<Longrightarrow> b \<in> set bs \<Longrightarrow> k_KeyHash k \<noteq> Repeat32 b"
    and "\<And>ids s' ks'. distinct ids \<Longrightarrow> length ids = length bs \<Longrightarrow> set ids \<inter> dom ks = {} \<Longrightarrow>
      dom ks' = dom ks \<union> set ids \<Longrightarrow> (\<And>i. i \<in> set ids \<Longrightarrow> k_APIID (the (ks' i)) = a) \<Longrightarrow>
      (\<And>i. i \<in> dom ks \<Longrightarrow> ks' i = ks i) \<Longrightarrow> ready (n + length bs) s' {w} {a} ks' \<Longrightarrow>
      P ids (n + length bs) s' = Passed"
  shows "seedKeys T a w bs P n s = Passed"
  using assms
proof (induction bs arbitrary: n s ks P)
  case Nil
  from Nil.prems(5) [of "[]" ks s] Nil.prems(1) show ?case by simp
next
  case (Cons b bs)
  show ?case
    unfolding seedKeys.simps must_def
  proof (rule call_CreateKey_seeded [OF Cons.prems(1)])
    show "n < 64" using Cons.prems(2) by simp
    show "k_KeyHash k' \<noteq> k_KeyHash (newKey a w ''user_1'' (Repeat32 b))" if "ks i = Some k'" for i k'
      using Cons.prems(4) [OF that] by simp
  next
    fix i t s'
    let ?k = "norm_key nt nm nr (stamp_key i t (newKey a w ''user_1'' (Repeat32 b)))"
    assume i: "i \<notin> dom ks" and s': "ready (Suc n) s' {w} {a} (ks(i \<mapsto> ?k))"
    have "seedKeys T a w bs (\<lambda>ids. P (i # ids)) (Suc n) s' = Passed"
    proof (rule Cons.IH [OF s'])
      show "Suc n + length bs \<le> 64" "distinct bs" using Cons.prems(2,3) by simp_all
      show "k_KeyHash k \<noteq> Repeat32 b'" if "(ks(i \<mapsto> ?k)) j = Some k" "b' \<in> set bs" for j k b'
        using that Cons.prems(3) Cons.prems(4) [of j k b'] by (auto split: if_splits)
    next
      fix ids s'' ks'
      assume ids: "distinct ids" "length ids = length bs" "set ids \<inter> dom (ks(i \<mapsto> ?k)) = {}"
          "dom ks' = dom (ks(i \<mapsto> ?k)) \<union> set ids" "\<And>j. j \<in> set ids \<Longrightarrow> k_APIID (the (ks' j)) = a"
          "\<And>j. j \<in> dom (ks(i \<mapsto> ?k)) \<Longrightarrow> ks' j = (ks(i \<mapsto> ?k)) j"
        and s'': "ready (Suc n + length bs) s'' {w} {a} ks'"
      have new: "ks' i = Some ?k" using ids(6) [of i] by simp
      have "P (i # ids) (n + length (b # bs)) s'' = Passed"
      proof (rule Cons.prems(5))
        show "k_APIID (the (ks' j)) = a" if "j \<in> set (i # ids)" for j using that ids(5) new by auto
        show "ks' j = ks j" if "j \<in> dom ks" for j using that ids(6) [of j] i by (auto split: if_splits)
      qed (use ids(1-4) i s'' in auto)
      then show "P (i # ids) (Suc n + length bs) s'' = Passed" by simp
    qed
    then show "(case Inr (stamp_key i t (newKey a w ''user_1'' (Repeat32 b))) of Inl err \<Rightarrow> fatal ''seed key''
        | Inr created \<Rightarrow> seedKeys T a w bs (\<lambda>ids. P (k_KeyID created # ids))) (Suc n) s' = Passed"
      by simp
  qed simp_all
qed

lemma seedKeys_only:
  assumes "ready n s {w} {a} Map.empty" "n + length bs \<le> 64" "distinct bs"
    and P: "\<And>ids s' ks. distinct ids \<Longrightarrow> length ids = length bs \<Longrightarrow>
      (\<And>opts. o_APIID opts = a \<Longrightarrow> o_OwnerPrincipalID opts = [] \<Longrightarrow> matching_ids ks opts = set ids) \<Longrightarrow>
      ready (n + length bs) s' {w} {a} ks \<Longrightarrow> P ids (n + length bs) s' = Passed"
  shows "seedKeys T a w bs P n s = Passed"
proof (rule seedKeys_Passed [OF assms(1-3)])
  fix ids s' ks
  assume *: "distinct ids" "length ids = length bs" "dom ks = dom Map.empty \<union> set ids"
    "\<And>i. i \<in> set ids \<Longrightarrow> k_APIID (the (ks i)) = a" "ready (n + length bs) s' {w} {a} ks"
  have "matching_ids ks opts = set ids" if "o_APIID opts = a" "o_OwnerPrincipalID opts = []" for opts
    using *(3,4) that by (force simp: matching_ids_def key_matches_def dom_def)
  with * P show "P ids (n + length bs) s' = Passed" by blast
qed simp

text \<open>One page, at an offset of the sorted identifiers.\<close>

lemma call_ListKeys_at:
  assumes "ready n s W A ks" "distinct ids" "matching_ids ks opts = set ids"
    and "after_token coll (o_PageToken opts) (sort_key coll ids) = drop m (sort_key coll ids)"
    and "\<And>page tok. (page, tok) = page_ids (page_size (o_PageSize opts)) (drop m (sort_key coll ids)) \<Longrightarrow>
      ready (Suc n) s W A ks \<Longrightarrow> P (Inr \<lparr>r_Keys = map (the \<circ> ks) page, r_NextPageToken = tok\<rparr>) (Suc n) s = Passed"
  shows "call T (\<lambda>e s. ListKeys (g_store T) e s opts) P n s = Passed"
proof (rule call_ListKeys [OF assms(1)])
  fix ids' assume ids': "distinct ids'" "set ids' = matching_ids ks opts"
  have "page_of coll ks opts ids' = page_of coll ks opts ids"
    using page_of_perm [OF ids'(1) assms(2) _ coll_inj] ids'(2) assms(3) by simp
  then show "P (Inr (page_of coll ks opts ids')) (Suc n) s = Passed"
    using assms(4,5) ready_later [OF assms(1)] by (cases "page_ids (page_size (o_PageSize opts)) (drop m (sort_key coll ids))")
      (simp add: page_of_def)
qed

lemma sorted_ids:
  assumes "ready n s W A ks" "distinct ids" "set ids \<subseteq> dom ks"
  shows "sorted (map coll (sort_key coll ids))" "distinct (map coll (sort_key coll ids))"
    "[] \<notin> set (sort_key coll ids)"
proof -
  show "distinct (map coll (sort_key coll ids))"
    using assms(2) inj_on_subset [OF coll_inj subset_UNIV] by (simp add: distinct_map)
  show "[] \<notin> set (sort_key coll ids)" using ready_key_id [OF assms(1)] assms(3) by force
qed simp

lemma list_pages_Passed:
  assumes ids: "distinct ids" "matching_ids ks (list_opts a 2 []) = set ids"
    and "ready n s W A ks" "after_token coll tok (sort_key coll ids) = drop m (sort_key coll ids)"
    and "0 < left" "length ids \<le> m + 2 * left"
    and "\<And>n s. P (set ids) n s = Passed"
  shows "list_pages left T a (set (take m (sort_key coll ids))) tok P n s = Passed"
  using assms(3-6)
proof (induction left arbitrary: n m tok)
  case (Suc left)
  let ?xs = "sort_key coll ids"
  have sub: "set ids \<subseteq> dom ks" using ids(2) by (auto simp: matching_ids_def)
  note xs = sorted_ids [OF Suc.prems(1) ids(1) sub]
  have key: "k_KeyID (the (ks i)) = i" if "i \<in> set ids" for i
    using that sub ready_key_id [OF Suc.prems(1)] by force
  show ?case
    unfolding list_pages.simps must_def
  proof (rule call_ListKeys_at [OF Suc.prems(1) ids(1), where m = m])
    show "matching_ids ks (list_opts a 2 tok) = set ids"
      using ids(2) by (simp add: matching_ids_def key_matches_def)
    show "after_token coll (o_PageToken (list_opts a 2 tok)) ?xs = drop m ?xs" using Suc.prems(2) by simp
  next
    fix page tok'
    assume "(page, tok') = page_ids (page_size (o_PageSize (list_opts a 2 tok))) (drop m ?xs)"
    then have page: "page = take 2 (drop m ?xs)" "tok' = snd (page_ids 2 (drop m ?xs))"
      by (simp_all add: page_ids_def page_size_def)
    have split: "set (take m ?xs) \<union> set page = set (take (m + 2) ?xs)"
      unfolding page(1) take_add set_append ..
    have "set page \<inter> set (take m ?xs) = {}" "distinct page" "set page \<subseteq> set ids"
      using ids(1) set_take_disj_set_drop_if_distinct [of ?xs m m] set_take_subset [of 2 "drop m ?xs"]
        set_drop_subset [of m ?xs] unfolding page(1) by auto
    then have mark: "mark_seen (map (the \<circ> ks) page) (set (take m ?xs)) = Some (set (take (m + 2) ?xs))"
      using mark_seen_new [of page "set (take m ?xs)" "the \<circ> ks"] key split by auto
    have "(if tok' = [] then P (set (take (m + 2) ?xs))
        else list_pages left T a (set (take (m + 2) ?xs)) tok' P) (Suc n) s = Passed"
    proof (cases "2 < length (drop m ?xs)")
      case True
      note nxt = after_page [OF xs Suc.prems(2) _ True, folded page(2)]
      then show ?thesis
        using Suc.IH [OF ready_later [OF Suc.prems(1)], of tok' "m + 2"] Suc.prems(4) True by simp
    next
      case False
      then have "tok' = []" "set (take (m + 2) ?xs) = set ids" by (simp_all add: page(2) page_ids_def)
      then show ?thesis using assms(7) by simp
    qed
    with mark show "(case Inr \<lparr>r_Keys = map (the \<circ> ks) page, r_NextPageToken = tok'\<rparr> of Inl err \<Rightarrow> fatal ''page''
        | Inr res \<Rightarrow> case mark_seen (r_Keys res) (set (take m ?xs)) of None \<Rightarrow> fatal ''duplicate key across pages''
          | Some seen' \<Rightarrow> if r_NextPageToken res = [] then P seen'
              else list_pages left T a seen' (r_NextPageToken res) P) (Suc n) s = Passed"
      by (simp del: add_2_eq_Suc' split: if_split_asm)
  qed
qed simp

lemma paginates_Passed:
  assumes "ready 0 s {} {} Map.empty"
  shows "testKeyListPaginates T 0 s = Passed"
  unfolding testKeyListPaginates_def
proof (rule seeded_Passed [OF assms])
  fix w :: Workspace and a :: API and s
  assume ready: "ready (Suc (Suc 0)) s {w_WorkspaceID w} {a_APIID a} Map.empty"
  show "seedKeys T (a_APIID a) (w_WorkspaceID w) (byte_range 0x80 5)
      (\<lambda>_. list_pages 10 T (a_APIID a) {} []
        (\<lambda>seen. require (card seen = 5) ''paginated through keys, want 5'' pass)) (Suc (Suc 0)) s = Passed"
  proof (rule seedKeys_only [OF ready])
    show "distinct (byte_range 0x80 5)" by (rule distinct_byte_range) simp
  next
    fix ids ks s'
    assume ids: "distinct ids" "length ids = length (byte_range 0x80 5)"
        "\<And>opts. o_APIID opts = a_APIID a \<Longrightarrow> o_OwnerPrincipalID opts = [] \<Longrightarrow> matching_ids ks opts = set ids"
      and ready: "ready (Suc (Suc 0) + length (byte_range 0x80 5)) s' {w_WorkspaceID w} {a_APIID a} ks"
    have five: "card (set ids) = 5" using distinct_card [OF ids(1)] ids(2) by simp
    show "list_pages 10 T (a_APIID a) {} []
        (\<lambda>seen. require (card seen = 5) ''paginated through keys, want 5'' pass)
        (Suc (Suc 0) + length (byte_range 0x80 5)) s' = Passed"
      using list_pages_Passed [OF ids(1) _ ready, where m = 0 and left = 10] ids(2,3) five
      by (simp add: after_token_def)
  qed simp
qed

lemma default_page_Passed:
  assumes "ready 0 s {} {} Map.empty"
  shows "testKeyListDefaultsPageSize T 0 s = Passed"
  unfolding testKeyListDefaultsPageSize_def must_def
  apply (rule seeded_Passed [OF assms])
  apply (erule seedKeys_only, simp, simp add: distinct_byte_range)
  subgoal premises prems for w a _ ids s' ks
  proof -
    note ready = prems(6) and ids = prems(3-5)
    let ?xs = "sort_key coll ids"
    have "set ids \<subseteq> dom ks" using ids(3) [of "list_opts (a_APIID a) 0 []"] by (auto simp: matching_ids_def)
    note xs = sorted_ids [OF ready ids(1) this]
    have start: "after_token coll [] ?xs = drop 0 ?xs" by (simp add: after_token_def)
    have len: "50 < length (drop 0 ?xs)" using ids(2) by simp
    have tok: "?xs ! 49 \<noteq> []" "after_token coll (?xs ! 49) ?xs = drop 50 ?xs"
      using after_page [OF xs start _ len] ids(2) by (simp_all add: page_ids_def)
    have size: "page_size 0 = 50" by (simp add: page_size_def)
    show ?thesis
      apply (rule call_ListKeys_at [OF ready ids(1), where m = 0], simp add: ids(3), simp add: start)
      apply (simp add: size page_ids_def ids(2) tok)
      apply (erule call_ListKeys_at [OF _ ids(1), where m = 50], simp add: ids(3))
       apply (simp_all add: size page_ids_def ids(2) tok)
      done
  qed
  done

text \<open>
  The order in which Go sorts the identifiers is that of the collation, and the synthetic token cuts
  off exactly the first.
\<close>

lemma tilde_token:
  assumes "ready n s W A ks" "set ids \<subseteq> dom ks" "distinct ids" "sort ids = x # xs" "xs \<noteq> []"
  shows "sort_key coll ids = x # xs" "after_token coll (x @ ''~'') (sort_key coll ids) = drop 1 (sort_key coll ids)"
proof -
  have tilde: "coll i < coll (i @ ''~'')" "coll (i @ ''~'') < coll j"
    if "i \<in> set ids" "j \<in> set ids" "i < j" for i j
  proof -
    have "i \<in> drawn ''key'' n" "j \<in> drawn ''key'' n"
      using that(1,2) assms(1,2) unfolding ready_def by blast+
    then obtain m m' s s' where "i = id_of ''key'' (g_env T m s)" "j = id_of ''key'' (g_env T m' s')"
      unfolding drawn_def by blast
    with tilde_between [of m s m' s'] that(3)
    show "coll i < coll (i @ ''~'')" "coll (i @ ''~'') < coll j" by simp_all
  qed
  have set: "set (x # xs) = set ids" and sorted: "sorted (x # xs)" and dist: "distinct (x # xs)"
    using set_sort [of "\<lambda>i. i" ids] sorted_sort [of ids] distinct_sort [of "\<lambda>i. i" ids] assms(3)
    unfolding assms(4) by auto
  have mono: "coll i \<le> coll j" if "i \<in> set (x # xs)" "j \<in> set (x # xs)" "i \<le> j" for i j
  proof (cases "i = j")
    case False
    with that have "i < j" "i \<in> set ids" "j \<in> set ids" unfolding set by simp_all
    from tilde [OF this(2,3,1)] show ?thesis by (rule order.strict_implies_order [OF order.strict_trans])
  qed simp
  have "sorted (map coll (x # xs))"
    unfolding sorted_map using mono by (rule sorted_wrt_mono_rel [OF _ sorted])
  then have "sort_key coll (x # xs) = x # xs" by (rule sort_key_id_if_sorted)
  then show xs: "sort_key coll ids = x # xs"
    using sort_key_perm_eq [OF assms(3) dist set [symmetric], of coll] inj_on_subset [OF coll_inj subset_UNIV] by simp
  have less: "x \<in> set ids \<and> j \<in> set ids \<and> x < j" if "j \<in> set xs" for j
    using that set dist sorted by (auto simp: order.strict_iff_order)
  then have "coll (x @ ''~'') < coll j" if "j \<in> set xs" for j using that tilde(2) [of x j] by blast
  then have "filter (\<lambda>i. coll (x @ ''~'') < coll i) xs = xs" by (simp add: filter_id_conv)
  moreover have "coll x < coll (x @ ''~'')"
    using less [OF hd_in_set [OF assms(5)]] tilde(1) [of x "hd xs"] by blast
  ultimately show "after_token coll (x @ ''~'') (sort_key coll ids) = drop 1 (sort_key coll ids)"
    by (simp add: after_token_def xs)
qed

lemma insertion_point_Passed:
  assumes "ready 0 s {} {} Map.empty"
  shows "testKeyListPageTokenCanSkipToInsertionPoint T 0 s = Passed"
  unfolding testKeyListPageTokenCanSkipToInsertionPoint_def must_def
  apply (rule seeded_Passed [OF assms])
  apply (erule seedKeys_only, simp, simp add: distinct_byte_range)
  subgoal premises prems for w a _ ids s' ks
  proof -
    note ready = prems(6) [simplified] and ids = prems(3-5)
    have sub: "set ids \<subseteq> dom ks" using ids(3) [of "list_opts (a_APIID a) 0 []"] by (auto simp: matching_ids_def)
    have "length (sort ids) = 3" using ids(2) by simp
    then obtain x y z where sort: "sort ids = [x, y, z]"
      by (auto simp: numeral_3_eq_3 length_Suc_conv simp del: length_sort)
    note tok = tilde_token [OF ready sub ids(1) sort, simplified]
    then have cut: "after_token coll (x @ ''~'') [x, y, z] = [y, z]" by simp
    have "set ids = {x, y, z}" using set_sort [of "\<lambda>i. i" ids] unfolding sort by simp
    with sub have key: "k_KeyID (the (ks i)) = i" if "i \<in> {y, z}" for i
      using that ready_key_id [OF ready] by fastforce
    show ?thesis
      apply (simp add: sort Let_def)
      apply (rule call_ListKeys_at [OF ready ids(1), where m = 1], simp add: ids(3), simp add: tok(1) cut)
      apply (simp add: tok(1) page_ids_def page_size_def key)
      done
  qed
  done

lemma suite_Passed:
  assumes "inv s" "view_of s = empty_view" "(name, test) \<in> set suite"
  shows "test T 0 s = Passed"
proof -
  note start = ready_start [OF assms(1,2)]
  show ?thesis
    using assms(3) unknown_Passed [OF start] testWorkspaceCreateAndGet_Passed [OF start]
      testAPICreateAndGet_Passed [OF start] key_lookup_Passed [OF start] revoke_Passed [OF start]
      rotate_Passed [OF start] touch_Passed [OF start] decrement_Passed [OF start] snapshot_Passed [OF start]
      list_unknown_Passed [OF start] list_by_api_Passed [OF start] list_by_owner_Passed [OF start]
      paginates_Passed [OF start] default_page_Passed [OF start] insertion_point_Passed [OF start]
    unfolding suite_def by auto
qed

end

section \<open>The in-memory driver under test\<close>

text \<open>
  What the Go runtime supplies in one test of the in-memory driver: a clock that is set, universally
  unique identifiers in their 36-byte form, none of them twice, and a range over the key map that
  visits every key once.
\<close>

definition mem_rig_ok :: "(mem_env, mem_store) rig \<Rightarrow> bool" where
  "mem_rig_ok T \<longleftrightarrow> g_store T = mem_Store \<and>
     (\<forall>n s. me_now (g_env T n s) \<noteq> zero_time \<and> length (me_uuid (g_env T n s)) = 36 \<and>
        (mem_inv s \<longrightarrow> mem_env_range (g_env T n s) s)) \<and>
     (\<forall>m n s s'. m < n \<longrightarrow> n < 64 \<longrightarrow> me_uuid (g_env T m s) \<noteq> me_uuid (g_env T n s'))"

lemma maps_Equal_refl [simp]: "maps_Equal m m"
  by (simp add: maps_Equal_def)

lemma tilde_after: "xs < xs @ ''~''"
  by (induction xs) auto

lemma tilde_before:
  fixes xs ys :: string
  assumes "xs < ys" "length xs = length ys"
  shows "xs @ ''~'' < ys"
  using assms by (induction xs ys rule: list_induct2') auto

lemma mem_tested:
  assumes "mem_rig_ok T"
  shows "tested_driver mem_Store mem_inv (\<lambda>e. True) mem_env_fresh mem_env_range mem_view me_now
    (\<lambda>p e. newID p (me_uuid e)) (\<lambda>t. t) (\<lambda>m. m) (\<lambda>r. r) (\<lambda>i. i) T"
proof (unfold_locales, goal_cases)
  case (10 m s n s')
  let ?i = "newID ''key'' (me_uuid (g_env T m s))" and ?j = "newID ''key'' (me_uuid (g_env T n s'))"
  have "length ?i = length ?j" using assms by (simp add: mem_rig_ok_def newID_def)
  with 10 show ?case using tilde_after tilde_before by blast
qed (use assms in \<open>auto simp: mem_rig_ok_def mem_env_fresh_def mem_view_def newID_def\<close>)

text \<open>A concrete rig: identifiers numbered by the step, the keys ranged over in sorted order.\<close>

definition step_uuid :: "nat \<Rightarrow> string" where
  "step_uuid n = replicate 35 (CHR ''0'') @ [char_of n]"

definition mem_demo_rig :: "(mem_env, mem_store) rig" where
  "mem_demo_rig = \<lparr>g_store = mem_Store,
     g_env = (\<lambda>n s. \<lparr>me_now = int n, me_uuid = step_uuid n, me_range = sorted_list_of_set (dom (m_keys s))\<rparr>),
     g_clock = int\<rparr>"

lemma step_uuid_length [simp]: "length (step_uuid n) = 36"
  by (simp add: step_uuid_def)

lemma step_uuid_eq: "m < 64 \<Longrightarrow> n < 64 \<Longrightarrow> step_uuid m = step_uuid n \<longleftrightarrow> m = n"
  by (simp add: step_uuid_def char_of_eq_iff take_bit_eq_mod)

lemma mem_view_New: "mem_view mem_New = empty_view"
  by (simp add: mem_view_def mem_New_def empty_view_def)

lemma mem_demo_rig_ok: "mem_rig_ok mem_demo_rig"
  by (auto simp: mem_rig_ok_def mem_demo_rig_def zero_time_def step_uuid_eq mem_env_range_def mem_inv_def
      mem_view_def view_ok_def)

interpretation mem_demo: tested_driver mem_Store mem_inv "\<lambda>e. True" mem_env_fresh mem_env_range mem_view me_now
  "\<lambda>p e. newID p (me_uuid e)" "\<lambda>t. t" "\<lambda>m. m" "\<lambda>r. r" "\<lambda>i. i" mem_demo_rig
  by (rule mem_tested [OF mem_demo_rig_ok])

section \<open>The Postgres driver under test\<close>

text \<open>
  Besides fresh identifiers and a database that answers, the suite needs the database to keep whole
  seconds and the sample values, and a collation that orders the identifiers as Go does and places
  the synthetic token between two of them.
\<close>

definition pg_rig_ok :: "'j pg_libs \<Rightarrow> (pg_env, 'j pg_db) rig \<Rightarrow> bool" where
  "pg_rig_ok P T \<longleftrightarrow> g_store T = pg_Store P \<and> pg_libs_ok P \<and>
     (\<forall>t. pl_time P (Truncate_Second t) = Truncate_Second t) \<and>
     pg_refs P [\<lparr>lr_LimitID = ''tokens'', lr_ScopeKey = ''user:user_1''\<rparr>] =
       [\<lparr>lr_LimitID = ''tokens'', lr_ScopeKey = ''user:user_1''\<rparr>] \<and>
     maps_Equal (pg_meta P (Some [''env'' \<mapsto> ''test''])) (Some [''env'' \<mapsto> ''test'']) \<and>
     (\<forall>n s. pg_env_up (g_env T n s) \<and> pe_now (g_env T n s) \<noteq> zero_time) \<and>
     (\<forall>m n s s'. m < n \<longrightarrow> n < 64 \<longrightarrow> pe_uuid (g_env T m s) \<noteq> pe_uuid (g_env T n s')) \<and>
     (\<forall>m n s s'. let i = pg_newID ''key'' (pe_uuid (g_env T m s)); j = pg_newID ''key'' (pe_uuid (g_env T n s'))
        in i < j \<longrightarrow> pl_coll P i < pl_coll P (i @ ''~'') \<and> pl_coll P (i @ ''~'') < pl_coll P j)"

lemma pg_tested:
  assumes "pg_rig_ok P T"
  shows "tested_driver (pg_Store P) (pg_inv P) pg_env_up pg_env_fresh (\<lambda>e s. True) (pg_view P) pe_now
    (\<lambda>p e. pg_newID p (pe_uuid e)) (pl_time P) (pg_meta P) (pg_refs P) (pl_coll P) T"
proof (intro tested_driver.intro tested_driver_axioms.intro, goal_cases)
  case 1
  show ?case
    using assms pg_database.contract [OF pg_database.intro] by (auto simp: pg_rig_ok_def)
qed (use assms in \<open>auto simp: pg_rig_ok_def pg_env_fresh_def pg_view_def dom_map_option_comp pg_newID_def Let_def\<close>)

lemma pg_empty_view: "pg_inv P pg_empty" "pg_view P pg_empty = empty_view"
  by (simp_all add: pg_inv_def pg_view_def pg_empty_def empty_view_def fun_eq_iff)

definition pg_demo_rig :: "(pg_env, json_doc pg_db) rig" where
  "pg_demo_rig = \<lparr>g_store = pg_Store pg_micro, g_env = (\<lambda>n s. pg_calm (step_uuid n)), g_clock = int\<rparr>"

lemma pg_demo_rig_ok: "pg_rig_ok pg_micro pg_demo_rig"
proof -
  have "(t - t mod 1000000000) div 1000 * 1000 = t - t mod 1000000000" for t :: int
  proof -
    have "t - t mod 1000000000 = 1000 * (1000000 * (t div 1000000000))" by (simp add: minus_mod_eq_mult_div)
    then show ?thesis by simp
  qed
  moreover have "pg_newID ''key'' (step_uuid m) @ ''~'' < pg_newID ''key'' (step_uuid n)"
    if "pg_newID ''key'' (step_uuid m) < pg_newID ''key'' (step_uuid n)" for m n
    by (rule tilde_before [OF that]) (simp add: pg_newID_def)
  ultimately show ?thesis
    by (auto simp: pg_rig_ok_def pg_demo_rig_def Truncate_Second_def pg_micro_def pg_refs_def pg_meta_def
        marshalMetadata_def unmarshalMetadata_def pg_calm_def zero_time_def step_uuid_eq tilde_after
        Let_def pg_libs_ok_def pg_env_up_def)
qed

interpretation pg_demo: tested_driver "pg_Store pg_micro" "pg_inv pg_micro" pg_env_up pg_env_fresh "\<lambda>e s. True"
  "pg_view pg_micro" pe_now "\<lambda>p e. pg_newID p (pe_uuid e)" "pl_time pg_micro" "pg_meta pg_micro" "pg_refs pg_micro"
  "pl_coll pg_micro" pg_demo_rig
  by (rule pg_tested [OF pg_demo_rig_ok])

section \<open>Properties\<close>

text \<open>
  The result of a run in which every test of the suite passed.
\<close>

definition all_passed :: "(string \<times> outcome) list" where
  "all_passed = map (\<lambda>(name, _ :: (unit, unit) rig \<Rightarrow> unit test). (name, Passed)) suite"

lemma conformance_Run_all_passed:
  fixes T :: "nat \<Rightarrow> ('e, 's) rig"
  assumes "\<And>i name test. (name, test) \<in> set suite \<Longrightarrow> test (T i) 0 (newStore i) = Passed"
  shows "conformance_Run T newStore = all_passed"
proof -
  let ?suite = "suite :: (string \<times> (('e, 's) rig \<Rightarrow> 's test)) list"
  have names: "map fst ?suite =
      map fst (suite :: (string \<times> ((unit, unit) rig \<Rightarrow> unit test)) list)"
    by (simp add: suite_def)
  have "conformance_Run T newStore = map ((\<lambda>name. (name, Passed)) \<circ> (fst \<circ> snd)) (enumerate 0 ?suite)"
    unfolding conformance_Run_def
  proof (rule map_cong [OF refl], clarify)
    fix i name test assume "(i, name, test) \<in> set (enumerate 0 ?suite)"
    then have "(name, test) \<in> set suite" unfolding enumerate_eq_zip by (rule set_zip_rightD)
    from assms [OF this] show "(name, test (T i) 0 (newStore i)) =
        ((\<lambda>name. (name, Passed)) \<circ> (fst \<circ> snd)) (i, name, test)" by simp
  qed
  also have "\<dots> = map (\<lambda>name. (name, Passed)) (map fst ?suite)"
    by (metis map_map map_snd_enumerate)
  also have "\<dots> = all_passed" unfolding names by (simp add: all_passed_def split_def comp_def)
  finally show ?thesis .
qed

text \<open>
  C18: The in-memory driver passes every modelled test of the conformance suite, for every clock,
  every supply of unique identifiers and every order in which the key map may be ranged over.
\<close>

theorem mem_passes_conformance:
  assumes "\<And>i. mem_rig_ok (T i)"
  shows "conformance_Run T (\<lambda>i. mem_New) = all_passed"
proof (rule conformance_Run_all_passed)
  fix i name and test :: "(mem_env, mem_store) rig \<Rightarrow> mem_store test"
  assume "(name, test) \<in> set suite"
  then show "test (T i) 0 mem_New = Passed"
    using tested_driver.suite_Passed [OF mem_tested [OF assms]] by (simp add: mem_view_New)
qed

theorem mem_passes_conformance_witness:
  "conformance_Run (\<lambda>i. mem_demo_rig) (\<lambda>i. mem_New) = all_passed"
  by (rule mem_passes_conformance) (rule mem_demo_rig_ok)

text \<open>
  C19: The Postgres driver passes the same tests, each started on empty tables, over every database
  that answers, keeps the sample values and collates the identifiers as the suite expects.
\<close>

theorem pg_passes_conformance:
  assumes "\<And>i. pg_rig_ok P (T i)"
  shows "conformance_Run T (\<lambda>i. pg_empty) = all_passed"
proof (rule conformance_Run_all_passed)
  fix i name and test :: "(pg_env, 'a pg_db) rig \<Rightarrow> 'a pg_db test"
  assume "(name, test) \<in> set suite"
  then show "test (T i) 0 pg_empty = Passed"
    using tested_driver.suite_Passed [OF pg_tested [OF assms], of pg_empty] by (simp add: pg_empty_view)
qed

theorem pg_passes_conformance_witness:
  "conformance_Run (\<lambda>i. pg_demo_rig) (\<lambda>i. pg_empty) = all_passed"
  by (rule pg_passes_conformance) (rule pg_demo_rig_ok)

end
