(* ===== verification/KC_Heap.thy ===== *)
theory KC_Heap
  imports KC_Conformance
begin

text \<open>
  The in-memory driver with its references. \<open>KC_Memory\<close> models the driver on values, where a copy is
  its original; here slices, maps and pointers are addresses of a heap, the clone helpers allocate, and
  callers keep references to what they passed in and got back.

  The heap keeps one map per Go type, as memory safety lets it, and one allocation limit. \<open>sep\<close> says
  that no address the driver holds is known to a caller. Every method keeps it and, read through the
  heap, does what the method on values does (\<open>heap_exec_refines\<close>); so whatever callers write through
  their references between calls, the driver behaves like the value-level one (\<open>heap_run_refines\<close>).
\<close>

unbundle bit_operations_syntax

section \<open>Heap\<close>

type_synonym addr = nat

text \<open>A slice: nil, or a backing array with an offset and a length.\<close>

type_synonym slice = "(addr \<times> nat \<times> nat) option"

record heap =
  hp_bytes :: "addr \<Rightarrow> bytes"
  hp_strings :: "addr \<Rightarrow> string list"
  hp_refs :: "addr \<Rightarrow> LimitRef list"
  hp_times :: "addr \<Rightarrow> gotime"
  hp_maps :: "addr \<Rightarrow> (string \<rightharpoonup> string)"
  hp_lim :: addr

definition slice_read :: "(addr \<Rightarrow> 'a list) \<Rightarrow> slice \<Rightarrow> 'a list" where
  "slice_read f sl = (case sl of None \<Rightarrow> [] | Some (a, off, len) \<Rightarrow> take len (drop off (f a)))"

definition slice_addrs :: "slice \<Rightarrow> addr set" where
  "slice_addrs sl = (case sl of None \<Rightarrow> {} | Some (a, _, _) \<Rightarrow> {a})"

text \<open>Two heaps agree on a set of addresses.\<close>

definition heap_agree :: "addr set \<Rightarrow> heap \<Rightarrow> heap \<Rightarrow> bool" where
  "heap_agree A h h' \<longleftrightarrow> (\<forall>a \<in> A. hp_bytes h' a = hp_bytes h a \<and> hp_strings h' a = hp_strings h a \<and>
     hp_refs h' a = hp_refs h a \<and> hp_times h' a = hp_times h a \<and> hp_maps h' a = hp_maps h a)"

section \<open>Records with references\<close>

record HWorkspace =
  hw_WorkspaceID :: string
  hw_Name :: string
  hw_OwnerPrincipalID :: string
  hw_CreatedAt :: gotime
  hw_UpdatedAt :: gotime
  hw_Metadata :: "addr option"

record HAPI =
  ha_APIID :: string
  ha_WorkspaceID :: string
  ha_Name :: string
  ha_KeyPrefix :: string
  ha_CreatedAt :: gotime
  ha_UpdatedAt :: gotime
  ha_Metadata :: "addr option"

record HKey =
  hk_KeyID :: string
  hk_APIID :: string
  hk_WorkspaceID :: string
  hk_OwnerPrincipalID :: string
  hk_Name :: string
  hk_KeyHash :: slice
  hk_Permissions :: slice
  hk_LimitRefs :: slice
  hk_ExpiresAt :: "addr option"
  hk_RemainingUses :: int64
  hk_Enabled :: bool
  hk_CreatedAt :: gotime
  hk_UpdatedAt :: gotime
  hk_LastVerifiedAt :: "addr option"
  hk_Metadata :: "addr option"

text \<open>The value of a record in a heap, and the addresses it holds.\<close>

definition ws_val :: "heap \<Rightarrow> HWorkspace \<Rightarrow> Workspace" where
  "ws_val h w = \<lparr>w_WorkspaceID = hw_WorkspaceID w, w_Name = hw_Name w,
     w_OwnerPrincipalID = hw_OwnerPrincipalID w, w_CreatedAt = hw_CreatedAt w, w_UpdatedAt = hw_UpdatedAt w,
     w_Metadata = map_option (hp_maps h) (hw_Metadata w)\<rparr>"

definition api_val :: "heap \<Rightarrow> HAPI \<Rightarrow> API" where
  "api_val h a = \<lparr>a_APIID = ha_APIID a, a_WorkspaceID = ha_WorkspaceID a, a_Name = ha_Name a,
     a_KeyPrefix = ha_KeyPrefix a, a_CreatedAt = ha_CreatedAt a, a_UpdatedAt = ha_UpdatedAt a,
     a_Metadata = map_option (hp_maps h) (ha_Metadata a)\<rparr>"

definition key_val :: "heap \<Rightarrow> HKey \<Rightarrow> Key" where
  "key_val h k = \<lparr>k_KeyID = hk_KeyID k, k_APIID = hk_APIID k, k_WorkspaceID = hk_WorkspaceID k,
     k_OwnerPrincipalID = hk_OwnerPrincipalID k, k_Name = hk_Name k,
     k_KeyHash = slice_read (hp_bytes h) (hk_KeyHash k),
     k_Permissions = slice_read (hp_strings h) (hk_Permissions k),
     k_LimitRefs = slice_read (hp_refs h) (hk_LimitRefs k),
     k_ExpiresAt = map_option (hp_times h) (hk_ExpiresAt k), k_RemainingUses = hk_RemainingUses k,
     k_Enabled = hk_Enabled k, k_CreatedAt = hk_CreatedAt k, k_UpdatedAt = hk_UpdatedAt k,
     k_LastVerifiedAt = map_option (hp_times h) (hk_LastVerifiedAt k),
     k_Metadata = map_option (hp_maps h) (hk_Metadata k)\<rparr>"

definition ws_addrs :: "HWorkspace \<Rightarrow> addr set" where
  "ws_addrs w = set_option (hw_Metadata w)"

definition api_addrs :: "HAPI \<Rightarrow> addr set" where
  "api_addrs a = set_option (ha_Metadata a)"

definition key_addrs :: "HKey \<Rightarrow> addr set" where
  "key_addrs k = slice_addrs (hk_KeyHash k) \<union> slice_addrs (hk_Permissions k) \<union> slice_addrs (hk_LimitRefs k) \<union>
     set_option (hk_ExpiresAt k) \<union> set_option (hk_LastVerifiedAt k) \<union> set_option (hk_Metadata k)"

section \<open>Allocation and the clone helpers\<close>

text \<open>\<open>append([]T(nil), xs...)\<close>: nil for no elements, else a new array with the elements.\<close>

definition append_bytes :: "slice \<Rightarrow> heap \<Rightarrow> slice \<times> heap" where
  "append_bytes sl h =
     (let xs = slice_read (hp_bytes h) sl
      in if xs = [] then (None, h)
         else (Some (hp_lim h, 0, length xs),
               h\<lparr>hp_bytes := (hp_bytes h)(hp_lim h := xs), hp_lim := Suc (hp_lim h)\<rparr>))"

definition append_strings :: "slice \<Rightarrow> heap \<Rightarrow> slice \<times> heap" where
  "append_strings sl h =
     (let xs = slice_read (hp_strings h) sl
      in if xs = [] then (None, h)
         else (Some (hp_lim h, 0, length xs),
               h\<lparr>hp_strings := (hp_strings h)(hp_lim h := xs), hp_lim := Suc (hp_lim h)\<rparr>))"

definition append_refs :: "slice \<Rightarrow> heap \<Rightarrow> slice \<times> heap" where
  "append_refs sl h =
     (let xs = slice_read (hp_refs h) sl
      in if xs = [] then (None, h)
         else (Some (hp_lim h, 0, length xs),
               h\<lparr>hp_refs := (hp_refs h)(hp_lim h := xs), hp_lim := Suc (hp_lim h)\<rparr>))"

definition new_time :: "gotime \<Rightarrow> heap \<Rightarrow> addr \<times> heap" where
  "new_time t h = (hp_lim h, h\<lparr>hp_times := (hp_times h)(hp_lim h := t), hp_lim := Suc (hp_lim h)\<rparr>)"

definition heap_cloneTimePtr :: "addr option \<Rightarrow> heap \<Rightarrow> addr option \<times> heap" where
  "heap_cloneTimePtr t h =
     (case t of None \<Rightarrow> (None, h) | Some a \<Rightarrow> (case new_time (hp_times h a) h of (b, h') \<Rightarrow> (Some b, h')))"

text \<open>\<open>maps.Clone\<close>: nil stays nil, any other map is copied, an empty one too.\<close>

definition maps_Clone :: "addr option \<Rightarrow> heap \<Rightarrow> addr option \<times> heap" where
  "maps_Clone m h =
     (case m of
        None \<Rightarrow> (None, h)
      | Some a \<Rightarrow> (Some (hp_lim h), h\<lparr>hp_maps := (hp_maps h)(hp_lim h := hp_maps h a), hp_lim := Suc (hp_lim h)\<rparr>))"

definition heap_cloneWorkspace :: "HWorkspace \<Rightarrow> heap \<Rightarrow> HWorkspace \<times> heap" where
  "heap_cloneWorkspace w h = (case maps_Clone (hw_Metadata w) h of (m, h) \<Rightarrow> (w\<lparr>hw_Metadata := m\<rparr>, h))"

definition heap_cloneAPI :: "HAPI \<Rightarrow> heap \<Rightarrow> HAPI \<times> heap" where
  "heap_cloneAPI a h = (case maps_Clone (ha_Metadata a) h of (m, h) \<Rightarrow> (a\<lparr>ha_Metadata := m\<rparr>, h))"

definition heap_cloneKey :: "HKey \<Rightarrow> heap \<Rightarrow> HKey \<times> heap" where
  "heap_cloneKey k h =
     (case append_bytes (hk_KeyHash k) h of (kh, h) \<Rightarrow>
      case append_strings (hk_Permissions k) h of (perms, h) \<Rightarrow>
      case append_refs (hk_LimitRefs k) h of (refs, h) \<Rightarrow>
      case heap_cloneTimePtr (hk_ExpiresAt k) h of (ex, h) \<Rightarrow>
      case heap_cloneTimePtr (hk_LastVerifiedAt k) h of (lv, h) \<Rightarrow>
      case maps_Clone (hk_Metadata k) h of (m, h) \<Rightarrow>
        (k\<lparr>hk_KeyHash := kh, hk_Permissions := perms, hk_LimitRefs := refs, hk_ExpiresAt := ex,
           hk_LastVerifiedAt := lv, hk_Metadata := m\<rparr>, h))"

section \<open>The driver\<close>

record heap_store =
  hs_workspaces :: "string \<rightharpoonup> HWorkspace"
  hs_apis :: "string \<rightharpoonup> HAPI"
  hs_keys :: "string \<rightharpoonup> HKey"
  hs_hashIndex :: "string \<rightharpoonup> string"

definition heap_New :: heap_store where
  "heap_New = \<lparr>hs_workspaces = Map.empty, hs_apis = Map.empty, hs_keys = Map.empty, hs_hashIndex = Map.empty\<rparr>"

definition zero_HKey :: HKey where
  "zero_HKey = \<lparr>hk_KeyID = [], hk_APIID = [], hk_WorkspaceID = [], hk_OwnerPrincipalID = [], hk_Name = [],
     hk_KeyHash = None, hk_Permissions = None, hk_LimitRefs = None, hk_ExpiresAt = None, hk_RemainingUses = 0,
     hk_Enabled = False, hk_CreatedAt = zero_time, hk_UpdatedAt = zero_time, hk_LastVerifiedAt = None,
     hk_Metadata = None\<rparr>"

definition heap_CreateWorkspace ::
  "mem_env \<Rightarrow> heap \<Rightarrow> heap_store \<Rightarrow> HWorkspace \<Rightarrow> (goerr + HWorkspace) \<times> heap \<times> heap_store" where
  "heap_CreateWorkspace e h s w =
     (let now = me_now e;
          w = w\<lparr>hw_WorkspaceID := newID ''ws'' (me_uuid e), hw_CreatedAt := now, hw_UpdatedAt := now\<rparr>;
          (stored, h) = heap_cloneWorkspace w h;
          s = s\<lparr>hs_workspaces := (hs_workspaces s)(hw_WorkspaceID w \<mapsto> stored)\<rparr>;
          (ret, h) = heap_cloneWorkspace w h
      in (Inr ret, h, s))"

definition heap_GetWorkspace ::
  "heap \<Rightarrow> heap_store \<Rightarrow> string \<Rightarrow> (goerr + HWorkspace) \<times> heap \<times> heap_store" where
  "heap_GetWorkspace h s i =
     (case hs_workspaces s i of
        None \<Rightarrow> (Inl (Sentinel ErrNotFound), h, s)
      | Some w \<Rightarrow> (case heap_cloneWorkspace w h of (ret, h) \<Rightarrow> (Inr ret, h, s)))"

definition heap_CreateAPI ::
  "mem_env \<Rightarrow> heap \<Rightarrow> heap_store \<Rightarrow> HAPI \<Rightarrow> (goerr + HAPI) \<times> heap \<times> heap_store" where
  "heap_CreateAPI e h s a =
     (if ha_WorkspaceID a \<notin> dom (hs_workspaces s)
      then (Inl (Wrapf ''workspace %q: %w'' (Some (ha_WorkspaceID a)) (Sentinel ErrNotFound)), h, s)
      else
        let now = me_now e;
            a = a\<lparr>ha_APIID := newID ''api'' (me_uuid e), ha_CreatedAt := now, ha_UpdatedAt := now\<rparr>;
            (stored, h) = heap_cloneAPI a h;
            s = s\<lparr>hs_apis := (hs_apis s)(ha_APIID a \<mapsto> stored)\<rparr>;
            (ret, h) = heap_cloneAPI a h
        in (Inr ret, h, s))"

definition heap_GetAPI :: "heap \<Rightarrow> heap_store \<Rightarrow> string \<Rightarrow> (goerr + HAPI) \<times> heap \<times> heap_store" where
  "heap_GetAPI h s i =
     (case hs_apis s i of
        None \<Rightarrow> (Inl (Sentinel ErrNotFound), h, s)
      | Some a \<Rightarrow> (case heap_cloneAPI a h of (ret, h) \<Rightarrow> (Inr ret, h, s)))"

definition heap_CreateKey ::
  "mem_env \<Rightarrow> heap \<Rightarrow> heap_store \<Rightarrow> HKey \<Rightarrow> (goerr + HKey) \<times> heap \<times> heap_store" where
  "heap_CreateKey e h s k =
     (if hk_APIID k \<notin> dom (hs_apis s)
      then (Inl (Wrapf ''api %q: %w'' (Some (hk_APIID k)) (Sentinel ErrNotFound)), h, s)
      else
        let hashKey = bytes_string (slice_read (hp_bytes h) (hk_KeyHash k))
        in if hashKey \<in> dom (hs_hashIndex s) then (Inl (Sentinel ErrConflict), h, s)
           else
             let now = me_now e;
                 k = k\<lparr>hk_KeyID := newID ''key'' (me_uuid e), hk_CreatedAt := now, hk_UpdatedAt := now\<rparr>;
                 (k, h) = heap_cloneKey k h;
                 s = s\<lparr>hs_keys := (hs_keys s)(hk_KeyID k \<mapsto> k),
                       hs_hashIndex := (hs_hashIndex s)(hashKey \<mapsto> hk_KeyID k)\<rparr>;
                 (ret, h) = heap_cloneKey k h
             in (Inr ret, h, s))"

definition heap_GetKeyByID :: "heap \<Rightarrow> heap_store \<Rightarrow> string \<Rightarrow> (goerr + HKey) \<times> heap \<times> heap_store" where
  "heap_GetKeyByID h s i =
     (case hs_keys s i of
        None \<Rightarrow> (Inl (Sentinel ErrNotFound), h, s)
      | Some k \<Rightarrow> (case heap_cloneKey k h of (ret, h) \<Rightarrow> (Inr ret, h, s)))"

definition heap_GetKeyByHash :: "heap \<Rightarrow> heap_store \<Rightarrow> slice \<Rightarrow> (goerr + HKey) \<times> heap \<times> heap_store" where
  "heap_GetKeyByHash h s hash =
     (case hs_hashIndex s (bytes_string (slice_read (hp_bytes h) hash)) of
        None \<Rightarrow> (Inl (Sentinel ErrNotFound), h, s)
      | Some i \<Rightarrow>
          (case heap_cloneKey (case hs_keys s i of None \<Rightarrow> zero_HKey | Some k \<Rightarrow> k) h of
             (ret, h) \<Rightarrow> (Inr ret, h, s)))"

definition heap_RevokeKey ::
  "mem_env \<Rightarrow> heap \<Rightarrow> heap_store \<Rightarrow> string \<Rightarrow> (goerr + unit) \<times> heap \<times> heap_store" where
  "heap_RevokeKey e h s i =
     (case hs_keys s i of
        None \<Rightarrow> (Inl (Sentinel ErrNotFound), h, s)
      | Some k \<Rightarrow>
          if \<not> hk_Enabled k then (Inr (), h, s)
          else (Inr (), h, s\<lparr>hs_keys := (hs_keys s)(i \<mapsto> k\<lparr>hk_Enabled := False, hk_UpdatedAt := me_now e\<rparr>)\<rparr>))"

definition heap_RotateKey ::
  "mem_env \<Rightarrow> heap \<Rightarrow> heap_store \<Rightarrow> string \<Rightarrow> slice \<Rightarrow> (goerr + HKey) \<times> heap \<times> heap_store" where
  "heap_RotateKey e h s i newHash =
     (case hs_keys s i of
        None \<Rightarrow> (Inl (Sentinel ErrNotFound), h, s)
      | Some k \<Rightarrow>
          let newHashKey = bytes_string (slice_read (hp_bytes h) newHash)
          in if (case hs_hashIndex s newHashKey of None \<Rightarrow> False | Some existingID \<Rightarrow> existingID \<noteq> i)
             then (Inl (Sentinel ErrConflict), h, s)
             else
               let idx = (hs_hashIndex s)(bytes_string (slice_read (hp_bytes h) (hk_KeyHash k)) := None);
                   (kh, h) = append_bytes newHash h;
                   k = k\<lparr>hk_KeyHash := kh, hk_UpdatedAt := me_now e\<rparr>;
                   s = s\<lparr>hs_keys := (hs_keys s)(i \<mapsto> k), hs_hashIndex := idx(newHashKey \<mapsto> i)\<rparr>;
                   (ret, h) = heap_cloneKey k h
               in (Inr ret, h, s))"

primrec heap_collect_ids :: "ListKeysOpts \<Rightarrow> (string \<rightharpoonup> HKey) \<Rightarrow> string list \<Rightarrow> string list" where
  "heap_collect_ids opts ks [] = []"
| "heap_collect_ids opts ks (i # order) =
     (case ks i of
        None \<Rightarrow> heap_collect_ids opts ks order
      | Some k \<Rightarrow>
          if hk_APIID k \<noteq> o_APIID opts then heap_collect_ids opts ks order
          else if o_OwnerPrincipalID opts \<noteq> [] \<and> hk_OwnerPrincipalID k \<noteq> o_OwnerPrincipalID opts
          then heap_collect_ids opts ks order
          else i # heap_collect_ids opts ks order)"

text \<open>The loop that clones the keys of the page into the result.\<close>

primrec heap_clone_all :: "(string \<rightharpoonup> HKey) \<Rightarrow> string list \<Rightarrow> heap \<Rightarrow> HKey list \<times> heap" where
  "heap_clone_all ks [] h = ([], h)"
| "heap_clone_all ks (i # is) h =
     (let (k, h) = heap_cloneKey (case ks i of None \<Rightarrow> zero_HKey | Some k \<Rightarrow> k) h;
          (out, h) = heap_clone_all ks is h
      in (k # out, h))"

definition heap_ListKeys ::
  "mem_env \<Rightarrow> heap \<Rightarrow> heap_store \<Rightarrow> ListKeysOpts \<Rightarrow> (goerr + HKey list \<times> string) \<times> heap \<times> heap_store" where
  "heap_ListKeys e h s opts =
     (let ids = sort (heap_collect_ids opts (hs_keys s) (me_range e));
          start = (if o_PageToken opts \<noteq> [] then
                     let i = sort_SearchStrings ids (o_PageToken opts)
                     in if i < length ids \<and> ids ! i = o_PageToken opts then i + 1 else i
                   else 0);
          pageSize = (if sint (o_PageSize opts) \<le> 0 then 50 else nat (sint (o_PageSize opts)));
          stop = (if start + pageSize > length ids then length ids else start + pageSize);
          (out, h) = heap_clone_all (hs_keys s) (drop start (take stop ids)) h;
          nxt = (if stop < length ids then ids ! (stop - 1) else [])
      in (Inr (out, nxt), h, s))"

definition heap_TouchLastVerified ::
  "heap \<Rightarrow> heap_store \<Rightarrow> string \<Rightarrow> gotime \<Rightarrow> (goerr + unit) \<times> heap \<times> heap_store" where
  "heap_TouchLastVerified h s i at =
     (case hs_keys s i of
        None \<Rightarrow> (Inl (Sentinel ErrNotFound), h, s)
      | Some k \<Rightarrow>
          (case new_time at h of
             (a, h) \<Rightarrow> (Inr (), h, s\<lparr>hs_keys := (hs_keys s)(i \<mapsto> k\<lparr>hk_LastVerifiedAt := Some a\<rparr>)\<rparr>)))"

definition heap_DecrementRemainingUses ::
  "mem_env \<Rightarrow> heap \<Rightarrow> heap_store \<Rightarrow> string \<Rightarrow> (int64 \<times> goerr option) \<times> heap \<times> heap_store" where
  "heap_DecrementRemainingUses e h s i =
     (case hs_keys s i of
        None \<Rightarrow> ((0, Some (Sentinel ErrNotFound)), h, s)
      | Some k \<Rightarrow>
          if sint (hk_RemainingUses k) < 0 then ((-1, None), h, s)
          else if hk_RemainingUses k = 0 then ((0, Some (Sentinel ErrDepleted)), h, s)
          else
            let k = k\<lparr>hk_RemainingUses := hk_RemainingUses k - 1, hk_UpdatedAt := me_now e\<rparr>
            in ((hk_RemainingUses k, None), h, s\<lparr>hs_keys := (hs_keys s)(i \<mapsto> k)\<rparr>))"

section \<open>Calls\<close>

text \<open>
  The twelve methods as one request type, over the types of the records that cross the interface, so
  that a request or response with references maps to the one with values.
\<close>

datatype ('w, 'a, 'k, 'b) request =
    QCreateWorkspace 'w | QGetWorkspace string | QCreateAPI 'a | QGetAPI string | QCreateKey 'k
  | QGetKeyByID string | QGetKeyByHash 'b | QRevokeKey string | QRotateKey string 'b
  | QListKeys ListKeysOpts | QTouchLastVerified string gotime | QDecrementRemainingUses string

datatype ('w, 'a, 'k) response =
    AError goerr | AWorkspace 'w | AAPI 'a | AKey 'k | ADone | AKeys "'k list" string
  | ACount int64 "goerr option"

definition answer :: "('v \<Rightarrow> ('w, 'a, 'k) response) \<Rightarrow> goerr + 'v \<Rightarrow> ('w, 'a, 'k) response" where
  "answer f res = (case res of Inl err \<Rightarrow> AError err | Inr v \<Rightarrow> f v)"

lemma answer_simps [simp]: "answer f (Inl err) = AError err" "answer f (Inr v) = f v"
  by (simp_all add: answer_def)

fun mem_exec ::
  "mem_env \<Rightarrow> mem_store \<Rightarrow> (Workspace, API, Key, bytes) request \<Rightarrow> (Workspace, API, Key) response \<times> mem_store" where
  "mem_exec e s (QCreateWorkspace w) = map_prod (answer AWorkspace) id (mem_CreateWorkspace e s w)"
| "mem_exec e s (QGetWorkspace i) = map_prod (answer AWorkspace) id (mem_GetWorkspace e s i)"
| "mem_exec e s (QCreateAPI a) = map_prod (answer AAPI) id (mem_CreateAPI e s a)"
| "mem_exec e s (QGetAPI i) = map_prod (answer AAPI) id (mem_GetAPI e s i)"
| "mem_exec e s (QCreateKey k) = map_prod (answer AKey) id (mem_CreateKey e s k)"
| "mem_exec e s (QGetKeyByID i) = map_prod (answer AKey) id (mem_GetKeyByID e s i)"
| "mem_exec e s (QGetKeyByHash b) = map_prod (answer AKey) id (mem_GetKeyByHash e s b)"
| "mem_exec e s (QRevokeKey i) = map_prod (answer (\<lambda>_. ADone)) id (mem_RevokeKey e s i)"
| "mem_exec e s (QRotateKey i b) = map_prod (answer AKey) id (mem_RotateKey e s i b)"
| "mem_exec e s (QListKeys opts) =
     map_prod (answer (\<lambda>r. AKeys (r_Keys r) (r_NextPageToken r))) id (mem_ListKeys e s opts)"
| "mem_exec e s (QTouchLastVerified i t) = map_prod (answer (\<lambda>_. ADone)) id (mem_TouchLastVerified e s i t)"
| "mem_exec e s (QDecrementRemainingUses i) = map_prod (\<lambda>(n, err). ACount n err) id (mem_DecrementRemainingUses e s i)"

fun heap_exec ::
  "mem_env \<Rightarrow> heap \<Rightarrow> heap_store \<Rightarrow> (HWorkspace, HAPI, HKey, slice) request \<Rightarrow>
   (HWorkspace, HAPI, HKey) response \<times> heap \<times> heap_store" where
  "heap_exec e h s (QCreateWorkspace w) = map_prod (answer AWorkspace) id (heap_CreateWorkspace e h s w)"
| "heap_exec e h s (QGetWorkspace i) = map_prod (answer AWorkspace) id (heap_GetWorkspace h s i)"
| "heap_exec e h s (QCreateAPI a) = map_prod (answer AAPI) id (heap_CreateAPI e h s a)"
| "heap_exec e h s (QGetAPI i) = map_prod (answer AAPI) id (heap_GetAPI h s i)"
| "heap_exec e h s (QCreateKey k) = map_prod (answer AKey) id (heap_CreateKey e h s k)"
| "heap_exec e h s (QGetKeyByID i) = map_prod (answer AKey) id (heap_GetKeyByID h s i)"
| "heap_exec e h s (QGetKeyByHash b) = map_prod (answer AKey) id (heap_GetKeyByHash h s b)"
| "heap_exec e h s (QRevokeKey i) = map_prod (answer (\<lambda>_. ADone)) id (heap_RevokeKey e h s i)"
| "heap_exec e h s (QRotateKey i b) = map_prod (answer AKey) id (heap_RotateKey e h s i b)"
| "heap_exec e h s (QListKeys opts) = map_prod (answer (\<lambda>(ks, tok). AKeys ks tok)) id (heap_ListKeys e h s opts)"
| "heap_exec e h s (QTouchLastVerified i t) = map_prod (answer (\<lambda>_. ADone)) id (heap_TouchLastVerified h s i t)"
| "heap_exec e h s (QDecrementRemainingUses i) =
     map_prod (\<lambda>(n, err). ACount n err) id (heap_DecrementRemainingUses e h s i)"

text \<open>Requests and responses read through a heap, and the addresses they hand over.\<close>

definition request_val ::
  "heap \<Rightarrow> (HWorkspace, HAPI, HKey, slice) request \<Rightarrow> (Workspace, API, Key, bytes) request" where
  "request_val h = map_request (ws_val h) (api_val h) (key_val h) (slice_read (hp_bytes h))"

definition response_val :: "heap \<Rightarrow> (HWorkspace, HAPI, HKey) response \<Rightarrow> (Workspace, API, Key) response" where
  "response_val h = map_response (ws_val h) (api_val h) (key_val h)"

definition request_addrs :: "(HWorkspace, HAPI, HKey, slice) request \<Rightarrow> addr set" where
  "request_addrs q = (\<Union>w \<in> set1_request q. ws_addrs w) \<union> (\<Union>a \<in> set2_request q. api_addrs a) \<union>
     (\<Union>k \<in> set3_request q. key_addrs k) \<union> (\<Union>b \<in> set4_request q. slice_addrs b)"

definition response_addrs :: "(HWorkspace, HAPI, HKey) response \<Rightarrow> addr set" where
  "response_addrs r = (\<Union>w \<in> set1_response r. ws_addrs w) \<union> (\<Union>a \<in> set2_response r. api_addrs a) \<union>
     (\<Union>k \<in> set3_response r. key_addrs k)"

section \<open>Ownership\<close>

definition owned :: "heap_store \<Rightarrow> addr set" where
  "owned s = (\<Union>w \<in> ran (hs_workspaces s). ws_addrs w) \<union> (\<Union>a \<in> ran (hs_apis s). api_addrs a) \<union>
     (\<Union>k \<in> ran (hs_keys s). key_addrs k)"

text \<open>What the callers know (\<open>C\<close>) and what the driver holds are allocated and disjoint.\<close>

definition sep :: "heap \<Rightarrow> heap_store \<Rightarrow> addr set \<Rightarrow> bool" where
  "sep h s C \<longleftrightarrow> owned s \<inter> C = {} \<and> owned s \<subseteq> {..<hp_lim h} \<and> C \<subseteq> {..<hp_lim h}"

definition store_val :: "heap \<Rightarrow> heap_store \<Rightarrow> mem_store" where
  "store_val h s = \<lparr>m_workspaces = map_option (ws_val h) \<circ> hs_workspaces s,
     m_apis = map_option (api_val h) \<circ> hs_apis s, m_keys = map_option (key_val h) \<circ> hs_keys s,
     m_hashIndex = hs_hashIndex s\<rparr>"

text \<open>The driver only ever allocates: what was allocated stays as it is.\<close>

definition extends :: "heap \<Rightarrow> heap \<Rightarrow> bool" where
  "extends h h' \<longleftrightarrow> hp_lim h \<le> hp_lim h' \<and> heap_agree {..<hp_lim h} h h'"

lemma extends_refl [simp]: "extends h h"
  by (simp add: extends_def heap_agree_def)

lemma extends_trans: "extends h h1 \<Longrightarrow> extends h1 h2 \<Longrightarrow> extends h h2"
  by (auto simp: extends_def heap_agree_def)

lemma slice_read_cong: "(\<And>a. a \<in> slice_addrs sl \<Longrightarrow> f a = g a) \<Longrightarrow> slice_read f sl = slice_read g sl"
  by (auto simp: slice_read_def slice_addrs_def split: option.splits)

lemma slice_read_simps [simp]: "slice_read f None = []" "slice_read f (Some (a, off, len)) = take len (drop off (f a))"
  by (simp_all add: slice_read_def)

lemma slice_addrs_simps [simp]: "slice_addrs None = {}" "slice_addrs (Some (a, x)) = {a}"
  by (simp_all add: slice_addrs_def split: prod.split)

text \<open>A value depends only on the addresses it holds.\<close>

lemma val_agree:
  assumes "heap_agree A h h'"
  shows "ws_addrs w \<subseteq> A \<Longrightarrow> ws_val h' w = ws_val h w"
    and "api_addrs a \<subseteq> A \<Longrightarrow> api_val h' a = api_val h a"
    and "key_addrs k \<subseteq> A \<Longrightarrow> key_val h' k = key_val h k"
    and "slice_addrs sl \<subseteq> A \<Longrightarrow> slice_read (hp_bytes h') sl = slice_read (hp_bytes h) sl"
proof -
  have opt: "map_option f x = map_option g x" if "\<And>a. a \<in> set_option x \<Longrightarrow> f a = g a" for f g :: "addr \<Rightarrow> 'v" and x
    using that by (rule option.map_cong0)
  have agree: "hp_bytes h' b = hp_bytes h b" "hp_strings h' b = hp_strings h b" "hp_refs h' b = hp_refs h b"
    "hp_times h' b = hp_times h b" "hp_maps h' b = hp_maps h b" if "b \<in> A" for b
    using assms that by (simp_all add: heap_agree_def)
  show "ws_val h' w = ws_val h w" if "ws_addrs w \<subseteq> A"
    using that agree by (auto simp: ws_val_def ws_addrs_def intro!: opt)
  show "api_val h' a = api_val h a" if "api_addrs a \<subseteq> A"
    using that agree by (auto simp: api_val_def api_addrs_def intro!: opt)
  show "key_val h' k = key_val h k" if "key_addrs k \<subseteq> A"
    using that agree unfolding key_val_def key_addrs_def by (auto intro!: opt slice_read_cong)
  show "slice_read (hp_bytes h') sl = slice_read (hp_bytes h) sl" if "slice_addrs sl \<subseteq> A"
    using that agree by (intro slice_read_cong) auto
qed

lemma store_val_agree:
  assumes "heap_agree (owned s) h h'"
  shows "store_val h' s = store_val h s"
proof -
  have sub: "hs_workspaces s i = Some w \<Longrightarrow> ws_addrs w \<subseteq> owned s"
    "hs_apis s i = Some a \<Longrightarrow> api_addrs a \<subseteq> owned s" "hs_keys s i = Some k \<Longrightarrow> key_addrs k \<subseteq> owned s" for i w a k
    by (auto simp: owned_def ran_def)
  show ?thesis
    using sub val_agree [OF assms]
    by (auto simp: store_val_def fun_eq_iff intro!: option.map_cong0)
qed

section \<open>What the clone helpers give\<close>

text \<open>
  The result of an allocating helper: the heap was only extended, the new value holds only addresses
  allocated in between, and reads as the original did.
\<close>

lemma append_bytes_clone:
  assumes "append_bytes sl h = (sl', h')"
  shows "extends h h'" "slice_addrs sl' \<subseteq> {hp_lim h..<hp_lim h'}"
    "slice_read (hp_bytes h') sl' = slice_read (hp_bytes h) sl"
  using assms by (auto simp: append_bytes_def Let_def extends_def heap_agree_def split: if_splits)

lemma append_strings_clone:
  assumes "append_strings sl h = (sl', h')"
  shows "extends h h'" "slice_addrs sl' \<subseteq> {hp_lim h..<hp_lim h'}"
    "slice_read (hp_strings h') sl' = slice_read (hp_strings h) sl"
  using assms by (auto simp: append_strings_def Let_def extends_def heap_agree_def split: if_splits)

lemma append_refs_clone:
  assumes "append_refs sl h = (sl', h')"
  shows "extends h h'" "slice_addrs sl' \<subseteq> {hp_lim h..<hp_lim h'}"
    "slice_read (hp_refs h') sl' = slice_read (hp_refs h) sl"
  using assms by (auto simp: append_refs_def Let_def extends_def heap_agree_def split: if_splits)

lemma new_time_clone:
  assumes "new_time t h = (a, h')"
  shows "extends h h'" "a \<in> {hp_lim h..<hp_lim h'}" "hp_times h' a = t"
  using assms by (auto simp: new_time_def extends_def heap_agree_def)

lemma cloneTimePtr_clone:
  assumes "heap_cloneTimePtr t h = (t', h')"
  shows "extends h h'" "set_option t' \<subseteq> {hp_lim h..<hp_lim h'}"
    "map_option (hp_times h') t' = map_option (hp_times h) t"
  using assms new_time_clone
  by (auto simp: heap_cloneTimePtr_def split: option.splits prod.splits)

lemma maps_Clone_clone:
  assumes "maps_Clone m h = (m', h')"
  shows "extends h h'" "set_option m' \<subseteq> {hp_lim h..<hp_lim h'}"
    "map_option (hp_maps h') m' = map_option (hp_maps h) m"
  using assms by (auto simp: maps_Clone_def extends_def heap_agree_def split: option.splits)

lemma cloneWorkspace_clone:
  assumes "heap_cloneWorkspace w h = (w', h')"
  shows "extends h h'" "ws_addrs w' \<subseteq> {hp_lim h..<hp_lim h'}" "ws_val h' w' = ws_val h w"
  using assms maps_Clone_clone [of "hw_Metadata w" h]
  by (auto simp: heap_cloneWorkspace_def ws_addrs_def ws_val_def split: prod.splits)

lemma cloneAPI_clone:
  assumes "heap_cloneAPI a h = (a', h')"
  shows "extends h h'" "api_addrs a' \<subseteq> {hp_lim h..<hp_lim h'}" "api_val h' a' = api_val h a"
  using assms maps_Clone_clone [of "ha_Metadata a" h]
  by (auto simp: heap_cloneAPI_def api_addrs_def api_val_def split: prod.splits)

text \<open>Reading an allocated slice or pointer after an extension.\<close>

lemma extends_read:
  assumes "extends h h'"
  shows "slice_addrs sl \<subseteq> {..<hp_lim h} \<Longrightarrow> slice_read (hp_bytes h') sl = slice_read (hp_bytes h) sl"
    and "slice_addrs sl \<subseteq> {..<hp_lim h} \<Longrightarrow> slice_read (hp_strings h') sl = slice_read (hp_strings h) sl"
    and "slice_addrs sl \<subseteq> {..<hp_lim h} \<Longrightarrow> slice_read (hp_refs h') sl = slice_read (hp_refs h) sl"
    and "set_option p \<subseteq> {..<hp_lim h} \<Longrightarrow> map_option (hp_times h') p = map_option (hp_times h) p"
    and "set_option p \<subseteq> {..<hp_lim h} \<Longrightarrow> map_option (hp_maps h') p = map_option (hp_maps h) p"
  using assms by (auto simp: extends_def heap_agree_def intro!: slice_read_cong option.map_cong0)

lemma extends_lim: "extends h h' \<Longrightarrow> A \<subseteq> {..<hp_lim h} \<Longrightarrow> A \<subseteq> {..<hp_lim h'}"
  by (auto simp: extends_def)

lemma fresh_below: "A \<subseteq> {hp_lim h..<hp_lim h'} \<Longrightarrow> A \<subseteq> {..<hp_lim h'}"
  by auto

lemma fresh_wider:
  "extends h0 h \<Longrightarrow> extends h' h1 \<Longrightarrow> A \<subseteq> {hp_lim h..<hp_lim h'} \<Longrightarrow> A \<subseteq> {hp_lim h0..<hp_lim h1}"
  by (auto simp: extends_def)

lemma cloneKey_clone:
  assumes "heap_cloneKey k h = (k', h')" and old: "key_addrs k \<subseteq> {..<hp_lim h}"
  shows "extends h h'" "key_addrs k' \<subseteq> {hp_lim h..<hp_lim h'}" "key_val h' k' = key_val h k"
proof -
  obtain kh h1 perms h2 refs h3 ex h4 lv h5 m where steps:
    "append_bytes (hk_KeyHash k) h = (kh, h1)" "append_strings (hk_Permissions k) h1 = (perms, h2)"
    "append_refs (hk_LimitRefs k) h2 = (refs, h3)" "heap_cloneTimePtr (hk_ExpiresAt k) h3 = (ex, h4)"
    "heap_cloneTimePtr (hk_LastVerifiedAt k) h4 = (lv, h5)" "maps_Clone (hk_Metadata k) h5 = (m, h')"
    and k': "k' = k\<lparr>hk_KeyHash := kh, hk_Permissions := perms, hk_LimitRefs := refs, hk_ExpiresAt := ex,
      hk_LastVerifiedAt := lv, hk_Metadata := m\<rparr>"
    using assms(1) by (auto simp: heap_cloneKey_def split: prod.splits)
  note c1 = append_bytes_clone [OF steps(1)] and c2 = append_strings_clone [OF steps(2)]
    and c3 = append_refs_clone [OF steps(3)] and c4 = cloneTimePtr_clone [OF steps(4)]
    and c5 = cloneTimePtr_clone [OF steps(5)] and c6 = maps_Clone_clone [OF steps(6)]
  note e2 = extends_trans [OF c1(1) c2(1)] note e3 = extends_trans [OF e2 c3(1)]
  note e4 = extends_trans [OF e3 c4(1)] note e5 = extends_trans [OF e4 c5(1)]
  note f5 = c6(1) note f4 = extends_trans [OF c5(1) f5] note f3 = extends_trans [OF c4(1) f4]
  note f2 = extends_trans [OF c3(1) f3] note f1 = extends_trans [OF c2(1) f2]
  show "extends h h'" by (rule extends_trans [OF e5 c6(1)])
  note fresh = fresh_wider [OF extends_refl f1 c1(2)] fresh_wider [OF c1(1) f2 c2(2)] fresh_wider [OF e2 f3 c3(2)]
    fresh_wider [OF e3 f4 c4(2)] fresh_wider [OF e4 f5 c5(2)] fresh_wider [OF e5 extends_refl c6(2)]
  show "key_addrs k' \<subseteq> {hp_lim h..<hp_lim h'}"
    unfolding key_addrs_def k' using fresh by simp
  note now = extends_read(1) [OF f1 fresh_below [OF c1(2)]] extends_read(2) [OF f2 fresh_below [OF c2(2)]]
    extends_read(3) [OF f3 fresh_below [OF c3(2)]] extends_read(4) [OF f4 fresh_below [OF c4(2)]]
    extends_read(4) [OF f5 fresh_below [OF c5(2)]]
  have "slice_addrs (hk_Permissions k) \<subseteq> {..<hp_lim h}" "slice_addrs (hk_LimitRefs k) \<subseteq> {..<hp_lim h}"
    "set_option (hk_ExpiresAt k) \<subseteq> {..<hp_lim h}" "set_option (hk_LastVerifiedAt k) \<subseteq> {..<hp_lim h}"
    "set_option (hk_Metadata k) \<subseteq> {..<hp_lim h}"
    using old by (auto simp: key_addrs_def)
  note before = extends_read(2) [OF c1(1) this(1)] extends_read(3) [OF e2 this(2)] extends_read(4) [OF e3 this(3)]
    extends_read(4) [OF e4 this(4)] extends_read(5) [OF e5 this(5)]
  show "key_val h' k' = key_val h k"
    unfolding key_val_def k' using now before c1(3) c2(3) c3(3) c4(3) c5(3) c6(3) by simp
qed

section \<open>What changing the store does to ownership\<close>

lemma sep_alloc: "sep h s C \<Longrightarrow> C \<subseteq> {..<hp_lim h} \<and> owned s \<subseteq> {..<hp_lim h}"
  by (simp add: sep_def)

lemma sep_grow:
  assumes "sep h s C" "extends h h'" "A \<subseteq> {hp_lim h..<hp_lim h'}"
  shows "sep h' s (C \<union> A)" "store_val h' s = store_val h s"
proof -
  have "heap_agree (owned s) h h'" using assms(1,2) by (auto simp: sep_def extends_def heap_agree_def)
  then show "store_val h' s = store_val h s" by (rule store_val_agree)
  show "sep h' s (C \<union> A)" using assms unfolding sep_def extends_def by fastforce
qed

lemma owned_put:
  "owned (s\<lparr>hs_workspaces := (hs_workspaces s)(i \<mapsto> w)\<rparr>) \<subseteq> owned s \<union> ws_addrs w"
  "owned (s\<lparr>hs_apis := (hs_apis s)(i \<mapsto> a)\<rparr>) \<subseteq> owned s \<union> api_addrs a"
  "owned (s\<lparr>hs_keys := (hs_keys s)(i \<mapsto> k)\<rparr>) \<subseteq> owned s \<union> key_addrs k"
  by (auto simp: owned_def ran_def split: if_splits)

lemma owned_index [simp]: "owned (s\<lparr>hs_hashIndex := m\<rparr>) = owned s"
  by (simp add: owned_def)

lemma owned_get:
  "hs_workspaces s i = Some w \<Longrightarrow> ws_addrs w \<subseteq> owned s"
  "hs_apis s i = Some a \<Longrightarrow> api_addrs a \<subseteq> owned s"
  "hs_keys s i = Some k \<Longrightarrow> key_addrs k \<subseteq> owned s"
  by (auto simp: owned_def ran_def)

lemma sep_put:
  assumes "sep h s C" "extends h h'" "owned s' \<subseteq> owned s \<union> {hp_lim h..<hp_lim h'}"
  shows "sep h' s' C"
  using assms unfolding sep_def extends_def by fastforce

lemma store_val_sel [simp]:
  "m_workspaces (store_val h s) i = map_option (ws_val h) (hs_workspaces s i)"
  "m_apis (store_val h s) i = map_option (api_val h) (hs_apis s i)"
  "m_keys (store_val h s) i = map_option (key_val h) (hs_keys s i)"
  "m_hashIndex (store_val h s) = hs_hashIndex s"
  by (simp_all add: store_val_def)

lemma store_val_dom [simp]:
  "dom (m_workspaces (store_val h s)) = dom (hs_workspaces s)" "dom (m_apis (store_val h s)) = dom (hs_apis s)"
  by (auto simp: store_val_def)

lemma store_val_put [simp]:
  "store_val h (s\<lparr>hs_workspaces := (hs_workspaces s)(i \<mapsto> w)\<rparr>) =
     (store_val h s)\<lparr>m_workspaces := (m_workspaces (store_val h s))(i \<mapsto> ws_val h w)\<rparr>"
  "store_val h (s\<lparr>hs_apis := (hs_apis s)(i \<mapsto> a)\<rparr>) =
     (store_val h s)\<lparr>m_apis := (m_apis (store_val h s))(i \<mapsto> api_val h a)\<rparr>"
  "store_val h (s\<lparr>hs_keys := (hs_keys s)(i \<mapsto> k)\<rparr>) =
     (store_val h s)\<lparr>m_keys := (m_keys (store_val h s))(i \<mapsto> key_val h k)\<rparr>"
  "store_val h (s\<lparr>hs_keys := (hs_keys s)(i \<mapsto> k), hs_hashIndex := x\<rparr>) =
     (store_val h s)\<lparr>m_keys := (m_keys (store_val h s))(i \<mapsto> key_val h k), m_hashIndex := x\<rparr>"
  by (simp_all add: store_val_def fun_eq_iff)

lemma val_sel [simp]:
  "a_WorkspaceID (api_val h a) = ha_WorkspaceID a" "k_APIID (key_val h k) = hk_APIID k"
  "k_OwnerPrincipalID (key_val h k) = hk_OwnerPrincipalID k"
  "k_KeyHash (key_val h k) = slice_read (hp_bytes h) (hk_KeyHash k)" "k_KeyID (key_val h k) = hk_KeyID k"
  "k_Enabled (key_val h k) = hk_Enabled k" "k_RemainingUses (key_val h k) = hk_RemainingUses k"
  "w_WorkspaceID (ws_val h w) = hw_WorkspaceID w" "a_APIID (api_val h a) = ha_APIID a"
  by (simp_all add: api_val_def key_val_def ws_val_def)

lemma zero_HKey_val [simp]: "key_val h zero_HKey = zero_Key" "key_addrs zero_HKey = {}"
  by (simp_all add: key_val_def zero_HKey_def zero_Key_def key_addrs_def)

text \<open>A call on references does what the call on values does, and keeps the callers out.\<close>

definition exec_ok ::
  "heap \<Rightarrow> addr set \<Rightarrow> (Workspace, API, Key) response \<times> mem_store \<Rightarrow>
   (HWorkspace, HAPI, HKey) response \<times> heap \<times> heap_store \<Rightarrow> bool" where
  "exec_ok h C v c \<longleftrightarrow> (case c of (r, h', s') \<Rightarrow> v = (response_val h' r, store_val h' s') \<and> extends h h' \<and>
     sep h' s' (C \<union> response_addrs r) \<and> response_addrs r \<subseteq> {hp_lim h..<hp_lim h'})"

lemma exec_ok_still:
  assumes "sep h s C" "response_addrs r = {}" "vr = response_val h r"
  shows "exec_ok h C (vr, store_val h s) (r, h, s)"
  using assms by (simp add: exec_ok_def)

lemma response_simps [simp]:
  "response_addrs (AError err) = {}" "response_addrs ADone = {}" "response_addrs (ACount n x) = {}"
  "response_addrs (AWorkspace w) = ws_addrs w" "response_addrs (AAPI a) = api_addrs a"
  "response_addrs (AKey k) = key_addrs k" "response_addrs (AKeys ks tok) = (\<Union>k \<in> set ks. key_addrs k)"
  "response_val h (AError err) = AError err" "response_val h ADone = ADone" "response_val h (ACount n x) = ACount n x"
  "response_val h (AWorkspace w) = AWorkspace (ws_val h w)" "response_val h (AAPI a) = AAPI (api_val h a)"
  "response_val h (AKey k) = AKey (key_val h k)" "response_val h (AKeys ks tok) = AKeys (map (key_val h) ks) tok"
  by (simp_all add: response_addrs_def response_val_def)

lemma exec_ok_CreateWorkspace:
  assumes "sep h s C" "ws_addrs w \<subseteq> C"
  shows "exec_ok h C (mem_exec e (store_val h s) (QCreateWorkspace (ws_val h w))) (heap_exec e h s (QCreateWorkspace w))"
proof -
  let ?w = "w\<lparr>hw_WorkspaceID := newID ''ws'' (me_uuid e), hw_CreatedAt := me_now e, hw_UpdatedAt := me_now e\<rparr>"
  obtain w1 h1 w2 h2 where c: "heap_cloneWorkspace ?w h = (w1, h1)" "heap_cloneWorkspace ?w h1 = (w2, h2)"
    by (metis surj_pair)
  note c1 = cloneWorkspace_clone [OF c(1)] and c2 = cloneWorkspace_clone [OF c(2)]
  let ?s = "s\<lparr>hs_workspaces := (hs_workspaces s)(newID ''ws'' (me_uuid e) \<mapsto> w1)\<rparr>"
  have old: "ws_addrs ?w \<subseteq> {..<hp_lim h}" using assms by (auto simp: sep_def ws_addrs_def)
  have v1: "ws_val h1 ?w = ws_val h ?w"
    using old c1(1) by (intro val_agree(1)) (auto simp: extends_def)
  have sep1: "sep h1 ?s C"
    by (rule sep_put [OF assms(1) c1(1)]) (use owned_put(1) c1(2) in blast)
  note grow = sep_grow [OF sep1 c2(1,2)]
  have val: "ws_val h ?w = (ws_val h w)\<lparr>w_WorkspaceID := newID ''ws'' (me_uuid e), w_CreatedAt := me_now e,
      w_UpdatedAt := me_now e\<rparr>" by (simp add: ws_val_def)
  have store: "store_val h2 ?s = (store_val h s)\<lparr>m_workspaces :=
      (m_workspaces (store_val h s))(newID ''ws'' (me_uuid e) \<mapsto> ws_val h ?w)\<rparr>"
    unfolding grow(2) using sep_grow(2) [OF assms(1) c1(1), of "{}"] c1(3) by simp
  have "heap_exec e h s (QCreateWorkspace w) = (AWorkspace w2, h2, ?s)"
    by (simp add: heap_CreateWorkspace_def Let_def c)
  moreover have "mem_exec e (store_val h s) (QCreateWorkspace (ws_val h w)) = (AWorkspace (ws_val h2 w2), store_val h2 ?s)"
    unfolding store c2(3) v1 val by (simp add: mem_CreateWorkspace_def Let_def)
  ultimately show ?thesis
    using grow(1) extends_trans [OF c1(1) c2(1)] fresh_wider [OF c1(1) extends_refl c2(2)] by (simp add: exec_ok_def)
qed

lemma exec_ok_CreateAPI:
  assumes "sep h s C" "api_addrs a \<subseteq> C"
  shows "exec_ok h C (mem_exec e (store_val h s) (QCreateAPI (api_val h a))) (heap_exec e h s (QCreateAPI a))"
proof (cases "ha_WorkspaceID a \<in> dom (hs_workspaces s)")
  case False
  then show ?thesis
    using exec_ok_still [OF assms(1), of "AError (Wrapf ''workspace %q: %w'' (Some (ha_WorkspaceID a)) (Sentinel ErrNotFound))"]
    by (simp add: mem_CreateAPI_def heap_CreateAPI_def)
next
  case True
  let ?a = "a\<lparr>ha_APIID := newID ''api'' (me_uuid e), ha_CreatedAt := me_now e, ha_UpdatedAt := me_now e\<rparr>"
  obtain a1 h1 a2 h2 where c: "heap_cloneAPI ?a h = (a1, h1)" "heap_cloneAPI ?a h1 = (a2, h2)"
    by (metis surj_pair)
  note c1 = cloneAPI_clone [OF c(1)] and c2 = cloneAPI_clone [OF c(2)]
  let ?s = "s\<lparr>hs_apis := (hs_apis s)(newID ''api'' (me_uuid e) \<mapsto> a1)\<rparr>"
  have old: "api_addrs ?a \<subseteq> {..<hp_lim h}" using assms by (auto simp: sep_def api_addrs_def)
  have v1: "api_val h1 ?a = api_val h ?a"
    using old c1(1) by (intro val_agree(2)) (auto simp: extends_def)
  have sep1: "sep h1 ?s C"
    by (rule sep_put [OF assms(1) c1(1)]) (use owned_put(2) c1(2) in blast)
  note grow = sep_grow [OF sep1 c2(1,2)]
  have val: "api_val h ?a = (api_val h a)\<lparr>a_APIID := newID ''api'' (me_uuid e), a_CreatedAt := me_now e,
      a_UpdatedAt := me_now e\<rparr>" by (simp add: api_val_def)
  have store: "store_val h2 ?s = (store_val h s)\<lparr>m_apis :=
      (m_apis (store_val h s))(newID ''api'' (me_uuid e) \<mapsto> api_val h ?a)\<rparr>"
    unfolding grow(2) using sep_grow(2) [OF assms(1) c1(1), of "{}"] c1(3) by simp
  have "heap_exec e h s (QCreateAPI a) = (AAPI a2, h2, ?s)"
    using True by (simp add: heap_CreateAPI_def Let_def c)
  moreover have "mem_exec e (store_val h s) (QCreateAPI (api_val h a)) = (AAPI (api_val h2 a2), store_val h2 ?s)"
    unfolding store c2(3) v1 val using True by (simp add: mem_CreateAPI_def Let_def)
  ultimately show ?thesis
    using grow(1) extends_trans [OF c1(1) c2(1)] fresh_wider [OF c1(1) extends_refl c2(2)] by (simp add: exec_ok_def)
qed

lemma exec_ok_CreateKey:
  assumes "sep h s C" "key_addrs k \<subseteq> C"
  shows "exec_ok h C (mem_exec e (store_val h s) (QCreateKey (key_val h k))) (heap_exec e h s (QCreateKey k))"
proof -
  let ?hash = "bytes_string (slice_read (hp_bytes h) (hk_KeyHash k))"
  consider "hk_APIID k \<notin> dom (hs_apis s)" | "hk_APIID k \<in> dom (hs_apis s)" "?hash \<in> dom (hs_hashIndex s)"
    | "hk_APIID k \<in> dom (hs_apis s)" "?hash \<notin> dom (hs_hashIndex s)" by blast
  then show ?thesis
  proof cases
    case 1
    then show ?thesis
      using exec_ok_still [OF assms(1), of "AError (Wrapf ''api %q: %w'' (Some (hk_APIID k)) (Sentinel ErrNotFound))"]
      by (simp add: mem_CreateKey_def heap_CreateKey_def)
  next
    case 2
    then show ?thesis
      using exec_ok_still [OF assms(1), of "AError (Sentinel ErrConflict)"]
      by (simp add: mem_CreateKey_def heap_CreateKey_def)
  next
    case 3
    let ?k = "k\<lparr>hk_KeyID := newID ''key'' (me_uuid e), hk_CreatedAt := me_now e, hk_UpdatedAt := me_now e\<rparr>"
    obtain k1 h1 k2 h2 where c: "heap_cloneKey ?k h = (k1, h1)" "heap_cloneKey k1 h1 = (k2, h2)"
      by (metis surj_pair)
    have "key_addrs ?k \<subseteq> {..<hp_lim h}" using assms by (auto simp: sep_def key_addrs_def)
    note c1 = cloneKey_clone [OF c(1) this]
    note c2 = cloneKey_clone [OF c(2) fresh_below [OF c1(2)]]
    have id: "hk_KeyID k1 = newID ''key'' (me_uuid e)" using arg_cong [OF c1(3), of k_KeyID] by simp
    let ?s = "s\<lparr>hs_keys := (hs_keys s)(hk_KeyID k1 \<mapsto> k1), hs_hashIndex := (hs_hashIndex s)(?hash \<mapsto> hk_KeyID k1)\<rparr>"
    have sep1: "sep h1 ?s C"
      by (rule sep_put [OF assms(1) c1(1)]) (use owned_put(3) c1(2) in fastforce)
    note grow = sep_grow [OF sep1 c2(1,2)]
    have val: "key_val h ?k = (key_val h k)\<lparr>k_KeyID := newID ''key'' (me_uuid e), k_CreatedAt := me_now e,
        k_UpdatedAt := me_now e\<rparr>" by (simp add: key_val_def)
    have store: "store_val h2 ?s = (store_val h s)\<lparr>m_keys := (m_keys (store_val h s))(hk_KeyID k1 \<mapsto> key_val h ?k),
        m_hashIndex := (hs_hashIndex s)(?hash \<mapsto> hk_KeyID k1)\<rparr>"
      unfolding grow(2) using sep_grow(2) [OF assms(1) c1(1), of "{}"] c1(3) by simp
    have "heap_exec e h s (QCreateKey k) = (AKey k2, h2, ?s)"
      using 3 by (simp add: heap_CreateKey_def Let_def c)
    moreover have "mem_exec e (store_val h s) (QCreateKey (key_val h k)) = (AKey (key_val h2 k2), store_val h2 ?s)"
      unfolding store unfolding c2(3) c1(3) val id using 3 by (simp add: mem_CreateKey_def Let_def)
    ultimately show ?thesis
      using grow(1) extends_trans [OF c1(1) c2(1)] fresh_wider [OF c1(1) extends_refl c2(2)] by (simp add: exec_ok_def)
  qed
qed

text \<open>The reading methods hand out a clone and leave the store alone.\<close>

lemma exec_ok_gets:
  assumes "sep h s C"
  shows "exec_ok h C (mem_exec e (store_val h s) (QGetWorkspace i)) (heap_exec e h s (QGetWorkspace i))"
    and "exec_ok h C (mem_exec e (store_val h s) (QGetAPI i)) (heap_exec e h s (QGetAPI i))"
    and "exec_ok h C (mem_exec e (store_val h s) (QGetKeyByID i)) (heap_exec e h s (QGetKeyByID i))"
    and "exec_ok h C (mem_exec e (store_val h s) (QGetKeyByHash (slice_read (hp_bytes h) sl)))
      (heap_exec e h s (QGetKeyByHash sl))"
proof -
  note missing = exec_ok_still [OF assms, of "AError (Sentinel ErrNotFound)"]
  have ws: "exec_ok h C (AWorkspace (ws_val h w), store_val h s) (AWorkspace w', h', s)"
    if "heap_cloneWorkspace w h = (w', h')" for w w' h'
    using cloneWorkspace_clone [OF that] sep_grow [OF assms cloneWorkspace_clone(1,2) [OF that]]
    by (simp add: exec_ok_def)
  show "exec_ok h C (mem_exec e (store_val h s) (QGetWorkspace i)) (heap_exec e h s (QGetWorkspace i))"
    using missing ws
    by (auto simp: mem_GetWorkspace_def heap_GetWorkspace_def split: option.splits prod.splits)
  have api: "exec_ok h C (AAPI (api_val h a), store_val h s) (AAPI a', h', s)"
    if "heap_cloneAPI a h = (a', h')" for a a' h'
    using cloneAPI_clone [OF that] sep_grow [OF assms cloneAPI_clone(1,2) [OF that]] by (simp add: exec_ok_def)
  show "exec_ok h C (mem_exec e (store_val h s) (QGetAPI i)) (heap_exec e h s (QGetAPI i))"
    using missing api by (auto simp: mem_GetAPI_def heap_GetAPI_def split: option.splits prod.splits)
  have key: "exec_ok h C (AKey (key_val h k), store_val h s) (AKey k', h', s)"
    if "heap_cloneKey k h = (k', h')" "key_addrs k \<subseteq> owned s" for k k' h'
  proof -
    have "key_addrs k \<subseteq> {..<hp_lim h}" using that(2) assms by (auto simp: sep_def)
    note c = cloneKey_clone [OF that(1) this]
    show ?thesis using c sep_grow [OF assms c(1,2)] by (simp add: exec_ok_def)
  qed
  show "exec_ok h C (mem_exec e (store_val h s) (QGetKeyByID i)) (heap_exec e h s (QGetKeyByID i))"
    using missing key owned_get(3) [of s i]
    by (auto simp: mem_GetKeyByID_def heap_GetKeyByID_def split: option.splits prod.splits)
  show "exec_ok h C (mem_exec e (store_val h s) (QGetKeyByHash (slice_read (hp_bytes h) sl)))
      (heap_exec e h s (QGetKeyByHash sl))"
  proof (cases "hs_hashIndex s (bytes_string (slice_read (hp_bytes h) sl))")
    case None
    with missing show ?thesis by (simp add: mem_GetKeyByHash_def heap_GetKeyByHash_def)
  next
    case (Some i)
    let ?k = "case hs_keys s i of None \<Rightarrow> zero_HKey | Some k \<Rightarrow> k"
    obtain k' h' where c: "heap_cloneKey ?k h = (k', h')" by (metis surj_pair)
    have "key_addrs ?k \<subseteq> owned s" using owned_get(3) [of s i] by (auto split: option.split)
    from key [OF c this] Some c show ?thesis
      by (cases "hs_keys s i") (simp_all add: mem_GetKeyByHash_def heap_GetKeyByHash_def)
  qed
qed

text \<open>Replacing a stored key by one that holds its addresses and newly allocated ones.\<close>

lemma key_put:
  assumes "sep h s C" "extends h h'" "key_addrs k \<subseteq> owned s \<union> {hp_lim h..<hp_lim h'}"
  shows "sep h' (s\<lparr>hs_keys := (hs_keys s)(i \<mapsto> k), hs_hashIndex := x\<rparr>) C"
    and "sep h' (s\<lparr>hs_keys := (hs_keys s)(i \<mapsto> k)\<rparr>) C" "store_val h' s = store_val h s"
proof -
  show "sep h' (s\<lparr>hs_keys := (hs_keys s)(i \<mapsto> k)\<rparr>) C" "sep h' (s\<lparr>hs_keys := (hs_keys s)(i \<mapsto> k), hs_hashIndex := x\<rparr>) C"
    by (rule sep_put [OF assms(1,2)]; use owned_put(3) [of s i k] assms(3) in fastforce)+
  show "store_val h' s = store_val h s" using sep_grow(2) [OF assms(1,2), of "{}"] by simp
qed

lemma exec_ok_updates:
  assumes "sep h s C"
  shows "exec_ok h C (mem_exec e (store_val h s) (QRevokeKey i)) (heap_exec e h s (QRevokeKey i))"
    and "exec_ok h C (mem_exec e (store_val h s) (QTouchLastVerified i at)) (heap_exec e h s (QTouchLastVerified i at))"
    and "exec_ok h C (mem_exec e (store_val h s) (QDecrementRemainingUses i))
      (heap_exec e h s (QDecrementRemainingUses i))"
proof -
  have same: "key_addrs (k\<lparr>hk_Enabled := b, hk_UpdatedAt := t\<rparr>) = key_addrs k"
    "key_addrs (k\<lparr>hk_RemainingUses := n, hk_UpdatedAt := t\<rparr>) = key_addrs k"
    "key_val h (k\<lparr>hk_Enabled := b, hk_UpdatedAt := t\<rparr>) = (key_val h k)\<lparr>k_Enabled := b, k_UpdatedAt := t\<rparr>"
    "key_val h (k\<lparr>hk_RemainingUses := n, hk_UpdatedAt := t\<rparr>) = (key_val h k)\<lparr>k_RemainingUses := n, k_UpdatedAt := t\<rparr>"
    for k b t n by (simp_all add: key_addrs_def key_val_def)
  have put: "sep h (s\<lparr>hs_keys := (hs_keys s)(i \<mapsto> k')\<rparr>) C"
    if "hs_keys s i = Some k" "key_addrs k' = key_addrs k" for k k'
    using key_put(2) [OF assms extends_refl, of k' i] owned_get(3) [OF that(1)] that(2) by blast
  show "exec_ok h C (mem_exec e (store_val h s) (QRevokeKey i)) (heap_exec e h s (QRevokeKey i))"
    using assms put by (auto simp: mem_RevokeKey_def heap_RevokeKey_def exec_ok_def same Let_def split: option.split)
  show "exec_ok h C (mem_exec e (store_val h s) (QDecrementRemainingUses i))
      (heap_exec e h s (QDecrementRemainingUses i))"
    using assms put
    by (auto simp: mem_DecrementRemainingUses_def heap_DecrementRemainingUses_def exec_ok_def same Let_def
        split: option.split)
  show "exec_ok h C (mem_exec e (store_val h s) (QTouchLastVerified i at)) (heap_exec e h s (QTouchLastVerified i at))"
  proof (cases "hs_keys s i")
    case None
    with assms show ?thesis by (simp add: mem_TouchLastVerified_def heap_TouchLastVerified_def exec_ok_def)
  next
    case (Some k)
    obtain a h' where t: "new_time at h = (a, h')" by (metis surj_pair)
    note c = new_time_clone [OF t]
    let ?k = "k\<lparr>hk_LastVerifiedAt := Some a\<rparr>"
    have own: "key_addrs k \<subseteq> owned s" by (rule owned_get(3) [OF Some])
    have "key_addrs ?k \<subseteq> owned s \<union> {hp_lim h..<hp_lim h'}"
      using own c(2) by (auto simp: key_addrs_def)
    note put = key_put [OF assms c(1) this]
    have "key_val h' k = key_val h k"
      using own assms c(1) by (intro val_agree(3) [of "{..<hp_lim h}"]) (auto simp: extends_def sep_def)
    then have "key_val h' ?k = (key_val h k)\<lparr>k_LastVerifiedAt := Some at\<rparr>"
      using c(3) by (simp add: key_val_def)
    then show ?thesis
      using put(2,3) c(1) Some
      by (simp add: mem_TouchLastVerified_def heap_TouchLastVerified_def exec_ok_def t)
  qed
qed

lemma exec_ok_RotateKey:
  assumes "sep h s C" "slice_addrs sl \<subseteq> C"
  shows "exec_ok h C (mem_exec e (store_val h s) (QRotateKey i (slice_read (hp_bytes h) sl))) (heap_exec e h s (QRotateKey i sl))"
proof (cases "hs_keys s i")
  case None
  with assms(1) show ?thesis by (simp add: mem_RotateKey_def heap_RotateKey_def exec_ok_def)
next
  case (Some k)
  let ?hash = "bytes_string (slice_read (hp_bytes h) sl)"
  let ?taken = "case hs_hashIndex s ?hash of None \<Rightarrow> False | Some existingID \<Rightarrow> existingID \<noteq> i"
  show ?thesis
  proof (cases ?taken)
    case True
    with assms(1) Some show ?thesis by (simp add: mem_RotateKey_def heap_RotateKey_def exec_ok_def Let_def)
  next
    case False
    obtain kh h1 where a: "append_bytes sl h = (kh, h1)" by (metis surj_pair)
    note c1 = append_bytes_clone [OF a]
    let ?k = "k\<lparr>hk_KeyHash := kh, hk_UpdatedAt := me_now e\<rparr>"
    let ?idx = "((hs_hashIndex s)(bytes_string (slice_read (hp_bytes h) (hk_KeyHash k)) := None))(?hash \<mapsto> i)"
    let ?s = "s\<lparr>hs_keys := (hs_keys s)(i \<mapsto> ?k), hs_hashIndex := ?idx\<rparr>"
    obtain k2 h2 where b: "heap_cloneKey ?k h1 = (k2, h2)" by (metis surj_pair)
    have own: "key_addrs k \<subseteq> owned s" by (rule owned_get(3) [OF Some])
    have addrs: "key_addrs ?k \<subseteq> owned s \<union> {hp_lim h..<hp_lim h1}"
      using own c1(2) by (auto simp: key_addrs_def)
    note put = key_put [OF assms(1) c1(1) addrs]
    have "key_addrs ?k \<subseteq> {..<hp_lim h1}"
      using addrs assms(1) c1(1) unfolding sep_def extends_def by fastforce
    note c2 = cloneKey_clone [OF b this]
    note grow = sep_grow [OF put(1) [of ?idx i] c2(1,2)]
    have "key_val h1 k = key_val h k"
      using own assms(1) c1(1) by (intro val_agree(3) [of "{..<hp_lim h}"]) (auto simp: extends_def sep_def)
    then have val: "key_val h1 ?k = (key_val h k)\<lparr>k_KeyHash := slice_read (hp_bytes h) sl, k_UpdatedAt := me_now e\<rparr>"
      using c1(3) by (simp add: key_val_def)
    have store: "store_val h2 ?s = (store_val h s)\<lparr>m_keys := (m_keys (store_val h s))(i \<mapsto> key_val h1 ?k), m_hashIndex := ?idx\<rparr>"
      unfolding grow(2) using put(3) by simp
    have "heap_exec e h s (QRotateKey i sl) = (AKey k2, h2, ?s)"
      using Some False by (simp add: heap_RotateKey_def Let_def a b)
    moreover have "mem_exec e (store_val h s) (QRotateKey i (slice_read (hp_bytes h) sl)) = (AKey (key_val h2 k2), store_val h2 ?s)"
      unfolding store unfolding c2(3) val using Some False by (simp add: mem_RotateKey_def Let_def)
    ultimately show ?thesis
      using grow(1) extends_trans [OF c1(1) c2(1)] fresh_wider [OF c1(1) extends_refl c2(2)] by (simp add: exec_ok_def)
  qed
qed

lemma heap_collect_ids_val:
  "heap_collect_ids opts (hs_keys s) ids = collect_ids opts (m_keys (store_val h s)) ids"
  by (induction ids) (auto split: option.split)

lemma clone_all_clone:
  assumes "heap_clone_all (hs_keys s) is h = (out, h')" "sep h s C"
  shows "extends h h' \<and> (\<Union>k \<in> set out. key_addrs k) \<subseteq> {hp_lim h..<hp_lim h'} \<and>
    map (key_val h') out = map (\<lambda>i. case m_keys (store_val h s) i of None \<Rightarrow> zero_Key | Some k \<Rightarrow> k) is"
  using assms
proof (induction "is" arbitrary: h out C)
  case (Cons i "is")
  let ?k = "case hs_keys s i of None \<Rightarrow> zero_HKey | Some k \<Rightarrow> k"
  obtain k h1 out' where c: "heap_cloneKey ?k h = (k, h1)" and r: "heap_clone_all (hs_keys s) is h1 = (out', h')"
    and out: "out = k # out'"
    using Cons.prems(1) by (auto simp: Let_def split: prod.splits)
  have "key_addrs ?k \<subseteq> {..<hp_lim h}"
    using Cons.prems(2) owned_get(3) [of s i] by (auto simp: sep_def split: option.split)
  note c1 = cloneKey_clone [OF c this]
  note grow = sep_grow [OF Cons.prems(2) c1(1,2)]
  note IH = Cons.IH [OF r grow(1)]
  have "key_val h' k = key_val h1 k"
    using IH fresh_below [OF c1(2)] by (intro val_agree(3)) (auto simp: extends_def)
  moreover have "key_val h ?k = (case m_keys (store_val h s) i of None \<Rightarrow> zero_Key | Some k \<Rightarrow> k)"
    by (simp split: option.split)
  ultimately show ?case
    using IH c1 extends_trans [OF c1(1)] fresh_wider [OF extends_refl _ c1(2)] fresh_wider [OF c1(1) extends_refl]
    by (simp add: out grow(2))
qed simp

lemma exec_ok_ListKeys:
  assumes "sep h s C"
  shows "exec_ok h C (mem_exec e (store_val h s) (QListKeys opts)) (heap_exec e h s (QListKeys opts))"
proof -
  let ?ids = "sort (collect_ids opts (m_keys (store_val h s)) (me_range e))"
  define start where "start = (if o_PageToken opts \<noteq> [] then
      let i = sort_SearchStrings ?ids (o_PageToken opts)
      in if i < length ?ids \<and> ?ids ! i = o_PageToken opts then i + 1 else i else 0)"
  define size where "size = (if sint (o_PageSize opts) \<le> 0 then 50 else nat (sint (o_PageSize opts)))"
  define stop where "stop = (if start + size > length ?ids then length ?ids else start + size)"
  define tok where "tok = (if stop < length ?ids then ?ids ! (stop - 1) else [])"
  obtain out h' where c: "heap_clone_all (hs_keys s) (drop start (take stop ?ids)) h = (out, h')"
    by (metis surj_pair)
  note all = clone_all_clone [OF c assms]
  note defs = tok_def stop_def size_def start_def Let_def
  have "heap_exec e h s (QListKeys opts) = (AKeys out tok, h', s)"
    by (simp only: heap_exec.simps heap_ListKeys_def heap_collect_ids_val [of opts s _ h] c [unfolded defs] defs
        prod.case map_prod_simp answer_simps id_apply)
  moreover have "mem_exec e (store_val h s) (QListKeys opts) = (AKeys (map (key_val h') out) tok, store_val h s)"
    unfolding conjunct2 [OF conjunct2 [OF all]]
    by (simp only: mem_exec.simps mem_ListKeys_def clone_ident defs map_prod_simp answer_simps id_apply
        ListKeysResult.select_convs)
  ultimately show ?thesis
    using all sep_grow [OF assms, of h' "\<Union>k \<in> set out. key_addrs k"] by (simp add: exec_ok_def)
qed

lemma heap_exec_refines:
  assumes "sep h s C" "request_addrs q \<subseteq> C"
  shows "exec_ok h C (mem_exec e (store_val h s) (request_val h q)) (heap_exec e h s q)"
proof (cases q)
  case (QCreateWorkspace w)
  with assms(2) exec_ok_CreateWorkspace [OF assms(1), of w e] show ?thesis
    by (simp add: request_val_def request_addrs_def del: mem_exec.simps heap_exec.simps)
next
  case (QCreateAPI a)
  with assms(2) exec_ok_CreateAPI [OF assms(1), of a e] show ?thesis
    by (simp add: request_val_def request_addrs_def del: mem_exec.simps heap_exec.simps)
next
  case (QCreateKey k)
  with assms(2) exec_ok_CreateKey [OF assms(1), of k e] show ?thesis
    by (simp add: request_val_def request_addrs_def del: mem_exec.simps heap_exec.simps)
next
  case (QRotateKey i sl)
  with assms(2) exec_ok_RotateKey [OF assms(1), of sl e i] show ?thesis
    by (simp add: request_val_def request_addrs_def del: mem_exec.simps heap_exec.simps)
qed (use exec_ok_gets [OF assms(1), of e] exec_ok_updates [OF assms(1), of e] exec_ok_ListKeys [OF assms(1), of e]
    in \<open>simp_all add: request_val_def del: mem_exec.simps heap_exec.simps\<close>)

section \<open>Runs with callers that write\<close>

text \<open>
  Between calls a caller may write through any reference it knows and allocate: what it cannot touch
  are allocated addresses nobody gave it.
\<close>

definition caller_write :: "heap \<Rightarrow> addr set \<Rightarrow> heap \<Rightarrow> addr set \<Rightarrow> bool" where
  "caller_write h C h' C' \<longleftrightarrow> hp_lim h \<le> hp_lim h' \<and> heap_agree ({..<hp_lim h} - C) h h' \<and>
     C \<subseteq> C' \<and> C' - C \<subseteq> {hp_lim h..<hp_lim h'}"

lemma caller_write_sep:
  assumes "sep h s C" "caller_write h C h' C'"
  shows "sep h' s C'" "store_val h' s = store_val h s"
proof -
  have "heap_agree (owned s) h h'" using assms by (fastforce simp: sep_def caller_write_def heap_agree_def)
  then show "store_val h' s = store_val h s" by (rule store_val_agree)
  show "sep h' s C'" using assms unfolding sep_def caller_write_def by fastforce
qed

type_synonym call_record = "mem_env \<times> (Workspace, API, Key, bytes) request \<times> (Workspace, API, Key) response"

inductive heap_run ::
  "heap \<Rightarrow> heap_store \<Rightarrow> addr set \<Rightarrow> call_record list \<Rightarrow> heap \<Rightarrow> heap_store \<Rightarrow> addr set \<Rightarrow> bool" where
  nothing: "heap_run h s C [] h s C"
| called: "request_addrs q \<subseteq> C \<Longrightarrow> heap_exec e h s q = (r, h1, s1) \<Longrightarrow>
     heap_run h1 s1 (C \<union> response_addrs r) tr h' s' C' \<Longrightarrow>
     heap_run h s C ((e, request_val h q, response_val h1 r) # tr) h' s' C'"
| written: "caller_write h C h1 C1 \<Longrightarrow> heap_run h1 s C1 tr h' s' C' \<Longrightarrow> heap_run h s C tr h' s' C'"

text \<open>The same calls on values, with the answers they give.\<close>

primrec mem_run :: "mem_store \<Rightarrow> call_record list \<Rightarrow> mem_store option" where
  "mem_run s [] = Some s"
| "mem_run s (c # tr) =
     (case c of (e, q, r) \<Rightarrow>
        (case mem_exec e s q of (r', s') \<Rightarrow> if r' = r then mem_run s' tr else None))"

lemma heap_run_refines:
  assumes "heap_run h s C tr h' s' C'" "sep h s C"
  shows "mem_run (store_val h s) tr = Some (store_val h' s') \<and> sep h' s' C'"
  using assms
proof (induction rule: heap_run.induct)
  case (called q C e h s r h1 s1 tr h' s' C')
  have "mem_exec e (store_val h s) (request_val h q) = (response_val h1 r, store_val h1 s1)"
    "sep h1 s1 (C \<union> response_addrs r)"
    using heap_exec_refines [OF called.prems called.hyps(1), of e] called.hyps(2) by (simp_all add: exec_ok_def)
  then show ?case using called.IH by simp
next
  case (written h C h1 C1 s tr h' s' C')
  then show ?case using caller_write_sep [OF written.prems written.hyps(1)] by simp
qed simp

section \<open>Isolation\<close>

lemma heap_New_sep: "sep h heap_New {}" "store_val h heap_New = mem_New"
  by (simp_all add: sep_def owned_def heap_New_def store_val_def mem_New_def fun_eq_iff)

text \<open>
  C14: Start from an empty driver and let callers call any of its methods, in any order, and between
  the calls write what they like through every reference they ever passed in or got back. Every answer,
  read in the heap of that moment, is the answer of the driver on values, where nothing is shared; the
  driver's contents are those of the value-level driver, and no address it holds is known to a caller.
\<close>

theorem heap_isolation:
  assumes "heap_run h heap_New {} tr h' s' C'"
  shows "mem_run mem_New tr = Some (store_val h' s') \<and> owned s' \<inter> C' = {}"
  using heap_run_refines [OF assms heap_New_sep(1)] by (simp add: heap_New_sep sep_def)

text \<open>
  A run: a workspace is created with a map the caller holds, the caller writes into that map, and
  reads the workspace.
\<close>

definition heap_empty :: heap where
  "heap_empty = \<lparr>hp_bytes = (\<lambda>_. []), hp_strings = (\<lambda>_. []), hp_refs = (\<lambda>_. []), hp_times = (\<lambda>_. zero_time),
     hp_maps = (\<lambda>_. Map.empty), hp_lim = 0\<rparr>"

definition demo_env :: mem_env where
  "demo_env = \<lparr>me_now = 7, me_uuid = ''u'', me_range = []\<rparr>"

definition demo_workspace :: HWorkspace where
  "demo_workspace = \<lparr>hw_WorkspaceID = [], hw_Name = ''acme'', hw_OwnerPrincipalID = ''o'', hw_CreatedAt = zero_time,
     hw_UpdatedAt = zero_time, hw_Metadata = Some 0\<rparr>"

definition demo_stored :: Workspace where
  "demo_stored = \<lparr>w_WorkspaceID = ''ws_u'', w_Name = ''acme'', w_OwnerPrincipalID = ''o'', w_CreatedAt = 7,
     w_UpdatedAt = 7, w_Metadata = Some [''tier'' \<mapsto> ''prod'']\<rparr>"

definition demo_trace :: "call_record list" where
  "demo_trace =
     [(demo_env, QCreateWorkspace (demo_stored\<lparr>w_WorkspaceID := [], w_CreatedAt := zero_time, w_UpdatedAt := zero_time\<rparr>),
       AWorkspace demo_stored),
      (demo_env, QGetWorkspace ''ws_u'', AWorkspace demo_stored)]"

lemma heap_run_called:
  "request_addrs q \<subseteq> C \<Longrightarrow> heap_exec e h s q = (r, h1, s1) \<Longrightarrow> request_val h q = Q \<Longrightarrow> response_val h1 r = A \<Longrightarrow>
     heap_run h1 s1 (C \<union> response_addrs r) tr h' s' C' \<Longrightarrow> heap_run h s C ((e, Q, A) # tr) h' s' C'"
  using heap_run.called by blast

lemma demo_run:
  "\<exists>h' s' C'. heap_run heap_empty heap_New {} demo_trace h' s' C' \<and> 0 \<in> C' \<and> hp_maps h' 0 = [''tier'' \<mapsto> ''leak'']"
proof -
  let ?prod = "[''tier'' \<mapsto> ''prod'']" and ?leak = "[''tier'' \<mapsto> ''leak'']"
  let ?w = "\<lambda>a. demo_workspace\<lparr>hw_WorkspaceID := ''ws_u'', hw_CreatedAt := 7, hw_UpdatedAt := 7, hw_Metadata := Some a\<rparr>"
  let ?h1 = "heap_empty\<lparr>hp_maps := (\<lambda>_. Map.empty)(0 := ?prod), hp_lim := 1\<rparr>"
  let ?h2 = "heap_empty\<lparr>hp_maps := (\<lambda>_. Map.empty)(0 := ?prod, 1 := ?prod, 2 := ?prod), hp_lim := 3\<rparr>"
  let ?h3 = "?h2\<lparr>hp_maps := (hp_maps ?h2)(0 := ?leak)\<rparr>"
  let ?h4 = "?h3\<lparr>hp_maps := (hp_maps ?h3)(3 := ?prod), hp_lim := 4\<rparr>"
  let ?s = "heap_New\<lparr>hs_workspaces := [''ws_u'' \<mapsto> ?w 1]\<rparr>"
  note defs = heap_empty_def heap_New_def demo_workspace_def demo_env_def demo_stored_def
  have write1: "caller_write heap_empty {} ?h1 {0}"
    by (simp add: caller_write_def heap_agree_def defs)
  have create: "heap_exec demo_env ?h1 heap_New (QCreateWorkspace demo_workspace) = (AWorkspace (?w 2), ?h2, ?s)"
    by (simp add: heap_CreateWorkspace_def heap_cloneWorkspace_def maps_Clone_def newID_def defs fun_eq_iff numeral_eq_Suc)
  have write2: "caller_write ?h2 {0, 2} ?h3 {0, 2}"
    by (simp add: caller_write_def heap_agree_def)
  have get: "heap_exec demo_env ?h3 ?s (QGetWorkspace ''ws_u'') = (AWorkspace (?w 3), ?h4, ?s)"
    by (simp add: heap_GetWorkspace_def heap_cloneWorkspace_def maps_Clone_def numeral_eq_Suc)
  have "heap_run ?h3 ?s {0, 2} [(demo_env, QGetWorkspace ''ws_u'', AWorkspace demo_stored)] ?h4 ?s {0, 2, 3}"
    by (rule heap_run_called [OF _ get]) (use heap_run.nothing [of ?h4 ?s "{0, 2, 3}"] in
      \<open>simp_all add: request_val_def request_addrs_def ws_val_def ws_addrs_def defs insert_commute\<close>)
  then have "heap_run heap_empty heap_New {} demo_trace ?h4 ?s {0, 2, 3}"
    unfolding demo_trace_def
    by (intro heap_run.written [OF write1] heap_run_called [OF _ create])
      (use heap_run.written [OF write2] in
        \<open>simp_all add: request_val_def request_addrs_def ws_val_def ws_addrs_def defs insert_commute\<close>)
  then show ?thesis by (intro exI conjI) (assumption, simp_all)
qed

theorem heap_isolation_witness:
  "\<exists>h' s' C'. heap_run heap_empty heap_New {} demo_trace h' s' C' \<and> hp_maps h' 0 = [''tier'' \<mapsto> ''leak''] \<and>
     mem_run mem_New demo_trace = Some (store_val h' s') \<and> 0 \<notin> owned s'"
  using demo_run heap_isolation by blast

end
