(* ===== verification/KC_HeapTests.thy ===== *)
theory KC_HeapTests
  imports KC_Heap
begin

text \<open>
  The five tests of the conformance suite that write through shared references, as programs over the
  heap and any driver. The locale \<open>isolated_driver\<close> holds what the tests need of a driver (\<open>dsep\<close>: callers
  cannot reach what it keeps; \<open>dview\<close>: the records it holds) and the proofs that they pass; it is
  interpreted on the in-memory driver of \<open>KC_Heap\<close> here and on the Postgres driver in \<open>KC_PgHeap\<close>.
\<close>

unbundle bit_operations_syntax

section \<open>The tests that write through references\<close>

text \<open>
  A test here is a function of the step, the heap and the driver's state. The rig gives the driver (with
  what its environment answers at each step) and the clock. \<open>h_exec\<close> calls the driver, \<open>h_local\<close> runs the test's own code on the heap (\<open>None\<close> is a panic), \<open>h_require\<close> checks a condition of
  the heap.
\<close>

record 'd heap_rig =
  hr_exec :: "nat \<Rightarrow> heap \<Rightarrow> 'd \<Rightarrow> (HWorkspace, HAPI, HKey, slice) request \<Rightarrow>
    (HWorkspace, HAPI, HKey) response \<times> heap \<times> 'd"
  hr_clock :: "nat \<Rightarrow> gotime"

type_synonym 'd heap_test = "nat \<Rightarrow> heap \<Rightarrow> 'd \<Rightarrow> outcome"

definition h_exec ::
  "'d heap_rig \<Rightarrow> (HWorkspace, HAPI, HKey, slice) request \<Rightarrow> ((HWorkspace, HAPI, HKey) response \<Rightarrow> 'd heap_test) \<Rightarrow>
   'd heap_test" where
  "h_exec R q k n h s = (case hr_exec R n h s q of (r, h', s') \<Rightarrow> k r (Suc n) h' s')"

definition h_local :: "(heap \<Rightarrow> ('a \<times> heap) option) \<Rightarrow> ('a \<Rightarrow> 'd heap_test) \<Rightarrow> 'd heap_test" where
  "h_local f k n h s = (case f h of None \<Rightarrow> Failed ''panic'' | Some (x, h') \<Rightarrow> k x n h' s)"

definition h_require :: "(heap \<Rightarrow> bool) \<Rightarrow> string \<Rightarrow> 'd heap_test \<Rightarrow> 'd heap_test" where
  "h_require b msg k n h s = (if b h then k n h s else Failed msg)"

definition h_fatal :: "string \<Rightarrow> 'd heap_test" where
  "h_fatal msg n h s = Failed msg"

definition h_pass :: "'d heap_test" where
  "h_pass n h s = Passed"

definition h_workspace :: "'d heap_rig \<Rightarrow> string \<Rightarrow> (HWorkspace, HAPI, HKey, slice) request \<Rightarrow> (HWorkspace \<Rightarrow> 'd heap_test) \<Rightarrow> 'd heap_test" where
  "h_workspace R msg q k = h_exec R q (\<lambda>r. case r of AWorkspace w \<Rightarrow> k w | _ \<Rightarrow> h_fatal msg)"

definition h_api :: "'d heap_rig \<Rightarrow> string \<Rightarrow> (HWorkspace, HAPI, HKey, slice) request \<Rightarrow> (HAPI \<Rightarrow> 'd heap_test) \<Rightarrow> 'd heap_test" where
  "h_api R msg q k = h_exec R q (\<lambda>r. case r of AAPI a \<Rightarrow> k a | _ \<Rightarrow> h_fatal msg)"

definition h_key :: "'d heap_rig \<Rightarrow> string \<Rightarrow> (HWorkspace, HAPI, HKey, slice) request \<Rightarrow> (HKey \<Rightarrow> 'd heap_test) \<Rightarrow> 'd heap_test" where
  "h_key R msg q k = h_exec R q (\<lambda>r. case r of AKey x \<Rightarrow> k x | _ \<Rightarrow> h_fatal msg)"

definition h_keys :: "'d heap_rig \<Rightarrow> string \<Rightarrow> (HWorkspace, HAPI, HKey, slice) request \<Rightarrow> (HKey list \<Rightarrow> 'd heap_test) \<Rightarrow> 'd heap_test" where
  "h_keys R msg q k = h_exec R q (\<lambda>r. case r of AKeys ks tok \<Rightarrow> k ks | _ \<Rightarrow> h_fatal msg)"

text \<open>Literals allocate; element and entry assignments write, or panic on a nil map or pointer or an index out of range.\<close>

definition lit_bytes :: "bytes \<Rightarrow> heap \<Rightarrow> (slice \<times> heap) option" where
  "lit_bytes xs h = Some (Some (hp_lim h, 0, length xs),
     h\<lparr>hp_bytes := (hp_bytes h)(hp_lim h := xs), hp_lim := Suc (hp_lim h)\<rparr>)"

definition lit_strings :: "string list \<Rightarrow> heap \<Rightarrow> (slice \<times> heap) option" where
  "lit_strings xs h = Some (Some (hp_lim h, 0, length xs),
     h\<lparr>hp_strings := (hp_strings h)(hp_lim h := xs), hp_lim := Suc (hp_lim h)\<rparr>)"

definition lit_refs :: "LimitRef list \<Rightarrow> heap \<Rightarrow> (slice \<times> heap) option" where
  "lit_refs xs h = Some (Some (hp_lim h, 0, length xs),
     h\<lparr>hp_refs := (hp_refs h)(hp_lim h := xs), hp_lim := Suc (hp_lim h)\<rparr>)"

definition lit_time :: "gotime \<Rightarrow> heap \<Rightarrow> (addr option \<times> heap) option" where
  "lit_time t h = (case new_time t h of (a, h') \<Rightarrow> Some (Some a, h'))"

definition lit_map :: "(string \<rightharpoonup> string) \<Rightarrow> heap \<Rightarrow> (addr option \<times> heap) option" where
  "lit_map m h = Some (Some (hp_lim h), h\<lparr>hp_maps := (hp_maps h)(hp_lim h := m), hp_lim := Suc (hp_lim h)\<rparr>)"

definition put_byte :: "slice \<Rightarrow> nat \<Rightarrow> byte \<Rightarrow> heap \<Rightarrow> heap option" where
  "put_byte sl i v h =
     (case sl of
        None \<Rightarrow> None
      | Some (a, off, len) \<Rightarrow>
          if i < len then Some (h\<lparr>hp_bytes := (hp_bytes h)(a := (hp_bytes h a)[off + i := v])\<rparr>) else None)"

definition put_string :: "slice \<Rightarrow> nat \<Rightarrow> string \<Rightarrow> heap \<Rightarrow> heap option" where
  "put_string sl i v h =
     (case sl of
        None \<Rightarrow> None
      | Some (a, off, len) \<Rightarrow>
          if i < len then Some (h\<lparr>hp_strings := (hp_strings h)(a := (hp_strings h a)[off + i := v])\<rparr>) else None)"

definition put_LimitID :: "slice \<Rightarrow> nat \<Rightarrow> string \<Rightarrow> heap \<Rightarrow> heap option" where
  "put_LimitID sl i v h =
     (case sl of
        None \<Rightarrow> None
      | Some (a, off, len) \<Rightarrow>
          if i < len
          then Some (h\<lparr>hp_refs := (hp_refs h)(a := (hp_refs h a)[off + i := (hp_refs h a ! (off + i))\<lparr>lr_LimitID := v\<rparr>])\<rparr>)
          else None)"

definition add_time :: "addr option \<Rightarrow> gotime \<Rightarrow> heap \<Rightarrow> heap option" where
  "add_time p d h = (case p of None \<Rightarrow> None | Some a \<Rightarrow> Some (h\<lparr>hp_times := (hp_times h)(a := hp_times h a + d)\<rparr>))"

definition put_entry :: "addr option \<Rightarrow> string \<Rightarrow> string \<Rightarrow> heap \<Rightarrow> heap option" where
  "put_entry p k v h =
     (case p of None \<Rightarrow> None | Some a \<Rightarrow> Some (h\<lparr>hp_maps := (hp_maps h)(a := (hp_maps h a)(k \<mapsto> v))\<rparr>))"

text \<open>A statement without a result.\<close>

definition stmt :: "(heap \<Rightarrow> heap option) \<Rightarrow> 'd heap_test \<Rightarrow> 'd heap_test" where
  "stmt f k = h_local (\<lambda>h. map_option (Pair ()) (f h)) (\<lambda>_. k)"

definition h_newWorkspace :: "string \<Rightarrow> HWorkspace" where
  "h_newWorkspace name = \<lparr>hw_WorkspaceID = [], hw_Name = name, hw_OwnerPrincipalID = ''user_owner'',
     hw_CreatedAt = zero_time, hw_UpdatedAt = zero_time, hw_Metadata = None\<rparr>"

definition h_newAPI :: "string \<Rightarrow> string \<Rightarrow> HAPI" where
  "h_newAPI workspaceID name = \<lparr>ha_APIID = [], ha_WorkspaceID = workspaceID, ha_Name = name,
     ha_KeyPrefix = ''ck_test_'', ha_CreatedAt = zero_time, ha_UpdatedAt = zero_time, ha_Metadata = None\<rparr>"

text \<open>\<open>newKey\<close>; its permissions are a new slice.\<close>

definition h_newKey :: "string \<Rightarrow> string \<Rightarrow> string \<Rightarrow> slice \<Rightarrow> heap \<Rightarrow> (HKey \<times> heap) option" where
  "h_newKey apiID workspaceID owner hash h =
     (case lit_strings [''chat:write''] h of
        None \<Rightarrow> None
      | Some (perms, h) \<Rightarrow> Some
          (\<lparr>hk_KeyID = [], hk_APIID = apiID, hk_WorkspaceID = workspaceID, hk_OwnerPrincipalID = owner,
            hk_Name = ''test-key'', hk_KeyHash = hash, hk_Permissions = perms, hk_LimitRefs = None,
            hk_ExpiresAt = None, hk_RemainingUses = -1, hk_Enabled = True, hk_CreatedAt = zero_time,
            hk_UpdatedAt = zero_time, hk_LastVerifiedAt = None, hk_Metadata = None\<rparr>, h))"

definition h_seeded :: "'d heap_rig \<Rightarrow> (HWorkspace \<Rightarrow> HAPI \<Rightarrow> 'd heap_test) \<Rightarrow> 'd heap_test" where
  "h_seeded R k =
     h_workspace R ''seed workspace'' (QCreateWorkspace (h_newWorkspace ''acme'')) (\<lambda>w.
     h_api R ''seed api'' (QCreateAPI (h_newAPI (hw_WorkspaceID w) ''prod'')) (k w))"

text \<open>The snapshot, with the references the test keeps in it, compared through the heap of that moment.\<close>

record heapSnapshot =
  hsn_hash :: slice
  hsn_permissions :: "string list"
  hsn_limitRefs :: "LimitRef list"
  hsn_expiresAt :: "addr option"
  hsn_lastVerifiedAt :: "addr option"
  hsn_metadata :: gomap

definition h_assertKeyFields :: "HKey \<Rightarrow> heapSnapshot \<Rightarrow> 'd heap_test \<Rightarrow> 'd heap_test" where
  "h_assertKeyFields got want k n h s =
     (case assertKeyFields (key_val h got)
             \<lparr>ks_hash = slice_read (hp_bytes h) (hsn_hash want), ks_permissions = hsn_permissions want,
              ks_limitRefs = hsn_limitRefs want, ks_expiresAt = map_option (hp_times h) (hsn_expiresAt want),
              ks_lastVerifiedAt = map_option (hp_times h) (hsn_lastVerifiedAt want),
              ks_metadata = hsn_metadata want\<rparr> pass n () of
        Passed \<Rightarrow> k n h s
      | Failed msg \<Rightarrow> Failed msg)"

definition h_mutateKeyValue :: "HKey \<Rightarrow> 'd heap_test \<Rightarrow> 'd heap_test" where
  "h_mutateKeyValue k rest =
     stmt (\<lambda>h. if 0 < length (slice_read (hp_bytes h) (hk_KeyHash k))
       then put_byte (hk_KeyHash k) 0 (slice_read (hp_bytes h) (hk_KeyHash k) ! 0 XOR 0xff) h else Some h) (
     stmt (\<lambda>h. if 0 < length (slice_read (hp_strings h) (hk_Permissions k))
       then put_string (hk_Permissions k) 0 ''mutated'' h else Some h) (
     stmt (\<lambda>h. if 0 < length (slice_read (hp_refs h) (hk_LimitRefs k))
       then put_LimitID (hk_LimitRefs k) 0 ''mutated'' h else Some h) (
     stmt (\<lambda>h. if hk_ExpiresAt k \<noteq> None then add_time (hk_ExpiresAt k) time_Hour h else Some h) (
     stmt (\<lambda>h. if hk_LastVerifiedAt k \<noteq> None then add_time (hk_LastVerifiedAt k) time_Hour h else Some h) (
     stmt (\<lambda>h. if hk_Metadata k \<noteq> None then put_entry (hk_Metadata k) ''env'' ''mutated'' h else Some h) rest)))))"

definition h_now :: "'d heap_rig \<Rightarrow> (gotime \<Rightarrow> 'd heap_test) \<Rightarrow> 'd heap_test" where
  "h_now R k n h s = k (hr_clock R n) (Suc n) h s"

definition heap_testWorkspaceMetadataIsIsolated :: "'d heap_rig \<Rightarrow> 'd heap_test" where
  "heap_testWorkspaceMetadataIsIsolated R =
     h_local (lit_map [''tier'' \<mapsto> ''prod'']) (\<lambda>meta.
     h_workspace R ''create'' (QCreateWorkspace ((h_newWorkspace ''acme'')\<lparr>hw_Metadata := meta\<rparr>)) (\<lambda>created.
     stmt (put_entry meta ''tier'' ''mutated'') (
     stmt (put_entry meta ''new'' ''leak'') (
     h_workspace R ''get'' (QGetWorkspace (hw_WorkspaceID created)) (\<lambda>got.
     h_require (\<lambda>h. maps_Equal (map_option (hp_maps h) (hw_Metadata got)) (Some [''tier'' \<mapsto> ''prod''])) ''Metadata'' (
     stmt (put_entry (hw_Metadata got) ''tier'' ''client-mutated'') (
     h_workspace R ''get again'' (QGetWorkspace (hw_WorkspaceID created)) (\<lambda>again.
     h_require (\<lambda>h. maps_Equal (map_option (hp_maps h) (hw_Metadata again)) (Some [''tier'' \<mapsto> ''prod'']))
       ''Metadata changed after mutating returned value'' h_pass))))))))"

definition heap_testAPIMetadataIsIsolated :: "'d heap_rig \<Rightarrow> 'd heap_test" where
  "heap_testAPIMetadataIsIsolated R =
     h_workspace R ''seed workspace'' (QCreateWorkspace (h_newWorkspace ''acme'')) (\<lambda>w.
     h_local (lit_map [''region'' \<mapsto> ''eu'']) (\<lambda>meta.
     h_api R ''create'' (QCreateAPI ((h_newAPI (hw_WorkspaceID w) ''prod'')\<lparr>ha_KeyPrefix := ''ck_prod_'', ha_Metadata := meta\<rparr>)) (\<lambda>created.
     stmt (put_entry meta ''region'' ''mutated'') (
     stmt (put_entry meta ''new'' ''leak'') (
     h_api R ''get'' (QGetAPI (ha_APIID created)) (\<lambda>got.
     h_require (\<lambda>h. maps_Equal (map_option (hp_maps h) (ha_Metadata got)) (Some [''region'' \<mapsto> ''eu''])) ''Metadata'' (
     stmt (put_entry (ha_Metadata got) ''region'' ''client-mutated'') (
     h_api R ''get again'' (QGetAPI (ha_APIID created)) (\<lambda>again.
     h_require (\<lambda>h. maps_Equal (map_option (hp_maps h) (ha_Metadata again)) (Some [''region'' \<mapsto> ''eu'']))
       ''Metadata changed after mutating returned value'' h_pass)))))))))"

abbreviation sample_refs :: "LimitRef list" where
  "sample_refs \<equiv> [\<lparr>lr_LimitID = ''tokens'', lr_ScopeKey = ''user:user_1''\<rparr>]"

definition heap_testKeyInputMutationDoesNotChangeStoredKey :: "'d heap_rig \<Rightarrow> 'd heap_test" where
  "heap_testKeyInputMutationDoesNotChangeStoredKey R =
     h_seeded R (\<lambda>w a. h_now R (\<lambda>now1. h_now R (\<lambda>now2.
     h_local (lit_time (Truncate_Second (now1 + time_Hour))) (\<lambda>expires.
     h_local (lit_time (Truncate_Second (now2 - time_Hour))) (\<lambda>lastVerified.
     h_local (lit_bytes (Repeat32 0xdd)) (\<lambda>hash.
     h_local (h_newKey (ha_APIID a) (hw_WorkspaceID w) ''user_1'' hash) (\<lambda>k.
     h_local (lit_strings [''chat:read'', ''chat:write'']) (\<lambda>perms.
     h_local (lit_refs sample_refs) (\<lambda>refs.
     h_local (lit_map [''env'' \<mapsto> ''test'']) (\<lambda>meta.
     let k = k\<lparr>hk_Permissions := perms, hk_LimitRefs := refs, hk_ExpiresAt := expires,
               hk_LastVerifiedAt := lastVerified, hk_Metadata := meta\<rparr> in
     h_local (\<lambda>h. Some (append_bytes hash h)) (\<lambda>wantHash.
     h_local (\<lambda>h. lit_time (hp_times h (the expires)) h) (\<lambda>wantExpires.
     h_local (\<lambda>h. lit_time (hp_times h (the lastVerified)) h) (\<lambda>wantLastVerified.
     h_key R ''create'' (QCreateKey k) (\<lambda>created.
     stmt (put_byte (hk_KeyHash k) 0 0xee) (
     stmt (put_string (hk_Permissions k) 0 ''mutated'') (
     stmt (put_LimitID (hk_LimitRefs k) 0 ''mutated'') (
     stmt (add_time (hk_ExpiresAt k) time_Hour) (
     stmt (add_time (hk_LastVerifiedAt k) time_Hour) (
     stmt (put_entry (hk_Metadata k) ''env'' ''mutated'') (
     h_key R ''get'' (QGetKeyByID (hk_KeyID created)) (\<lambda>got.
     h_assertKeyFields got
       \<lparr>hsn_hash = wantHash, hsn_permissions = [''chat:read'', ''chat:write''], hsn_limitRefs = sample_refs,
        hsn_expiresAt = wantExpires, hsn_lastVerifiedAt = wantLastVerified,
        hsn_metadata = Some [''env'' \<mapsto> ''test'']\<rparr> h_pass)))))))))))))))))))))"

text \<open>The two tests that write through what a read returned share their beginning.\<close>

definition h_stored_key ::
  "'d heap_rig \<Rightarrow> byte \<Rightarrow> (HAPI \<Rightarrow> slice \<Rightarrow> addr option \<Rightarrow> HKey \<Rightarrow> 'd heap_test) \<Rightarrow> 'd heap_test" where
  "h_stored_key R b rest =
     h_seeded R (\<lambda>w a. h_now R (\<lambda>now1.
     h_local (lit_time (Truncate_Second (now1 + time_Hour))) (\<lambda>expires.
     h_local (lit_bytes (Repeat32 b)) (\<lambda>hash.
     h_local (h_newKey (ha_APIID a) (hw_WorkspaceID w) ''user_1'' hash) (\<lambda>k.
     h_local (lit_strings [''chat:read'']) (\<lambda>perms.
     h_local (lit_refs sample_refs) (\<lambda>refs.
     h_local (lit_map [''env'' \<mapsto> ''test'']) (\<lambda>meta.
     let k = k\<lparr>hk_Permissions := perms, hk_LimitRefs := refs, hk_ExpiresAt := expires, hk_Metadata := meta\<rparr> in
     h_key R ''create'' (QCreateKey k) (rest a hash expires)))))))))"

definition h_stored_snapshot :: "slice \<Rightarrow> addr option \<Rightarrow> heapSnapshot" where
  "h_stored_snapshot hash expires = \<lparr>hsn_hash = hash, hsn_permissions = [''chat:read''],
     hsn_limitRefs = sample_refs, hsn_expiresAt = expires, hsn_lastVerifiedAt = None,
     hsn_metadata = Some [''env'' \<mapsto> ''test'']\<rparr>"

definition heap_testKeyLookupMutationDoesNotChangeStoredKey :: "'d heap_rig \<Rightarrow> 'd heap_test" where
  "heap_testKeyLookupMutationDoesNotChangeStoredKey R =
     h_stored_key R 0xde (\<lambda>a hash expires created.
     h_key R ''get'' (QGetKeyByID (hk_KeyID created)) (\<lambda>got.
     h_mutateKeyValue got (
     h_key R ''get again'' (QGetKeyByID (hk_KeyID created)) (\<lambda>again.
     h_assertKeyFields again (h_stored_snapshot hash expires) h_pass))))"

definition heap_testKeyListMutationDoesNotChangeStoredKey :: "'d heap_rig \<Rightarrow> 'd heap_test" where
  "heap_testKeyListMutationDoesNotChangeStoredKey R =
     h_stored_key R 0xdf (\<lambda>a hash expires created.
     h_keys R ''list'' (QListKeys (list_opts (ha_APIID a) 1 [])) (\<lambda>keys.
     h_require (\<lambda>h. length keys = 1) ''list returned keys, want 1'' (
     h_mutateKeyValue (keys ! 0) (
     h_key R ''get again'' (QGetKeyByID (hk_KeyID created)) (\<lambda>again.
     h_assertKeyFields again (h_stored_snapshot hash expires) h_pass)))))"

definition heap_suite :: "(string \<times> ('d heap_rig \<Rightarrow> 'd heap_test)) list" where
  "heap_suite =
     [(''WorkspaceMetadataIsIsolated'', heap_testWorkspaceMetadataIsIsolated),
      (''ApiMetadataIsIsolated'', heap_testAPIMetadataIsIsolated),
      (''KeyInputMutationDoesNotChangeStoredKey'', heap_testKeyInputMutationDoesNotChangeStoredKey),
      (''KeyLookupMutationDoesNotChangeStoredKey'', heap_testKeyLookupMutationDoesNotChangeStoredKey),
      (''KeyListMutationDoesNotChangeStoredKey'', heap_testKeyListMutationDoesNotChangeStoredKey)]"

section \<open>Drivers the tests run on\<close>

text \<open>
  A call that was answered: only new addresses were allocated, and what the callers know, the answer
  included, is still apart from what the driver keeps.
\<close>

definition answered ::
  "'d heap_rig \<Rightarrow> (heap \<Rightarrow> 'd \<Rightarrow> addr set \<Rightarrow> bool) \<Rightarrow> nat \<Rightarrow> heap \<Rightarrow> 'd \<Rightarrow> addr set \<Rightarrow>
   (HWorkspace, HAPI, HKey, slice) request \<Rightarrow> (HWorkspace, HAPI, HKey) response \<Rightarrow> heap \<Rightarrow> 'd \<Rightarrow> bool" where
  "answered R dsep n h s C q r h' s' \<longleftrightarrow>
     hr_exec R n h s q = (r, h', s') \<and> extends h h' \<and> dsep h' s' (C \<union> response_addrs r)"

lemma h_answered:
  "answered R dsep n h s C q (AWorkspace w) h' s' \<Longrightarrow> k w (Suc n) h' s' = Passed \<Longrightarrow> h_workspace R msg q k n h s = Passed"
  "answered R dsep n h s C q (AAPI a) h' s' \<Longrightarrow> ka a (Suc n) h' s' = Passed \<Longrightarrow> h_api R msg q ka n h s = Passed"
  "answered R dsep n h s C q (AKey x) h' s' \<Longrightarrow> kk x (Suc n) h' s' = Passed \<Longrightarrow> h_key R msg q kk n h s = Passed"
  "answered R dsep n h s C q (AKeys xs tok) h' s' \<Longrightarrow> kl xs (Suc n) h' s' = Passed \<Longrightarrow> h_keys R msg q kl n h s = Passed"
  by (simp_all add: answered_def h_workspace_def h_api_def h_key_def h_keys_def h_exec_def)

lemma answeredD:
  "answered R dsep n h s C q r h' s' \<Longrightarrow> extends h h'" "answered R dsep n h s C q r h' s' \<Longrightarrow> dsep h' s' (C \<union> response_addrs r)"
  by (simp_all add: answered_def)

section \<open>The test's own code\<close>

lemma request_addrs_simps [simp]:
  "request_addrs (QCreateWorkspace w) = ws_addrs w" "request_addrs (QGetWorkspace i) = {}"
  "request_addrs (QCreateAPI a) = api_addrs a" "request_addrs (QGetAPI i) = {}" "request_addrs (QCreateKey k) = key_addrs k"
  "request_addrs (QGetKeyByID i) = {}" "request_addrs (QListKeys opts) = {}"
  by (simp_all add: request_addrs_def)

lemma request_val_simps [simp]:
  "request_val h (QCreateWorkspace w) = QCreateWorkspace (ws_val h w)" "request_val h (QGetWorkspace i) = QGetWorkspace i"
  "request_val h (QCreateAPI a) = QCreateAPI (api_val h a)" "request_val h (QGetAPI i) = QGetAPI i"
  "request_val h (QCreateKey k) = QCreateKey (key_val h k)" "request_val h (QGetKeyByID i) = QGetKeyByID i"
  "request_val h (QListKeys opts) = QListKeys opts"
  by (simp_all add: request_val_def)

lemma h_require_Passed: "b h \<Longrightarrow> k n h s = Passed \<Longrightarrow> h_require b msg k n h s = Passed"
  by (simp add: h_require_def)

lemma heap_agree_trans: "heap_agree A h1 h2 \<Longrightarrow> heap_agree A h2 h3 \<Longrightarrow> heap_agree A h1 h3"
  by (simp add: heap_agree_def)

lemma heap_agree_mono: "heap_agree A h h' \<Longrightarrow> B \<subseteq> A \<Longrightarrow> heap_agree B h h'"
  by (auto simp: heap_agree_def)

text \<open>A statement that does not panic and writes only inside \<open>A\<close>.\<close>

definition writes_in :: "addr set \<Rightarrow> (heap \<Rightarrow> heap option) \<Rightarrow> heap \<Rightarrow> bool" where
  "writes_in A f h \<longleftrightarrow> (\<exists>h'. f h = Some h' \<and> heap_agree (- A) h h' \<and> hp_lim h' = hp_lim h)"

lemma stmt_writes_in:
  assumes "writes_in A f h"
    and "\<And>h'. heap_agree (- A) h h' \<Longrightarrow> hp_lim h' = hp_lim h \<Longrightarrow> k n h' s = Passed"
  shows "stmt f k n h s = Passed"
  using assms by (auto simp: writes_in_def stmt_def h_local_def)

lemma writes_in_if: "(b h \<Longrightarrow> writes_in A f h) \<Longrightarrow> writes_in A (\<lambda>h. if b h then f h else Some h) h"
  by (simp add: writes_in_def heap_agree_def)

lemmas put_defs = put_byte_def put_string_def put_LimitID_def add_time_def put_entry_def

lemma writes_in_put:
  "slice_addrs sl \<subseteq> A \<Longrightarrow> 0 < length (slice_read (hp_bytes h) sl) \<Longrightarrow> writes_in A (\<lambda>h. put_byte sl 0 (b h) h) h"
  "slice_addrs sl \<subseteq> A \<Longrightarrow> 0 < length (slice_read (hp_strings h) sl) \<Longrightarrow> writes_in A (put_string sl 0 x) h"
  "slice_addrs sl \<subseteq> A \<Longrightarrow> 0 < length (slice_read (hp_refs h) sl) \<Longrightarrow> writes_in A (put_LimitID sl 0 x) h"
  "set_option p \<subseteq> A \<Longrightarrow> p \<noteq> None \<Longrightarrow> writes_in A (add_time p d) h"
  "set_option p \<subseteq> A \<Longrightarrow> p \<noteq> None \<Longrightarrow> writes_in A (put_entry p x y) h"
  by (auto simp: writes_in_def put_defs slice_addrs_def slice_read_def heap_agree_def split: option.splits prod.splits)

lemma key_addrs_parts:
  "slice_addrs (hk_KeyHash k) \<subseteq> key_addrs k" "slice_addrs (hk_Permissions k) \<subseteq> key_addrs k"
  "slice_addrs (hk_LimitRefs k) \<subseteq> key_addrs k" "set_option (hk_ExpiresAt k) \<subseteq> key_addrs k"
  "set_option (hk_LastVerifiedAt k) \<subseteq> key_addrs k" "set_option (hk_Metadata k) \<subseteq> key_addrs k"
  by (auto simp: key_addrs_def)

text \<open>\<open>mutateKeyValue\<close> never panics and writes only where the key points.\<close>

lemma h_mutateKeyValue_Passed:
  assumes "\<And>h'. heap_agree (- key_addrs k) h h' \<Longrightarrow> hp_lim h' = hp_lim h \<Longrightarrow> rest n h' s = Passed"
  shows "h_mutateKeyValue k rest n h s = Passed"
  unfolding h_mutateKeyValue_def
  apply (rule stmt_writes_in, rule writes_in_if, erule writes_in_put(1) [OF key_addrs_parts(1)])
  apply (rule stmt_writes_in, rule writes_in_if, erule writes_in_put(2) [OF key_addrs_parts(2)])
  apply (rule stmt_writes_in, rule writes_in_if, erule writes_in_put(3) [OF key_addrs_parts(3)])
  apply (rule stmt_writes_in, rule writes_in_if, erule writes_in_put(4) [OF key_addrs_parts(4)])
  apply (rule stmt_writes_in, rule writes_in_if, erule writes_in_put(4) [OF key_addrs_parts(5)])
  apply (rule stmt_writes_in, rule writes_in_if, erule writes_in_put(5) [OF key_addrs_parts(6)])
  apply (rule assms)
   apply (blast intro: heap_agree_trans)
  apply simp
  done

text \<open>The sample key stays what it was: in an extension, and after a write elsewhere.\<close>

definition holds_sample :: "Key \<Rightarrow> slice \<Rightarrow> addr option \<Rightarrow> heap \<Rightarrow> bool" where
  "holds_sample kv hash expires h \<longleftrightarrow> slice_addrs hash \<union> set_option expires \<subseteq> {..<hp_lim h} \<and>
     slice_read (hp_bytes h) hash = k_KeyHash kv \<and> map_option (hp_times h) expires = k_ExpiresAt kv \<and>
     k_Permissions kv = [''chat:read''] \<and> k_LimitRefs kv = sample_refs \<and> k_LastVerifiedAt kv = None \<and>
     k_Metadata kv = Some [''env'' \<mapsto> ''test'']"

lemma holds_sample_extends: "holds_sample kv hash expires h \<Longrightarrow> extends h h' \<Longrightarrow> holds_sample kv hash expires h'"
  using extends_read(1,4) [of h h'] by (simp add: holds_sample_def) (fastforce simp: extends_def)

lemma holds_sample_agree:
  assumes "holds_sample kv hash expires h" "extends h h1" "A \<subseteq> {hp_lim h..<hp_lim h1}"
    and "heap_agree (- A) h1 h2" "hp_lim h2 = hp_lim h1"
  shows "holds_sample kv hash expires h2"
proof -
  have "{..<hp_lim h} \<subseteq> - A" using assms(3) by auto
  with assms(4) have "heap_agree {..<hp_lim h} h1 h2" by (rule heap_agree_mono)
  with assms(2,5) have "extends h h2" by (auto simp: extends_def intro: heap_agree_trans)
  with assms(1) show ?thesis by (rule holds_sample_extends)
qed

lemma holds_sample_asserted:
  assumes "holds_sample (key_val h got) hash expires h"
  shows "h_assertKeyFields got (h_stored_snapshot hash expires) h_pass n h s = Passed"
  using assms by (simp add: h_assertKeyFields_def assertKeyFields_def h_stored_snapshot_def holds_sample_def
      sameOptionalTime_def pass_def h_pass_def require_def del: map_option_eq_Some split: option.splits)

lemmas literal_defs = h_now_def h_local_def lit_bytes_def lit_strings_def lit_refs_def lit_map_def lit_time_def
  new_time_def h_newKey_def

lemma writes_in_at:
  "a \<in> A \<Longrightarrow> i < len \<Longrightarrow> writes_in A (put_byte (Some (a, off, len)) i b) h"
  "a \<in> A \<Longrightarrow> i < len \<Longrightarrow> writes_in A (put_string (Some (a, off, len)) i x) h"
  "a \<in> A \<Longrightarrow> i < len \<Longrightarrow> writes_in A (put_LimitID (Some (a, off, len)) i x) h"
  "a \<in> A \<Longrightarrow> writes_in A (add_time (Some a) d) h"
  "a \<in> A \<Longrightarrow> writes_in A (put_entry (Some a) x y) h"
  by (simp_all add: writes_in_def put_defs heap_agree_def)

lemma meta_of_val:
  "ws_val h w = v \<Longrightarrow> map_option (hp_maps h) (hw_Metadata w) = w_Metadata v"
  "api_val h a = va \<Longrightarrow> map_option (hp_maps h) (ha_Metadata a) = a_Metadata va"
  by (auto simp: ws_val_def api_val_def)

section \<open>What the tests need of a driver\<close>

locale isolated_driver =
  fixes R :: "'d heap_rig"
    and new :: 'd
    and dsep :: "heap \<Rightarrow> 'd \<Rightarrow> addr set \<Rightarrow> bool"
    and dview :: "heap \<Rightarrow> 'd \<Rightarrow> view"
    and nt :: "gotime \<Rightarrow> gotime"
    and nm :: "gomap \<Rightarrow> gomap"
    and nr :: "LimitRef list \<Rightarrow> LimitRef list"
  assumes new_sep: "dsep h new {}"
    and new_view: "v_workspaces (dview h new) = Map.empty" "v_apis (dview h new) = Map.empty" "v_keys (dview h new) = Map.empty"
    and caller_sep: "dsep h s C \<Longrightarrow> caller_write h C h' C' \<Longrightarrow> dsep h' s C'"
    and caller_view: "dsep h s C \<Longrightarrow> caller_write h C h' C' \<Longrightarrow> dview h' s = dview h s"
    and first_workspace: "dsep h s C \<Longrightarrow> ws_addrs w \<subseteq> C \<Longrightarrow> v_workspaces (dview h s) = Map.empty \<Longrightarrow>
      \<exists>w' h' s' t. answered R dsep n h s C (QCreateWorkspace w) (AWorkspace w') h' s' \<and>
        dview h' s' = (dview h s)\<lparr>v_workspaces :=
          [hw_WorkspaceID w' \<mapsto> norm_workspace nt nm (stamp_workspace (hw_WorkspaceID w') t (ws_val h w))]\<rparr>"
    and read_workspace: "dsep h s C \<Longrightarrow> v_workspaces (dview h s) i = Some vw \<Longrightarrow>
      \<exists>w' h' s'. answered R dsep n h s C (QGetWorkspace i) (AWorkspace w') h' s' \<and> ws_val h' w' = vw \<and>
        dview h' s' = dview h s"
    and first_api: "dsep h s C \<Longrightarrow> api_addrs a \<subseteq> C \<Longrightarrow> v_apis (dview h s) = Map.empty \<Longrightarrow>
      ha_WorkspaceID a \<in> dom (v_workspaces (dview h s)) \<Longrightarrow>
      \<exists>a' h' s' t. answered R dsep n h s C (QCreateAPI a) (AAPI a') h' s' \<and>
        dview h' s' = (dview h s)\<lparr>v_apis := [ha_APIID a' \<mapsto> norm_api nt nm (stamp_api (ha_APIID a') t (api_val h a))]\<rparr>"
    and read_api: "dsep h s C \<Longrightarrow> v_apis (dview h s) i = Some va \<Longrightarrow>
      \<exists>a' h' s'. answered R dsep n h s C (QGetAPI i) (AAPI a') h' s' \<and> api_val h' a' = va \<and> dview h' s' = dview h s"
    and first_key: "dsep h s C \<Longrightarrow> key_addrs k \<subseteq> C \<Longrightarrow> v_keys (dview h s) = Map.empty \<Longrightarrow>
      hk_APIID k \<in> dom (v_apis (dview h s)) \<Longrightarrow> hk_WorkspaceID k \<in> dom (v_workspaces (dview h s)) \<Longrightarrow>
      \<exists>k' h' s' t. answered R dsep n h s C (QCreateKey k) (AKey k') h' s' \<and>
        dview h' s' = (dview h s)\<lparr>v_keys := [hk_KeyID k' \<mapsto> norm_key nt nm nr (stamp_key (hk_KeyID k') t (key_val h k))]\<rparr>"
    and read_key: "dsep h s C \<Longrightarrow> v_keys (dview h s) i = Some vk \<Longrightarrow>
      \<exists>k' h' s'. answered R dsep n h s C (QGetKeyByID i) (AKey k') h' s' \<and> key_val h' k' = vk \<and>
        key_addrs k' \<subseteq> {hp_lim h..<hp_lim h'} \<and> dview h' s' = dview h s"
    and list_only_key: "dsep h s C \<Longrightarrow> v_keys (dview h s) = [i \<mapsto> vk] \<Longrightarrow> k_APIID vk = j \<Longrightarrow>
      \<exists>k' h' s'. answered R dsep n h s C (QListKeys (list_opts j 1 [])) (AKeys [k'] []) h' s' \<and> key_val h' k' = vk \<and>
        key_addrs k' \<subseteq> {hp_lim h..<hp_lim h'} \<and> dview h' s' = dview h s"
    and kept_time: "nt (Truncate_Second t) = Truncate_Second t"
    and kept_refs: "nr sample_refs = sample_refs"
    and kept_meta: "nm (Some [''tier'' \<mapsto> ''prod'']) = Some [''tier'' \<mapsto> ''prod'']"
      "nm (Some [''region'' \<mapsto> ''eu'']) = Some [''region'' \<mapsto> ''eu'']"
      "nm (Some [''env'' \<mapsto> ''test'']) = Some [''env'' \<mapsto> ''test'']"
begin

text \<open>The driver's calls in a test.\<close>

lemma first_workspace_Passed:
  assumes "dsep h s C" "ws_addrs w \<subseteq> C" "v_workspaces (dview h s) = Map.empty"
    and "\<And>w' h' s' t. extends h h' \<Longrightarrow> dsep h' s' (C \<union> ws_addrs w') \<Longrightarrow> dview h' s' = (dview h s)\<lparr>v_workspaces :=
        [hw_WorkspaceID w' \<mapsto> norm_workspace nt nm (stamp_workspace (hw_WorkspaceID w') t (ws_val h w))]\<rparr> \<Longrightarrow>
      k w' (Suc n) h' s' = Passed"
  shows "h_workspace R msg (QCreateWorkspace w) k n h s = Passed"
proof -
  from first_workspace [OF assms(1-3), of n] obtain w' h' s' t where a: "answered R dsep n h s C (QCreateWorkspace w) (AWorkspace w') h' s'"
    "dview h' s' = (dview h s)\<lparr>v_workspaces :=
        [hw_WorkspaceID w' \<mapsto> norm_workspace nt nm (stamp_workspace (hw_WorkspaceID w') t (ws_val h w))]\<rparr>" by blast
  then show ?thesis using assms(4) answeredD [OF a(1)] by (intro h_answered(1) [OF a(1)]) simp
qed

lemma read_workspace_Passed:
  assumes "dsep h s C" "v_workspaces (dview h s) i = Some v"
    and "\<And>w' h' s'. extends h h' \<Longrightarrow> dsep h' s' (C \<union> ws_addrs w') \<Longrightarrow> map_option (hp_maps h') (hw_Metadata w') = w_Metadata v \<Longrightarrow> dview h' s' = dview h s \<Longrightarrow>
      k w' (Suc n) h' s' = Passed"
  shows "h_workspace R msg (QGetWorkspace i) k n h s = Passed"
proof -
  from read_workspace [OF assms(1-2), of n] obtain w' h' s' where a: "answered R dsep n h s C (QGetWorkspace i) (AWorkspace w') h' s'"
    "ws_val h' w' = v" "dview h' s' = dview h s" by blast
  then show ?thesis using assms(3) answeredD [OF a(1)] meta_of_val(1) [OF a(2)] by (intro h_answered(1) [OF a(1)]) simp
qed

lemma first_api_Passed:
  assumes "dsep h s C" "api_addrs a \<subseteq> C" "v_apis (dview h s) = Map.empty" "ha_WorkspaceID a \<in> dom (v_workspaces (dview h s))"
    and "\<And>a' h' s' t. extends h h' \<Longrightarrow> dsep h' s' (C \<union> api_addrs a') \<Longrightarrow> dview h' s' = (dview h s)\<lparr>v_apis :=
        [ha_APIID a' \<mapsto> norm_api nt nm (stamp_api (ha_APIID a') t (api_val h a))]\<rparr> \<Longrightarrow>
      k a' (Suc n) h' s' = Passed"
  shows "h_api R msg (QCreateAPI a) k n h s = Passed"
proof -
  from first_api [OF assms(1-4), of n] obtain a' h' s' t where a: "answered R dsep n h s C (QCreateAPI a) (AAPI a') h' s'"
    "dview h' s' = (dview h s)\<lparr>v_apis :=
        [ha_APIID a' \<mapsto> norm_api nt nm (stamp_api (ha_APIID a') t (api_val h a))]\<rparr>" by blast
  then show ?thesis using assms(5) answeredD [OF a(1)] by (intro h_answered(2) [OF a(1)]) simp
qed

lemma read_api_Passed:
  assumes "dsep h s C" "v_apis (dview h s) i = Some v"
    and "\<And>a' h' s'. extends h h' \<Longrightarrow> dsep h' s' (C \<union> api_addrs a') \<Longrightarrow> map_option (hp_maps h') (ha_Metadata a') = a_Metadata v \<Longrightarrow> dview h' s' = dview h s \<Longrightarrow>
      k a' (Suc n) h' s' = Passed"
  shows "h_api R msg (QGetAPI i) k n h s = Passed"
proof -
  from read_api [OF assms(1-2), of n] obtain a' h' s' where a: "answered R dsep n h s C (QGetAPI i) (AAPI a') h' s'"
    "api_val h' a' = v" "dview h' s' = dview h s" by blast
  then show ?thesis using assms(3) answeredD [OF a(1)] meta_of_val(2) [OF a(2)] by (intro h_answered(2) [OF a(1)]) simp
qed

lemma first_key_Passed:
  assumes "dsep h s C" "key_addrs K \<subseteq> C" "v_keys (dview h s) = Map.empty" "hk_APIID K \<in> dom (v_apis (dview h s))" "hk_WorkspaceID K \<in> dom (v_workspaces (dview h s))"
    and "\<And>k' h' s' t. extends h h' \<Longrightarrow> dsep h' s' (C \<union> key_addrs k') \<Longrightarrow> dview h' s' = (dview h s)\<lparr>v_keys :=
        [hk_KeyID k' \<mapsto> norm_key nt nm nr (stamp_key (hk_KeyID k') t (key_val h K))]\<rparr> \<Longrightarrow>
      k k' (Suc n) h' s' = Passed"
  shows "h_key R msg (QCreateKey K) k n h s = Passed"
proof -
  from first_key [OF assms(1-5), of n] obtain k' h' s' t where a: "answered R dsep n h s C (QCreateKey K) (AKey k') h' s'"
    "dview h' s' = (dview h s)\<lparr>v_keys :=
        [hk_KeyID k' \<mapsto> norm_key nt nm nr (stamp_key (hk_KeyID k') t (key_val h K))]\<rparr>" by blast
  then show ?thesis using assms(6) answeredD [OF a(1)] by (intro h_answered(3) [OF a(1)]) simp
qed

lemma read_key_Passed:
  assumes "dsep h s C" "v_keys (dview h s) i = Some v"
    and "\<And>k' h' s'. extends h h' \<Longrightarrow> dsep h' s' (C \<union> key_addrs k') \<Longrightarrow> key_val h' k' = v \<Longrightarrow> key_addrs k' \<subseteq> {hp_lim h..<hp_lim h'} \<Longrightarrow> dview h' s' = dview h s \<Longrightarrow>
      k k' (Suc n) h' s' = Passed"
  shows "h_key R msg (QGetKeyByID i) k n h s = Passed"
proof -
  from read_key [OF assms(1-2), of n] obtain k' h' s' where a: "answered R dsep n h s C (QGetKeyByID i) (AKey k') h' s'"
    "key_val h' k' = v" "key_addrs k' \<subseteq> {hp_lim h..<hp_lim h'}" "dview h' s' = dview h s" by blast
  then show ?thesis using assms(3) answeredD [OF a(1)] by (intro h_answered(3) [OF a(1)]) simp
qed

lemma list_only_key_Passed:
  assumes "dsep h s C" "v_keys (dview h s) = [i \<mapsto> v]" "k_APIID v = j"
    and "\<And>k' h' s'. extends h h' \<Longrightarrow> dsep h' s' (C \<union> key_addrs k') \<Longrightarrow> key_val h' k' = v \<Longrightarrow> key_addrs k' \<subseteq> {hp_lim h..<hp_lim h'} \<Longrightarrow> dview h' s' = dview h s \<Longrightarrow>
      k [k'] (Suc n) h' s' = Passed"
  shows "h_keys R msg (QListKeys (list_opts j 1 [])) k n h s = Passed"
proof -
  from list_only_key [OF assms(1-3), of n] obtain k' h' s' where a: "answered R dsep n h s C (QListKeys (list_opts j 1 [])) (AKeys [k'] []) h' s'"
    "key_val h' k' = v" "key_addrs k' \<subseteq> {hp_lim h..<hp_lim h'}" "dview h' s' = dview h s" by blast
  then show ?thesis using assms(4) answeredD [OF a(1)] by (intro h_answered(4) [OF a(1)]) simp
qed

text \<open>The test's own steps: it writes only what it knows, and knows what it allocates.\<close>

lemma written:
  assumes "dsep h s C" "heap_agree (- A) h h'" "hp_lim h' = hp_lim h" "A \<subseteq> C"
  shows "dsep h' s C" "dview h' s = dview h s"
proof -
  have "caller_write h C h' C" using assms(2-4) by (auto simp: caller_write_def heap_agree_def)
  from caller_sep [OF assms(1) this] caller_view [OF assms(1) this] show "dsep h' s C" "dview h' s = dview h s" .
qed

lemma allocated:
  assumes "dsep h s C" "extends h h'"
  shows "dsep h' s (C \<union> {hp_lim h..<hp_lim h'})" "dview h' s = dview h s"
proof -
  have "caller_write h C h' (C \<union> {hp_lim h..<hp_lim h'})" using assms(2) by (auto simp: caller_write_def extends_def heap_agree_def)
  from caller_sep [OF assms(1) this] caller_view [OF assms(1) this]
  show "dsep h' s (C \<union> {hp_lim h..<hp_lim h'})" "dview h' s = dview h s" .
qed

lemma lit_map_Passed:
  assumes "dsep h s C"
    and "\<And>h'. dsep h' s (insert (hp_lim h) C) \<Longrightarrow> dview h' s = dview h s \<Longrightarrow> hp_maps h' (hp_lim h) = m \<Longrightarrow>
      k (Some (hp_lim h)) n h' s = Passed"
  shows "h_local (lit_map m) k n h s = Passed"
proof -
  let ?h = "h\<lparr>hp_maps := (hp_maps h)(hp_lim h := m), hp_lim := Suc (hp_lim h)\<rparr>"
  have ext: "extends h ?h" by (simp add: extends_def heap_agree_def)
  have "C \<union> {hp_lim h..<hp_lim ?h} = insert (hp_lim h) C" by auto
  with allocated [OF assms(1) ext] assms(2) [of ?h] show ?thesis by (simp add: h_local_def lit_map_def)
qed

lemma put_entry_Passed:
  assumes "dsep h s C" "set_option p \<subseteq> C" "map_option (hp_maps h) p \<noteq> None"
    and "\<And>h'. dsep h' s C \<Longrightarrow> dview h' s = dview h s \<Longrightarrow> k n h' s = Passed"
  shows "stmt (put_entry p x y) k n h s = Passed"
proof -
  obtain a where p: "p = Some a" using assms(3) by auto
  let ?h = "h\<lparr>hp_maps := (hp_maps h)(a := (hp_maps h a)(x \<mapsto> y))\<rparr>"
  have "heap_agree (- {a}) h ?h" "hp_lim ?h = hp_lim h" by (simp_all add: heap_agree_def)
  from assms(4) [OF written [OF assms(1) this]] assms(2) p show ?thesis
    by (simp add: stmt_def h_local_def put_entry_def)
qed

lemmas stored_defs = norm_workspace_def norm_api_def norm_key_def stamp_workspace_def stamp_api_def stamp_key_def

lemma WorkspaceMetadataIsIsolated: "heap_testWorkspaceMetadataIsIsolated R 0 h new = Passed"
  unfolding heap_testWorkspaceMetadataIsIsolated_def
  apply (rule lit_map_Passed [OF new_sep])
  apply (erule first_workspace_Passed, simp add: ws_addrs_def, simp add: new_view)
  apply (erule put_entry_Passed, simp, simp)
  apply (erule put_entry_Passed, simp, simp)
  apply (erule read_workspace_Passed, simp)
  apply (simp add: stored_defs ws_val_def kept_meta h_newWorkspace_def del: map_option_eq_Some)
  apply (rule h_require_Passed, simp del: map_option_eq_Some)
  apply (erule put_entry_Passed, unfold ws_addrs_def, blast, simp del: map_option_eq_Some)
  apply (erule read_workspace_Passed, simp)
  apply (simp add: h_require_def h_pass_def kept_meta del: map_option_eq_Some)
  done

lemma APIMetadataIsIsolated: "heap_testAPIMetadataIsIsolated R 0 h new = Passed"
  unfolding heap_testAPIMetadataIsIsolated_def
  apply (rule first_workspace_Passed [OF new_sep], simp add: ws_addrs_def h_newWorkspace_def, simp add: new_view)
  apply (erule lit_map_Passed)
  apply (erule first_api_Passed, simp add: api_addrs_def, simp add: new_view, simp add: h_newAPI_def)
  apply (erule put_entry_Passed, simp, simp)
  apply (erule put_entry_Passed, simp, simp)
  apply (erule read_api_Passed, simp)
  apply (simp add: stored_defs api_val_def kept_meta h_newAPI_def del: map_option_eq_Some)
  apply (rule h_require_Passed, simp del: map_option_eq_Some)
  apply (erule put_entry_Passed, unfold api_addrs_def, blast, simp del: map_option_eq_Some)
  apply (erule read_api_Passed, simp)
  apply (simp add: h_require_def h_pass_def kept_meta del: map_option_eq_Some)
  done

text \<open>The seeded store, as the key tests use it.\<close>

lemma seeded_Passed:
  assumes "\<And>w a h' s' C. dsep h' s' C \<Longrightarrow> ha_APIID a \<in> dom (v_apis (dview h' s')) \<Longrightarrow>
      hw_WorkspaceID w \<in> dom (v_workspaces (dview h' s')) \<Longrightarrow> v_keys (dview h' s') = Map.empty \<Longrightarrow>
      k w a (Suc (Suc 0)) h' s' = Passed"
  shows "h_seeded R k 0 h new = Passed"
  unfolding h_seeded_def
  apply (rule first_workspace_Passed [OF new_sep], simp add: ws_addrs_def h_newWorkspace_def, simp add: new_view)
  apply (erule first_api_Passed, simp add: api_addrs_def h_newAPI_def, simp add: new_view, simp add: h_newAPI_def)
  apply (rule assms, assumption, simp_all add: new_view)
  done

text \<open>Creating the only key of a seeded store, from what the test has allocated since.\<close>

lemma create_Passed:
  assumes "dsep h s C" "extends h H" "key_addrs K \<subseteq> {hp_lim h..<hp_lim H}"
    and "hk_APIID K \<in> dom (v_apis (dview h s))" "hk_WorkspaceID K \<in> dom (v_workspaces (dview h s))"
    and "v_keys (dview h s) = Map.empty"
    and "\<And>x h' s' t kv. kv = norm_key nt nm nr (stamp_key (hk_KeyID x) t (key_val H K)) \<Longrightarrow> hk_KeyID x = k_KeyID kv \<Longrightarrow>
      dsep h' s' (C \<union> {hp_lim h..<hp_lim H} \<union> key_addrs x) \<Longrightarrow> extends H h' \<Longrightarrow>
      v_keys (dview h' s') = [k_KeyID kv \<mapsto> kv] \<Longrightarrow> k x (Suc n) h' s' = Passed"
  shows "h_key R msg (QCreateKey K) k n H s = Passed"
proof -
  note H = allocated [OF assms(1,2)]
  show ?thesis
    by (rule first_key_Passed [OF H(1)]) (use assms(3-6) in \<open>auto simp: H(2) stamp_key_def intro!: assms(7) [OF refl]\<close>)
qed

lemma stored_key_Passed:
  assumes "\<And>a hash expires created h' s' C kv n. dsep h' s' C \<Longrightarrow> holds_sample kv hash expires h' \<Longrightarrow>
      hk_KeyID created = k_KeyID kv \<Longrightarrow> k_APIID kv = ha_APIID a \<Longrightarrow> v_keys (dview h' s') = [k_KeyID kv \<mapsto> kv] \<Longrightarrow>
      rest a hash expires created n h' s' = Passed"
  shows "h_stored_key R b rest 0 h new = Passed"
  unfolding h_stored_key_def
  apply (rule seeded_Passed)
  apply (simp add: literal_defs)
  apply (erule create_Passed)
        apply (simp add: extends_def heap_agree_def)
       apply (simp add: key_addrs_def)
      apply simp
     apply simp
    apply simp
  subgoal premises p for w a h s C x h' s' t kv
  proof -
    have "k_APIID kv = ha_APIID a" by (simp add: p(4) stored_defs key_val_def)
    moreover have "holds_sample kv (Some (Suc (hp_lim h), 0, 32)) (Some (hp_lim h)) h'"
      by (rule holds_sample_extends [OF _ p(7)]) (simp add: holds_sample_def key_val_def p(4) stored_defs kept_time kept_refs kept_meta)
    ultimately show ?thesis using assms p(5,6,8) by blast
  qed
  done

text \<open>The end of both tests: write through the key a read returned, and read again.\<close>

lemma mutate_again_Passed:
  assumes "dsep h s C" "holds_sample kv hash expires h0" "v_keys (dview h s) (k_KeyID kv) = Some kv"
    and "extends h0 h" "key_addrs x \<subseteq> {hp_lim h0..<hp_lim h}" "key_addrs x \<subseteq> C"
  shows "h_mutateKeyValue x (h_key R msg (QGetKeyByID (k_KeyID kv)) (\<lambda>again.
    h_assertKeyFields again (h_stored_snapshot hash expires) h_pass)) n h s = Passed"
proof (rule h_mutateKeyValue_Passed)
  fix h1
  assume agree: "heap_agree (- key_addrs x) h h1" "hp_lim h1 = hp_lim h"
  note h1 = written [OF assms(1) agree assms(6)]
  note sample = holds_sample_agree [OF assms(2,4,5) agree]
  show "h_key R msg (QGetKeyByID (k_KeyID kv)) (\<lambda>again.
    h_assertKeyFields again (h_stored_snapshot hash expires) h_pass) n h1 s = Passed"
    by (rule read_key_Passed [OF h1(1) assms(3) [folded h1(2)]])
      (use holds_sample_extends [OF sample] in \<open>blast intro: holds_sample_asserted\<close>)
qed

lemma KeyLookupMutationDoesNotChangeStoredKey: "heap_testKeyLookupMutationDoesNotChangeStoredKey R 0 h new = Passed"
  unfolding heap_testKeyLookupMutationDoesNotChangeStoredKey_def
  by (rule stored_key_Passed, simp, rule read_key_Passed, assumption, simp)
    (rule mutate_again_Passed, assumption, assumption, simp_all)

lemma KeyListMutationDoesNotChangeStoredKey: "heap_testKeyListMutationDoesNotChangeStoredKey R 0 h new = Passed"
  unfolding heap_testKeyListMutationDoesNotChangeStoredKey_def
  apply (rule stored_key_Passed, simp)
  apply (rule list_only_key_Passed, assumption, assumption, simp)
  apply (rule h_require_Passed, simp)
  apply simp
  apply (rule mutate_again_Passed, assumption, assumption, simp_all)
  done

text \<open>Writing through what was passed in, and reading the key.\<close>

lemma read_after_write:
  assumes "dsep h s C" "v_keys (dview h s) i = Some kv" "extends h0 h"
    and "heap_agree (- A) h h1" "hp_lim h1 = hp_lim h" "A \<subseteq> C" "W \<subseteq> {..<hp_lim h0} - A"
    and "\<And>x h2 s2. key_val h2 x = kv \<Longrightarrow> heap_agree W h0 h2 \<Longrightarrow> k x (Suc n) h2 s2 = Passed"
  shows "h_key R msg (QGetKeyByID i) k n h1 s = Passed"
proof -
  note h1 = written [OF assms(1,4,5,6)]
  show ?thesis
  proof (rule read_key_Passed [OF h1(1)])
    show "v_keys (dview h1 s) i = Some kv" by (simp only: h1(2) assms(2))
    fix x h2 s2
    assume kv: "key_val h2 x = kv" and "extends h1 h2"
    have "heap_agree W h0 h2"
    proof (rule heap_agree_trans [OF heap_agree_trans])
      show "heap_agree W h0 h" "heap_agree W h h1" "heap_agree W h1 h2"
        using assms(3,4,5,7) \<open>extends h1 h2\<close> by (auto simp: extends_def elim!: heap_agree_mono)
    qed
    with kv show "k x (Suc n) h2 s2 = Passed" by (rule assms(8))
  qed
qed

lemma KeyInputMutationDoesNotChangeStoredKey: "heap_testKeyInputMutationDoesNotChangeStoredKey R 0 h new = Passed"
  unfolding heap_testKeyInputMutationDoesNotChangeStoredKey_def
  apply (rule seeded_Passed)
  apply (simp add: literal_defs append_bytes_def Let_def)
  apply (erule create_Passed)
        apply (simp add: extends_def heap_agree_def)
       apply (simp add: key_addrs_def)
      apply simp
     apply simp
    apply simp
  subgoal premises p for w a h s C x h' s' t kv
  proof -
    let ?A = "{hp_lim h..<hp_lim h + 7}"
    let ?L = "Suc (Suc (Suc (Suc (Suc (Suc (Suc (hp_lim h)))))))"
    let ?W = "{?L, Suc ?L, Suc (Suc ?L)}"
    have found: "v_keys (dview h' s') (hk_KeyID x) = Some kv" unfolding p(5,8) by simp
    have known: "?A \<subseteq> C \<union> {hp_lim h..<Suc (Suc (Suc ?L))} \<union> key_addrs x" by auto
    show ?thesis
      apply (rule stmt_writes_in [where A = ?A], (rule writes_in_at; simp))+
      apply (rule read_after_write [where A = ?A and W = ?W, OF p(6) found p(7)])
          apply (blast intro: heap_agree_trans)
         apply (simp only:)
        apply (simp add: known)
       apply simp
      apply (drule trans [OF _ p(4)])
      apply (simp add: h_assertKeyFields_def assertKeyFields_def require_def pass_def h_pass_def sameOptionalTime_def
          heap_agree_def key_val_def [of "_ \<lparr>hp_lim := _\<rparr>"] stored_defs kept_time kept_refs kept_meta
          del: map_option_eq_Some split: option.splits)
      done
  qed
  done

theorem suite_passes: "map (\<lambda>(name, test). test R 0 h new) heap_suite = replicate 5 Passed"
  by (simp add: heap_suite_def WorkspaceMetadataIsIsolated APIMetadataIsIsolated KeyInputMutationDoesNotChangeStoredKey
      KeyLookupMutationDoesNotChangeStoredKey KeyListMutationDoesNotChangeStoredKey numeral_eq_Suc)

end

section \<open>The in-memory driver\<close>

definition mem_heap_rig :: "(nat \<Rightarrow> heap_store \<Rightarrow> mem_env) \<Rightarrow> (nat \<Rightarrow> gotime) \<Rightarrow> heap_store heap_rig" where
  "mem_heap_rig env clock = \<lparr>hr_exec = (\<lambda>n h s q. heap_exec (env n s) h s q), hr_clock = clock\<rparr>"

text \<open>What ranging over the driver's map gives: every key once, in some order.\<close>

definition heap_rig_ok :: "(nat \<Rightarrow> heap_store \<Rightarrow> mem_env) \<Rightarrow> bool" where
  "heap_rig_ok env \<longleftrightarrow> (\<forall>n s. finite (dom (hs_keys s)) \<longrightarrow>
     distinct (me_range (env n s)) \<and> set (me_range (env n s)) = dom (hs_keys s))"

text \<open>Apart from the callers, and with no hash in the index while there is no key.\<close>

definition index_empty_ok :: "mem_store \<Rightarrow> bool" where
  "index_empty_ok V \<longleftrightarrow> (m_keys V = Map.empty \<longrightarrow> m_hashIndex V = Map.empty)"

definition mem_heap_sep :: "heap \<Rightarrow> heap_store \<Rightarrow> addr set \<Rightarrow> bool" where
  "mem_heap_sep h s C \<longleftrightarrow> sep h s C \<and> index_empty_ok (store_val h s)"

lemma mem_answered:
  assumes "mem_heap_sep h s C" "request_addrs q \<subseteq> C" "mem_exec (env n s) (store_val h s) (request_val h q) = (vr, V)"
    and "index_empty_ok V"
  shows "\<exists>r h' s'. answered (mem_heap_rig env clock) mem_heap_sep n h s C q r h' s' \<and> vr = response_val h' r \<and>
    store_val h' s' = V \<and> response_addrs r \<subseteq> {hp_lim h..<hp_lim h'}"
proof -
  have "sep h s C" using assms(1) by (simp add: mem_heap_sep_def)
  from heap_exec_refines [OF this assms(2), of "env n s"] assms(3,4) show ?thesis
    by (auto simp: answered_def mem_heap_rig_def exec_ok_def mem_heap_sep_def split: prod.splits)
qed

lemma response_val_cases:
  "AWorkspace v = response_val h r \<Longrightarrow> \<exists>w. r = AWorkspace w \<and> ws_val h w = v"
  "AAPI va = response_val h r \<Longrightarrow> \<exists>a. r = AAPI a \<and> api_val h a = va"
  "AKey vk = response_val h r \<Longrightarrow> \<exists>k. r = AKey k \<and> key_val h k = vk"
  "AKeys [vk] [] = response_val h r \<Longrightarrow> \<exists>k. r = AKeys [k] [] \<and> key_val h k = vk"
  by (cases r; auto)+

lemma mem_answered_workspace:
  assumes "mem_heap_sep h s C" "request_addrs q \<subseteq> C" "mem_exec (env n s) (store_val h s) (request_val h q) = (AWorkspace v, V)"
    and "index_empty_ok V"
  shows "\<exists>x h' s'. answered (mem_heap_rig env clock) mem_heap_sep n h s C q (AWorkspace x) h' s' \<and> ws_val h' x = v \<and> store_val h' s' = V"
proof -
  from mem_answered [where env = env and n = n and clock = clock, OF assms] obtain r h' s' where
    r: "answered (mem_heap_rig env clock) mem_heap_sep n h s C q r h' s'" "AWorkspace v = response_val h' r" "store_val h' s' = V"
      "response_addrs r \<subseteq> {hp_lim h..<hp_lim h'}" by blast
  with response_val_cases(1) [OF r(2)] show ?thesis by fastforce
qed

lemma mem_answered_api:
  assumes "mem_heap_sep h s C" "request_addrs q \<subseteq> C" "mem_exec (env n s) (store_val h s) (request_val h q) = (AAPI v, V)"
    and "index_empty_ok V"
  shows "\<exists>x h' s'. answered (mem_heap_rig env clock) mem_heap_sep n h s C q (AAPI x) h' s' \<and> api_val h' x = v \<and> store_val h' s' = V"
proof -
  from mem_answered [where env = env and n = n and clock = clock, OF assms] obtain r h' s' where
    r: "answered (mem_heap_rig env clock) mem_heap_sep n h s C q r h' s'" "AAPI v = response_val h' r" "store_val h' s' = V"
      "response_addrs r \<subseteq> {hp_lim h..<hp_lim h'}" by blast
  with response_val_cases(2) [OF r(2)] show ?thesis by fastforce
qed

lemma mem_answered_key:
  assumes "mem_heap_sep h s C" "request_addrs q \<subseteq> C" "mem_exec (env n s) (store_val h s) (request_val h q) = (AKey v, V)"
    and "index_empty_ok V"
  shows "\<exists>x h' s'. answered (mem_heap_rig env clock) mem_heap_sep n h s C q (AKey x) h' s' \<and> key_val h' x = v \<and> store_val h' s' = V \<and>
    key_addrs x \<subseteq> {hp_lim h..<hp_lim h'}"
proof -
  from mem_answered [where env = env and n = n and clock = clock, OF assms] obtain r h' s' where
    r: "answered (mem_heap_rig env clock) mem_heap_sep n h s C q r h' s'" "AKey v = response_val h' r" "store_val h' s' = V"
      "response_addrs r \<subseteq> {hp_lim h..<hp_lim h'}" by blast
  with response_val_cases(3) [OF r(2)] show ?thesis by fastforce
qed

lemma mem_answered_keys:
  assumes "mem_heap_sep h s C" "request_addrs q \<subseteq> C" "mem_exec (env n s) (store_val h s) (request_val h q) = (AKeys [v] [], V)"
    and "index_empty_ok V"
  shows "\<exists>x h' s'. answered (mem_heap_rig env clock) mem_heap_sep n h s C q (AKeys [x] []) h' s' \<and> key_val h' x = v \<and> store_val h' s' = V \<and>
    key_addrs x \<subseteq> {hp_lim h..<hp_lim h'}"
proof -
  from mem_answered [where env = env and n = n and clock = clock, OF assms] obtain r h' s' where
    r: "answered (mem_heap_rig env clock) mem_heap_sep n h s C q r h' s'" "AKeys [v] [] = response_val h' r" "store_val h' s' = V"
      "response_addrs r \<subseteq> {hp_lim h..<hp_lim h'}" by blast
  with response_val_cases(4) [OF r(2)] show ?thesis by fastforce
qed

lemma stamp_sel:
  "w_WorkspaceID (stamp_workspace i t w) = i" "a_APIID (stamp_api i t a) = i" "k_KeyID (stamp_key i t k) = i"
  by (simp_all add: stamp_workspace_def stamp_api_def stamp_key_def)

lemma distinct_one: "distinct xs \<Longrightarrow> set xs = {x} \<Longrightarrow> xs = [x]"
  by (cases xs) (auto simp: insert_eq_iff subset_singleton_iff)

lemma mem_first_workspace:
  assumes "mem_heap_sep h s C" "ws_addrs y \<subseteq> C" "m_workspaces (store_val h s) = Map.empty"
  shows "\<exists>x h' s' t. answered (mem_heap_rig env clock) mem_heap_sep n h s C (QCreateWorkspace y) (AWorkspace x) h' s' \<and>
    mem_view (store_val h' s') = (mem_view (store_val h s))\<lparr>v_workspaces := [hw_WorkspaceID x \<mapsto> stamp_workspace (hw_WorkspaceID x) t (ws_val h y)]\<rparr>"
proof -
  let ?i = "newID ''ws'' (me_uuid (env n s))"
  let ?v = "stamp_workspace ?i (me_now (env n s)) (ws_val h y)"
  let ?V = "(store_val h s)\<lparr>m_workspaces := [?i \<mapsto> ?v]\<rparr>"
  have ok: "index_empty_ok (store_val h s)" "index_empty_ok ?V" using assms(1) by (simp_all add: mem_heap_sep_def index_empty_ok_def del: store_val_sel)
  have "mem_exec (env n s) (store_val h s) (request_val h (QCreateWorkspace y)) = (AWorkspace ?v, ?V)"
    using assms(3-) ok(1) by (simp add: mem_CreateWorkspace_def stamp_workspace_def Let_def index_empty_ok_def del: store_val_sel store_val_dom)
  from mem_answered_workspace [where env = env and n = n and clock = clock, OF assms(1) _ this ok(2)] assms(2) obtain x h' s' where
    x: "answered (mem_heap_rig env clock) mem_heap_sep n h s C (QCreateWorkspace y) (AWorkspace x) h' s'" "ws_val h' x = ?v" "store_val h' s' = ?V"
    by auto
  have "hw_WorkspaceID x = ?i" using x(2) by (metis val_sel(8) stamp_sel(1))
  with x(1,3) show ?thesis by (intro exI [of _ x] exI [of _ h'] exI [of _ s'] exI [of _ "me_now (env n s)"]) (simp add: mem_view_def)
qed

lemma mem_first_api:
  assumes "mem_heap_sep h s C" "api_addrs y \<subseteq> C" "m_apis (store_val h s) = Map.empty"
    "ha_WorkspaceID y \<in> dom (m_workspaces (store_val h s))"
  shows "\<exists>x h' s' t. answered (mem_heap_rig env clock) mem_heap_sep n h s C (QCreateAPI y) (AAPI x) h' s' \<and>
    mem_view (store_val h' s') = (mem_view (store_val h s))\<lparr>v_apis := [ha_APIID x \<mapsto> stamp_api (ha_APIID x) t (api_val h y)]\<rparr>"
proof -
  let ?i = "newID ''api'' (me_uuid (env n s))"
  let ?v = "stamp_api ?i (me_now (env n s)) (api_val h y)"
  let ?V = "(store_val h s)\<lparr>m_apis := [?i \<mapsto> ?v]\<rparr>"
  have ok: "index_empty_ok (store_val h s)" "index_empty_ok ?V" using assms(1) by (simp_all add: mem_heap_sep_def index_empty_ok_def del: store_val_sel)
  have "mem_exec (env n s) (store_val h s) (request_val h (QCreateAPI y)) = (AAPI ?v, ?V)"
    using assms(3-) ok(1) by (simp add: mem_CreateAPI_def stamp_api_def Let_def index_empty_ok_def del: store_val_sel store_val_dom)
  from mem_answered_api [where env = env and n = n and clock = clock, OF assms(1) _ this ok(2)] assms(2) obtain x h' s' where
    x: "answered (mem_heap_rig env clock) mem_heap_sep n h s C (QCreateAPI y) (AAPI x) h' s'" "api_val h' x = ?v" "store_val h' s' = ?V"
    by auto
  have "ha_APIID x = ?i" using x(2) by (metis val_sel(9) stamp_sel(2))
  with x(1,3) show ?thesis by (intro exI [of _ x] exI [of _ h'] exI [of _ s'] exI [of _ "me_now (env n s)"]) (simp add: mem_view_def)
qed

lemma mem_first_key:
  assumes "mem_heap_sep h s C" "key_addrs y \<subseteq> C" "m_keys (store_val h s) = Map.empty"
    "hk_APIID y \<in> dom (m_apis (store_val h s))"
  shows "\<exists>x h' s' t. answered (mem_heap_rig env clock) mem_heap_sep n h s C (QCreateKey y) (AKey x) h' s' \<and>
    mem_view (store_val h' s') = (mem_view (store_val h s))\<lparr>v_keys := [hk_KeyID x \<mapsto> stamp_key (hk_KeyID x) t (key_val h y)]\<rparr>"
proof -
  let ?i = "newID ''key'' (me_uuid (env n s))"
  let ?v = "stamp_key ?i (me_now (env n s)) (key_val h y)"
  let ?V = "(store_val h s)\<lparr>m_keys := [?i \<mapsto> ?v], m_hashIndex := [bytes_string (k_KeyHash ?v) \<mapsto> ?i]\<rparr>"
  have ok: "index_empty_ok (store_val h s)" "index_empty_ok ?V" using assms(1) by (simp_all add: mem_heap_sep_def index_empty_ok_def del: store_val_sel)
  have "mem_exec (env n s) (store_val h s) (request_val h (QCreateKey y)) = (AKey ?v, ?V)"
    using assms(3-) ok(1) by (simp add: mem_CreateKey_def stamp_key_def Let_def index_empty_ok_def del: store_val_sel store_val_dom)
  from mem_answered_key [where env = env and n = n and clock = clock, OF assms(1) _ this ok(2)] assms(2) obtain x h' s' where
    x: "answered (mem_heap_rig env clock) mem_heap_sep n h s C (QCreateKey y) (AKey x) h' s'" "key_val h' x = ?v" "store_val h' s' = ?V"
    by auto
  have "hk_KeyID x = ?i" using x(2) by (metis val_sel(5) stamp_sel(3))
  with x(1,3) show ?thesis by (intro exI [of _ x] exI [of _ h'] exI [of _ s'] exI [of _ "me_now (env n s)"]) (simp add: mem_view_def)
qed

lemma mem_list_only:
  assumes "mem_heap_sep h s C" "m_keys (store_val h s) = [i \<mapsto> kv]" "k_APIID kv = j" "heap_rig_ok env"
  shows "\<exists>x h' s'. answered (mem_heap_rig env clock) mem_heap_sep n h s C (QListKeys (list_opts j 1 [])) (AKeys [x] []) h' s' \<and>
    key_val h' x = kv \<and> store_val h' s' = store_val h s \<and> key_addrs x \<subseteq> {hp_lim h..<hp_lim h'}"
proof -
  have "dom (hs_keys s) = {i}" using arg_cong [OF assms(2), of dom] by (simp add: store_val_def dom_map_option_comp)
  with assms(4) have order: "me_range (env n s) = [i]" by (intro distinct_one) (simp_all add: heap_rig_ok_def)
  have "mem_exec (env n s) (store_val h s) (request_val h (QListKeys (list_opts j 1 []))) = (AKeys [kv] [], store_val h s)"
    using assms(2,3) by (simp add: mem_ListKeys_def order Let_def del: store_val_sel)
  moreover have "index_empty_ok (store_val h s)" using assms(1) by (simp add: mem_heap_sep_def)
  ultimately show ?thesis using mem_answered_keys [where env = env and n = n and clock = clock, OF assms(1)] by simp
qed

lemma mem_isolated:
  assumes "heap_rig_ok env"
  shows "isolated_driver (mem_heap_rig env clock) heap_New mem_heap_sep (\<lambda>h s. mem_view (store_val h s))
    (\<lambda>t. t) (\<lambda>m. m) (\<lambda>r. r)"
proof (unfold_locales, goal_cases)
  case (1 h)
  show ?case by (simp add: mem_heap_sep_def index_empty_ok_def heap_New_sep mem_New_def)
next
  case (5 h s C h' C')
  then show ?case using caller_write_sep [of h s C h' C'] by (simp add: mem_heap_sep_def)
next
  case (6 h s C h' C')
  then show ?case using caller_write_sep(2) [of h s C h' C'] by (simp add: mem_heap_sep_def)
next
  case (7 h s C w n)
  then show ?case using mem_first_workspace [where y = w] by simp
next
  case (8 h s C i v n)
  then have ok: "index_empty_ok (store_val h s)" by (simp add: mem_heap_sep_def)
  have "mem_exec (env n s) (store_val h s) (request_val h (QGetWorkspace i)) = (AWorkspace v, store_val h s)"
    using 8(2) by (simp add: mem_GetWorkspace_def del: store_val_sel)
  from mem_answered_workspace [where env = env and n = n and clock = clock, OF 8(1) _ this ok]
  obtain x h' s' where "answered (mem_heap_rig env clock) mem_heap_sep n h s C (QGetWorkspace i) (AWorkspace x) h' s'"
    "ws_val h' x = v" "store_val h' s' = store_val h s" by auto
  then show ?case by metis
next
  case (9 h s C a n)
  then show ?case using mem_first_api [where y = a] by simp
next
  case (10 h s C i v n)
  then have ok: "index_empty_ok (store_val h s)" by (simp add: mem_heap_sep_def)
  have "mem_exec (env n s) (store_val h s) (request_val h (QGetAPI i)) = (AAPI v, store_val h s)"
    using 10(2) by (simp add: mem_GetAPI_def del: store_val_sel)
  from mem_answered_api [where env = env and n = n and clock = clock, OF 10(1) _ this ok]
  obtain x h' s' where "answered (mem_heap_rig env clock) mem_heap_sep n h s C (QGetAPI i) (AAPI x) h' s'"
    "api_val h' x = v" "store_val h' s' = store_val h s" by auto
  then show ?case by metis
next
  case (11 h s C k n)
  then show ?case using mem_first_key [where y = k] by simp
next
  case (12 h s C i v n)
  then have ok: "index_empty_ok (store_val h s)" by (simp add: mem_heap_sep_def)
  have "mem_exec (env n s) (store_val h s) (request_val h (QGetKeyByID i)) = (AKey v, store_val h s)"
    using 12(2) by (simp add: mem_GetKeyByID_def del: store_val_sel)
  from mem_answered_key [where env = env and n = n and clock = clock, OF 12(1) _ this ok]
  obtain x h' s' where "answered (mem_heap_rig env clock) mem_heap_sep n h s C (QGetKeyByID i) (AKey x) h' s'"
    "key_val h' x = v" "store_val h' s' = store_val h s" "key_addrs x \<subseteq> {hp_lim h..<hp_lim h'}" by auto
  then show ?case by metis
next
  case (13 h s C i v j n)
  then obtain x h' s' where
    "answered (mem_heap_rig env clock) mem_heap_sep n h s C (QListKeys (list_opts j 1 [])) (AKeys [x] []) h' s'"
    "key_val h' x = v" "store_val h' s' = store_val h s" "key_addrs x \<subseteq> {hp_lim h..<hp_lim h'}"
    using mem_list_only [OF 13(1) _ 13(3) assms, of i clock n] by auto
  then show ?case by metis
qed (simp_all add: heap_New_sep mem_New_def)

definition heap_demo_env :: "nat \<Rightarrow> heap_store \<Rightarrow> mem_env" where
  "heap_demo_env n s = \<lparr>me_now = int n, me_uuid = step_uuid n, me_range = sorted_list_of_set (dom (hs_keys s))\<rparr>"

lemma heap_demo_env_ok: "heap_rig_ok heap_demo_env"
  by (simp add: heap_rig_ok_def heap_demo_env_def)

interpretation heap_demo: isolated_driver "mem_heap_rig heap_demo_env int" heap_New mem_heap_sep
  "\<lambda>h s. mem_view (store_val h s)" "\<lambda>t. t" "\<lambda>m. m" "\<lambda>r. r"
  by (rule mem_isolated [OF heap_demo_env_ok])

end
