(* ===== verification/KC_PgHeap.thy ===== *)
theory KC_PgHeap
  imports KC_HeapTests
begin

text \<open>
  The Postgres driver with its references. What it keeps is rows in a database, which share nothing with
  a caller: arguments are marshalled when a statement is sent, and every row read is scanned into new
  memory. The create methods return the struct they were given, so what they return shares slices and
  maps with the argument, but not with the database. The driver is an \<open>isolated_driver\<close>, so the five tests
  of the conformance suite that write through references pass on it too.
\<close>

section \<open>Scanning into new memory\<close>

definition scan_workspace :: "Workspace \<Rightarrow> heap \<Rightarrow> HWorkspace \<times> heap" where
  "scan_workspace v h =
     (\<lparr>hw_WorkspaceID = w_WorkspaceID v, hw_Name = w_Name v, hw_OwnerPrincipalID = w_OwnerPrincipalID v,
       hw_CreatedAt = w_CreatedAt v, hw_UpdatedAt = w_UpdatedAt v, hw_Metadata = map_option (\<lambda>_. hp_lim h) (w_Metadata v)\<rparr>,
      case w_Metadata v of
        None \<Rightarrow> h
      | Some m \<Rightarrow> h\<lparr>hp_maps := (hp_maps h)(hp_lim h := m), hp_lim := Suc (hp_lim h)\<rparr>)"

definition scan_api :: "API \<Rightarrow> heap \<Rightarrow> HAPI \<times> heap" where
  "scan_api v h =
     (\<lparr>ha_APIID = a_APIID v, ha_WorkspaceID = a_WorkspaceID v, ha_Name = a_Name v, ha_KeyPrefix = a_KeyPrefix v,
       ha_CreatedAt = a_CreatedAt v, ha_UpdatedAt = a_UpdatedAt v, ha_Metadata = map_option (\<lambda>_. hp_lim h) (a_Metadata v)\<rparr>,
      case a_Metadata v of
        None \<Rightarrow> h
      | Some m \<Rightarrow> h\<lparr>hp_maps := (hp_maps h)(hp_lim h := m), hp_lim := Suc (hp_lim h)\<rparr>)"

text \<open>A key: room for the hash, the permissions, the limit references, both times and the metadata.\<close>

definition scan_key :: "Key \<Rightarrow> heap \<Rightarrow> HKey \<times> heap" where
  "scan_key v h =
     (let a = hp_lim h
      in (\<lparr>hk_KeyID = k_KeyID v, hk_APIID = k_APIID v, hk_WorkspaceID = k_WorkspaceID v,
           hk_OwnerPrincipalID = k_OwnerPrincipalID v, hk_Name = k_Name v,
           hk_KeyHash = Some (a, 0, length (k_KeyHash v)), hk_Permissions = Some (a + 1, 0, length (k_Permissions v)),
           hk_LimitRefs = Some (a + 2, 0, length (k_LimitRefs v)),
           hk_ExpiresAt = map_option (\<lambda>_. a + 3) (k_ExpiresAt v), hk_RemainingUses = k_RemainingUses v,
           hk_Enabled = k_Enabled v, hk_CreatedAt = k_CreatedAt v, hk_UpdatedAt = k_UpdatedAt v,
           hk_LastVerifiedAt = map_option (\<lambda>_. a + 4) (k_LastVerifiedAt v),
           hk_Metadata = map_option (\<lambda>_. a + 5) (k_Metadata v)\<rparr>,
          h\<lparr>hp_bytes := (hp_bytes h)(a := k_KeyHash v), hp_strings := (hp_strings h)(a + 1 := k_Permissions v),
            hp_refs := (hp_refs h)(a + 2 := k_LimitRefs v),
            hp_times := (hp_times h)(a + 3 := (case k_ExpiresAt v of None \<Rightarrow> zero_time | Some t \<Rightarrow> t),
                                     a + 4 := (case k_LastVerifiedAt v of None \<Rightarrow> zero_time | Some t \<Rightarrow> t)),
            hp_maps := (hp_maps h)(a + 5 := (case k_Metadata v of None \<Rightarrow> Map.empty | Some m \<Rightarrow> m)),
            hp_lim := a + 6\<rparr>))"

primrec scan_keys :: "Key list \<Rightarrow> heap \<Rightarrow> HKey list \<times> heap" where
  "scan_keys [] h = ([], h)"
| "scan_keys (v # vs) h = (case scan_key v h of (k, h) \<Rightarrow> case scan_keys vs h of (ks, h) \<Rightarrow> (k # ks, h))"

section \<open>The methods\<close>

definition pg_heap_CreateWorkspace ::
  "'j pg_libs \<Rightarrow> pg_env \<Rightarrow> heap \<Rightarrow> 'j pg_db \<Rightarrow> HWorkspace \<Rightarrow> (goerr + HWorkspace) \<times> heap \<times> 'j pg_db" where
  "pg_heap_CreateWorkspace P e h db w =
     (case pg_CreateWorkspace P e db (ws_val h w) of
        (Inl err, db') \<Rightarrow> (Inl err, h, db')
      | (Inr _, db') \<Rightarrow>
          (Inr (w\<lparr>hw_WorkspaceID := pg_newID ''ws'' (pe_uuid e), hw_CreatedAt := pe_now e, hw_UpdatedAt := pe_now e\<rparr>), h, db'))"

definition pg_heap_GetWorkspace ::
  "'j pg_libs \<Rightarrow> pg_env \<Rightarrow> heap \<Rightarrow> 'j pg_db \<Rightarrow> string \<Rightarrow> (goerr + HWorkspace) \<times> heap \<times> 'j pg_db" where
  "pg_heap_GetWorkspace P e h db i =
     (case pg_GetWorkspace P e db i of
        (Inl err, db') \<Rightarrow> (Inl err, h, db')
      | (Inr v, db') \<Rightarrow> (case scan_workspace v h of (w, h) \<Rightarrow> (Inr w, h, db')))"

definition pg_heap_CreateAPI ::
  "'j pg_libs \<Rightarrow> pg_env \<Rightarrow> heap \<Rightarrow> 'j pg_db \<Rightarrow> HAPI \<Rightarrow> (goerr + HAPI) \<times> heap \<times> 'j pg_db" where
  "pg_heap_CreateAPI P e h db a =
     (case pg_CreateAPI P e db (api_val h a) of
        (Inl err, db') \<Rightarrow> (Inl err, h, db')
      | (Inr _, db') \<Rightarrow>
          (Inr (a\<lparr>ha_APIID := pg_newID ''api'' (pe_uuid e), ha_CreatedAt := pe_now e, ha_UpdatedAt := pe_now e\<rparr>), h, db'))"

definition pg_heap_GetAPI ::
  "'j pg_libs \<Rightarrow> pg_env \<Rightarrow> heap \<Rightarrow> 'j pg_db \<Rightarrow> string \<Rightarrow> (goerr + HAPI) \<times> heap \<times> 'j pg_db" where
  "pg_heap_GetAPI P e h db i =
     (case pg_GetAPI P e db i of
        (Inl err, db') \<Rightarrow> (Inl err, h, db')
      | (Inr v, db') \<Rightarrow> (case scan_api v h of (a, h) \<Rightarrow> (Inr a, h, db')))"

definition pg_heap_CreateKey ::
  "'j pg_libs \<Rightarrow> pg_env \<Rightarrow> heap \<Rightarrow> 'j pg_db \<Rightarrow> HKey \<Rightarrow> (goerr + HKey) \<times> heap \<times> 'j pg_db" where
  "pg_heap_CreateKey P e h db k =
     (case pg_CreateKey P e db (key_val h k) of
        (Inl err, db') \<Rightarrow> (Inl err, h, db')
      | (Inr _, db') \<Rightarrow>
          (Inr (k\<lparr>hk_KeyID := pg_newID ''key'' (pe_uuid e), hk_CreatedAt := pe_now e, hk_UpdatedAt := pe_now e\<rparr>), h, db'))"

text \<open>The methods that return a scanned key.\<close>

definition pg_heap_scanned ::
  "heap \<Rightarrow> (goerr + Key) \<times> 'j pg_db \<Rightarrow> (goerr + HKey) \<times> heap \<times> 'j pg_db" where
  "pg_heap_scanned h res =
     (case res of
        (Inl err, db') \<Rightarrow> (Inl err, h, db')
      | (Inr v, db') \<Rightarrow> (case scan_key v h of (k, h) \<Rightarrow> (Inr k, h, db')))"

definition pg_heap_GetKeyByID ::
  "'j pg_libs \<Rightarrow> pg_env \<Rightarrow> heap \<Rightarrow> 'j pg_db \<Rightarrow> string \<Rightarrow> (goerr + HKey) \<times> heap \<times> 'j pg_db" where
  "pg_heap_GetKeyByID P e h db i = pg_heap_scanned h (pg_GetKeyByID P e db i)"

definition pg_heap_GetKeyByHash ::
  "'j pg_libs \<Rightarrow> pg_env \<Rightarrow> heap \<Rightarrow> 'j pg_db \<Rightarrow> slice \<Rightarrow> (goerr + HKey) \<times> heap \<times> 'j pg_db" where
  "pg_heap_GetKeyByHash P e h db hash = pg_heap_scanned h (pg_GetKeyByHash P e db (slice_read (hp_bytes h) hash))"

definition pg_heap_RotateKey ::
  "'j pg_libs \<Rightarrow> pg_env \<Rightarrow> heap \<Rightarrow> 'j pg_db \<Rightarrow> string \<Rightarrow> slice \<Rightarrow> (goerr + HKey) \<times> heap \<times> 'j pg_db" where
  "pg_heap_RotateKey P e h db i newHash = pg_heap_scanned h (pg_RotateKey P e db i (slice_read (hp_bytes h) newHash))"

definition pg_heap_ListKeys ::
  "'j pg_libs \<Rightarrow> pg_env \<Rightarrow> heap \<Rightarrow> 'j pg_db \<Rightarrow> ListKeysOpts \<Rightarrow> (goerr + HKey list \<times> string) \<times> heap \<times> 'j pg_db" where
  "pg_heap_ListKeys P e h db opts =
     (case pg_ListKeys P e db opts of
        (Inl err, db') \<Rightarrow> (Inl err, h, db')
      | (Inr res, db') \<Rightarrow> (case scan_keys (r_Keys res) h of (ks, h) \<Rightarrow> (Inr (ks, r_NextPageToken res), h, db')))"

text \<open>The methods without references in their arguments and results leave the heap alone.\<close>

definition unscanned :: "heap \<Rightarrow> 'a \<times> 'j pg_db \<Rightarrow> 'a \<times> heap \<times> 'j pg_db" where
  "unscanned h res = (fst res, h, snd res)"

fun pg_heap_exec ::
  "'j pg_libs \<Rightarrow> pg_env \<Rightarrow> heap \<Rightarrow> 'j pg_db \<Rightarrow> (HWorkspace, HAPI, HKey, slice) request \<Rightarrow>
   (HWorkspace, HAPI, HKey) response \<times> heap \<times> 'j pg_db" where
  "pg_heap_exec P e h db (QCreateWorkspace w) = map_prod (answer AWorkspace) id (pg_heap_CreateWorkspace P e h db w)"
| "pg_heap_exec P e h db (QGetWorkspace i) = map_prod (answer AWorkspace) id (pg_heap_GetWorkspace P e h db i)"
| "pg_heap_exec P e h db (QCreateAPI a) = map_prod (answer AAPI) id (pg_heap_CreateAPI P e h db a)"
| "pg_heap_exec P e h db (QGetAPI i) = map_prod (answer AAPI) id (pg_heap_GetAPI P e h db i)"
| "pg_heap_exec P e h db (QCreateKey k) = map_prod (answer AKey) id (pg_heap_CreateKey P e h db k)"
| "pg_heap_exec P e h db (QGetKeyByID i) = map_prod (answer AKey) id (pg_heap_GetKeyByID P e h db i)"
| "pg_heap_exec P e h db (QGetKeyByHash b) = map_prod (answer AKey) id (pg_heap_GetKeyByHash P e h db b)"
| "pg_heap_exec P e h db (QRevokeKey i) = map_prod (answer (\<lambda>_. ADone)) id (unscanned h (pg_RevokeKey P e db i))"
| "pg_heap_exec P e h db (QRotateKey i b) = map_prod (answer AKey) id (pg_heap_RotateKey P e h db i b)"
| "pg_heap_exec P e h db (QListKeys opts) = map_prod (answer (\<lambda>(ks, tok). AKeys ks tok)) id (pg_heap_ListKeys P e h db opts)"
| "pg_heap_exec P e h db (QTouchLastVerified i t) =
     map_prod (answer (\<lambda>_. ADone)) id (unscanned h (pg_TouchLastVerified P e db i t))"
| "pg_heap_exec P e h db (QDecrementRemainingUses i) =
     map_prod (\<lambda>(n, err). ACount n err) id (unscanned h (pg_DecrementRemainingUses P e db i))"

section \<open>What scanning gives\<close>

lemma scan_workspace_new:
  assumes "scan_workspace v h = (w, h')"
  shows "extends h h'" "ws_addrs w \<subseteq> {hp_lim h..<hp_lim h'}" "ws_val h' w = v"
  using assms by (cases v; auto simp: scan_workspace_def extends_def heap_agree_def ws_addrs_def ws_val_def split: option.splits)+

lemma scan_api_new:
  assumes "scan_api v h = (a, h')"
  shows "extends h h'" "api_addrs a \<subseteq> {hp_lim h..<hp_lim h'}" "api_val h' a = v"
  using assms by (cases v; auto simp: scan_api_def extends_def heap_agree_def api_addrs_def api_val_def split: option.splits)+

lemma scan_key_new:
  assumes "scan_key v h = (k, h')"
  shows "extends h h'" "key_addrs k \<subseteq> {hp_lim h..<hp_lim h'}" "key_val h' k = v"
  using assms by (cases v; auto simp: scan_key_def Let_def extends_def heap_agree_def key_addrs_def key_val_def split: option.splits)+

section \<open>The driver is isolated\<close>

text \<open>
  A rig: the database is up, a new identifier is unused, and the samples of the tests survive the
  database (times at whole seconds, limit references and metadata as JSON).
\<close>

definition pg_heap_rig :: "'j pg_libs \<Rightarrow> (nat \<Rightarrow> 'j pg_db \<Rightarrow> pg_env) \<Rightarrow> (nat \<Rightarrow> gotime) \<Rightarrow> 'j pg_db heap_rig" where
  "pg_heap_rig P env clock = \<lparr>hr_exec = (\<lambda>n h db q. pg_heap_exec P (env n db) h db q), hr_clock = clock\<rparr>"

definition pg_heap_rig_ok :: "'j pg_libs \<Rightarrow> (nat \<Rightarrow> 'j pg_db \<Rightarrow> pg_env) \<Rightarrow> bool" where
  "pg_heap_rig_ok P env \<longleftrightarrow> pg_libs_ok P \<and> (\<forall>n db. pg_env_up (env n db) \<and> pg_env_fresh (env n db) db) \<and>
     (\<forall>t. pl_time P (Truncate_Second t) = Truncate_Second t) \<and> pg_refs P sample_refs = sample_refs \<and>
     (\<forall>m \<in> {[''tier'' \<mapsto> ''prod''], [''region'' \<mapsto> ''eu''], [''env'' \<mapsto> ''test'']}. pg_meta P (Some m) = Some m)"

text \<open>What callers know is allocated; the database holds no addresses.\<close>

definition pg_heap_sep :: "'j pg_libs \<Rightarrow> heap \<Rightarrow> 'j pg_db \<Rightarrow> addr set \<Rightarrow> bool" where
  "pg_heap_sep P h db C \<longleftrightarrow> pg_inv P db \<and> C \<subseteq> {..<hp_lim h}"

lemma pg_heap_sep_grow:
  "pg_heap_sep P h db C \<Longrightarrow> pg_inv P db' \<Longrightarrow> extends h h' \<Longrightarrow> A \<subseteq> C \<or> A \<subseteq> {hp_lim h..<hp_lim h'} \<Longrightarrow> pg_heap_sep P h' db' (C \<union> A)"
  by (auto simp: pg_heap_sep_def extends_def)

lemma pg_answered_given:
  assumes "pg_heap_sep P h db C" "pg_heap_exec P (env n db) h db q = (r, h, db')" "pg_inv P db'" "response_addrs r \<subseteq> C"
  shows "answered (pg_heap_rig P env clock) (pg_heap_sep P) n h db C q r h db'"
  using assms pg_heap_sep_grow [OF assms(1,3) extends_refl, of "response_addrs r"] by (simp add: answered_def pg_heap_rig_def)

lemma pg_answered_scanned:
  assumes "pg_heap_sep P h db C" "pg_heap_exec P (env n db) h db q = (r, h', db)" "extends h h'"
    "response_addrs r \<subseteq> {hp_lim h..<hp_lim h'}"
  shows "answered (pg_heap_rig P env clock) (pg_heap_sep P) n h db C q r h' db"
  using assms pg_heap_sep_grow [OF assms(1) _ assms(3), of db "response_addrs r"]
  by (simp add: answered_def pg_heap_rig_def pg_heap_sep_def)

locale pg_tested_rig =
  fixes P :: "'j pg_libs" and env :: "nat \<Rightarrow> 'j pg_db \<Rightarrow> pg_env"
  assumes rig: "pg_heap_rig_ok P env"
begin

lemma up [simp]: "pg_env_up (env n db)" and fresh [simp]: "pg_env_fresh (env n db) db"
  using rig by (simp_all add: pg_heap_rig_ok_def)

lemma contract: "store_contract (pg_Store P) (pg_inv P) pg_env_up pg_env_fresh (\<lambda>e s. True) (pg_view P) pe_now
    (\<lambda>p e. pg_newID p (pe_uuid e)) (pl_time P) (pg_meta P) (pg_refs P) (pl_coll P)"
  using rig by (intro pg_database.contract pg_database.intro) (simp add: pg_heap_rig_ok_def)

lemma first_workspace:
  assumes "pg_heap_sep P h db C" "ws_addrs w \<subseteq> C" "v_workspaces (pg_view P db) = Map.empty"
  shows "\<exists>w' h' db' t. answered (pg_heap_rig P env clock) (pg_heap_sep P) n h db C (QCreateWorkspace w) (AWorkspace w') h' db' \<and>
    pg_view P db' = (pg_view P db)\<lparr>v_workspaces :=
      [hw_WorkspaceID w' \<mapsto> norm_workspace (pl_time P) (pg_meta P) (stamp_workspace (hw_WorkspaceID w') t (ws_val h w))]\<rparr>"
proof -
  let ?e = "env n db"
  from store_contract.create_workspace [OF contract, of db ?e "ws_val h w"] assms(1,3) obtain db' where
    db': "pg_CreateWorkspace P ?e db (ws_val h w) = (Inr (stamp_workspace (pg_newID ''ws'' (pe_uuid ?e)) (pe_now ?e) (ws_val h w)), db')"
      "pg_inv P db'"
      "pg_view P db' = (pg_view P db)\<lparr>v_workspaces := [pg_newID ''ws'' (pe_uuid ?e) \<mapsto>
         norm_workspace (pl_time P) (pg_meta P) (stamp_workspace (pg_newID ''ws'' (pe_uuid ?e)) (pe_now ?e) (ws_val h w))]\<rparr>"
    by (auto simp: pg_heap_sep_def)
  let ?w = "w\<lparr>hw_WorkspaceID := pg_newID ''ws'' (pe_uuid ?e), hw_CreatedAt := pe_now ?e, hw_UpdatedAt := pe_now ?e\<rparr>"
  have "answered (pg_heap_rig P env clock) (pg_heap_sep P) n h db C (QCreateWorkspace w) (AWorkspace ?w) h db'"
    by (rule pg_answered_given [OF assms(1) _ db'(2)])
      (use assms(2) in \<open>simp_all add: pg_heap_CreateWorkspace_def db'(1) ws_addrs_def\<close>)
  with db'(3) show ?thesis by (intro exI [of _ ?w] exI [of _ h] exI [of _ db'] exI [of _ "pe_now ?e"]) simp
qed

lemma read_workspace:
  assumes "pg_heap_sep P h db C" "v_workspaces (pg_view P db) i = Some v"
  shows "\<exists>w' h'. answered (pg_heap_rig P env clock) (pg_heap_sep P) n h db C (QGetWorkspace i) (AWorkspace w') h' db \<and> ws_val h' w' = v"
proof -
  obtain w' h' where w': "scan_workspace v h = (w', h')" by fastforce
  have "pg_GetWorkspace P (env n db) db i = (Inr v, db)"
    using store_contract.get_workspace [OF contract, of db "env n db" i] assms by (simp add: pg_heap_sep_def)
  then have "answered (pg_heap_rig P env clock) (pg_heap_sep P) n h db C (QGetWorkspace i) (AWorkspace w') h' db"
    by (intro pg_answered_scanned [OF assms(1)]) (simp_all add: pg_heap_GetWorkspace_def w' scan_workspace_new [OF w'])
  with scan_workspace_new(3) [OF w'] show ?thesis by blast
qed

lemma first_api:
  assumes "pg_heap_sep P h db C" "api_addrs a \<subseteq> C" "v_apis (pg_view P db) = Map.empty"
    "ha_WorkspaceID a \<in> dom (v_workspaces (pg_view P db))"
  shows "\<exists>a' h' db' t. answered (pg_heap_rig P env clock) (pg_heap_sep P) n h db C (QCreateAPI a) (AAPI a') h' db' \<and>
    pg_view P db' = (pg_view P db)\<lparr>v_apis :=
      [ha_APIID a' \<mapsto> norm_api (pl_time P) (pg_meta P) (stamp_api (ha_APIID a') t (api_val h a))]\<rparr>"
proof -
  let ?e = "env n db"
  from store_contract.create_api [OF contract, of db ?e "api_val h a"] assms(1,3,4) obtain db' where
    db': "pg_CreateAPI P ?e db (api_val h a) = (Inr (stamp_api (pg_newID ''api'' (pe_uuid ?e)) (pe_now ?e) (api_val h a)), db')"
      "pg_inv P db'"
      "pg_view P db' = (pg_view P db)\<lparr>v_apis := [pg_newID ''api'' (pe_uuid ?e) \<mapsto>
         norm_api (pl_time P) (pg_meta P) (stamp_api (pg_newID ''api'' (pe_uuid ?e)) (pe_now ?e) (api_val h a))]\<rparr>"
    by (auto simp: pg_heap_sep_def)
  let ?a = "a\<lparr>ha_APIID := pg_newID ''api'' (pe_uuid ?e), ha_CreatedAt := pe_now ?e, ha_UpdatedAt := pe_now ?e\<rparr>"
  have "answered (pg_heap_rig P env clock) (pg_heap_sep P) n h db C (QCreateAPI a) (AAPI ?a) h db'"
    by (rule pg_answered_given [OF assms(1) _ db'(2)])
      (use assms(2) in \<open>simp_all add: pg_heap_CreateAPI_def db'(1) api_addrs_def\<close>)
  with db'(3) show ?thesis by (intro exI [of _ ?a] exI [of _ h] exI [of _ db'] exI [of _ "pe_now ?e"]) simp
qed

lemma read_api:
  assumes "pg_heap_sep P h db C" "v_apis (pg_view P db) i = Some v"
  shows "\<exists>a' h'. answered (pg_heap_rig P env clock) (pg_heap_sep P) n h db C (QGetAPI i) (AAPI a') h' db \<and> api_val h' a' = v"
proof -
  obtain a' h' where a': "scan_api v h = (a', h')" by fastforce
  have "pg_GetAPI P (env n db) db i = (Inr v, db)"
    using store_contract.get_api [OF contract, of db "env n db" i] assms by (simp add: pg_heap_sep_def)
  then have "answered (pg_heap_rig P env clock) (pg_heap_sep P) n h db C (QGetAPI i) (AAPI a') h' db"
    by (intro pg_answered_scanned [OF assms(1)]) (simp_all add: pg_heap_GetAPI_def a' scan_api_new [OF a'])
  with scan_api_new(3) [OF a'] show ?thesis by blast
qed

lemma first_key:
  assumes "pg_heap_sep P h db C" "key_addrs k \<subseteq> C" "v_keys (pg_view P db) = Map.empty"
    "hk_APIID k \<in> dom (v_apis (pg_view P db))" "hk_WorkspaceID k \<in> dom (v_workspaces (pg_view P db))"
  shows "\<exists>k' h' db' t. answered (pg_heap_rig P env clock) (pg_heap_sep P) n h db C (QCreateKey k) (AKey k') h' db' \<and>
    pg_view P db' = (pg_view P db)\<lparr>v_keys :=
      [hk_KeyID k' \<mapsto> norm_key (pl_time P) (pg_meta P) (pg_refs P) (stamp_key (hk_KeyID k') t (key_val h k))]\<rparr>"
proof -
  let ?e = "env n db"
  have "k_WorkspaceID (key_val h k) = hk_WorkspaceID k" by (simp add: key_val_def)
  with store_contract.create_key [OF contract, of db ?e "key_val h k"] assms(1,3-5) obtain db' where
    db': "pg_CreateKey P ?e db (key_val h k) = (Inr (stamp_key (pg_newID ''key'' (pe_uuid ?e)) (pe_now ?e) (key_val h k)), db')"
      "pg_inv P db'"
      "pg_view P db' = (pg_view P db)\<lparr>v_keys := [pg_newID ''key'' (pe_uuid ?e) \<mapsto>
         norm_key (pl_time P) (pg_meta P) (pg_refs P) (stamp_key (pg_newID ''key'' (pe_uuid ?e)) (pe_now ?e) (key_val h k))]\<rparr>"
    by (auto simp: pg_heap_sep_def hash_taken_def)
  let ?k = "k\<lparr>hk_KeyID := pg_newID ''key'' (pe_uuid ?e), hk_CreatedAt := pe_now ?e, hk_UpdatedAt := pe_now ?e\<rparr>"
  have "answered (pg_heap_rig P env clock) (pg_heap_sep P) n h db C (QCreateKey k) (AKey ?k) h db'"
    by (rule pg_answered_given [OF assms(1) _ db'(2)])
      (use assms(2) in \<open>simp_all add: pg_heap_CreateKey_def db'(1) key_addrs_def\<close>)
  with db'(3) show ?thesis by (intro exI [of _ ?k] exI [of _ h] exI [of _ db'] exI [of _ "pe_now ?e"]) simp
qed

lemma read_key:
  assumes "pg_heap_sep P h db C" "v_keys (pg_view P db) i = Some v"
  shows "\<exists>k' h'. answered (pg_heap_rig P env clock) (pg_heap_sep P) n h db C (QGetKeyByID i) (AKey k') h' db \<and> key_val h' k' = v \<and>
    key_addrs k' \<subseteq> {hp_lim h..<hp_lim h'}"
proof -
  obtain k' h' where k': "scan_key v h = (k', h')" by fastforce
  have "pg_GetKeyByID P (env n db) db i = (Inr v, db)"
    using store_contract.get_key_by_id [OF contract, of db "env n db" i] assms by (simp add: pg_heap_sep_def)
  then have "answered (pg_heap_rig P env clock) (pg_heap_sep P) n h db C (QGetKeyByID i) (AKey k') h' db"
    by (intro pg_answered_scanned [OF assms(1)])
      (simp_all add: pg_heap_GetKeyByID_def pg_heap_scanned_def k' scan_key_new [OF k'])
  with scan_key_new(2,3) [OF k'] show ?thesis by blast
qed

lemma list_only_key:
  assumes "pg_heap_sep P h db C" "v_keys (pg_view P db) = [i \<mapsto> v]" "k_APIID v = j"
  shows "\<exists>k' h'. answered (pg_heap_rig P env clock) (pg_heap_sep P) n h db C (QListKeys (list_opts j 1 [])) (AKeys [k'] []) h' db \<and>
    key_val h' k' = v \<and> key_addrs k' \<subseteq> {hp_lim h..<hp_lim h'}"
proof -
  obtain k' h' where k': "scan_key v h = (k', h')" by fastforce
  have "set [i] = matching_ids (v_keys (pg_view P db)) (list_opts j 1 [])"
    using assms(2,3) by (auto simp: matching_ids_def key_matches_def)
  with store_contract.list_keys [OF contract, of db "env n db" "[i]" "list_opts j 1 []"] assms(1,2)
  have "pg_ListKeys P (env n db) db (list_opts j 1 []) = (Inr \<lparr>r_Keys = [v], r_NextPageToken = []\<rparr>, db)"
    by (simp add: pg_heap_sep_def page_of_def page_ids_def page_size_def after_token_def Let_def)
  then have "answered (pg_heap_rig P env clock) (pg_heap_sep P) n h db C (QListKeys (list_opts j 1 [])) (AKeys [k'] []) h' db"
    by (intro pg_answered_scanned [OF assms(1)]) (simp_all add: pg_heap_ListKeys_def k' scan_key_new [OF k'])
  with scan_key_new(2,3) [OF k'] show ?thesis by blast
qed

end

sublocale pg_tested_rig < tests: isolated_driver "pg_heap_rig P env clock" pg_empty "pg_heap_sep P" "\<lambda>h. pg_view P"
  "pl_time P" "pg_meta P" "pg_refs P" for clock
proof (unfold_locales, goal_cases)
  case (1 h)
  show ?case by (simp add: pg_heap_sep_def pg_empty_view)
next
  case (5 h s C h' C')
  then show ?case unfolding pg_heap_sep_def caller_write_def by fastforce
next
  case (7 h s C w n)
  then show ?case by (rule first_workspace)
next
  case (9 h s C a n)
  then show ?case by (rule first_api)
next
  case (11 h s C k n)
  then show ?case by (rule first_key)
next
  case (8 h s C i v n)
  then show ?case using read_workspace by blast
next
  case (10 h s C i v n)
  then show ?case using read_api by blast
next
  case (12 h s C i v n)
  then show ?case using read_key by blast
next
  case (13 h s C i v j n)
  then show ?case using list_only_key by blast
qed (use rig in \<open>auto simp: pg_heap_rig_ok_def pg_empty_view empty_view_def\<close>)

context pg_tested_rig
begin

lemma pg_suite_passes: "map (\<lambda>(name, test). test (pg_heap_rig P env clock) 0 h pg_empty) heap_suite = replicate 5 Passed"
  by (rule tests.suite_passes)

end

section \<open>The tests pass on both drivers\<close>

text \<open>
  C20: The five tests of the conformance suite that write through what they passed in or got back pass
  on both drivers with their references, in any initial heap and with any clock: on the in-memory
  driver with any identifiers and map order, on the Postgres driver with the database up and new
  identifiers unused. No nil dereference, no leaked write.
\<close>

theorem isolation_tests_pass:
  assumes "heap_rig_ok env" "pg_heap_rig_ok P pg_env"
  shows "map (\<lambda>(name, test). test (mem_heap_rig env clock) 0 h heap_New) heap_suite = replicate 5 Passed \<and>
    map (\<lambda>(name, test). test (pg_heap_rig P pg_env clock) 0 h pg_empty) heap_suite = replicate 5 Passed"
  using isolated_driver.suite_passes [OF mem_isolated [OF assms(1)]]
    pg_tested_rig.pg_suite_passes [OF pg_tested_rig.intro [OF assms(2)]] by blast

text \<open>A rig whose new identifiers are longer than all the database holds.\<close>

definition pg_heap_demo_env :: "nat \<Rightarrow> json_doc pg_db \<Rightarrow> pg_env" where
  "pg_heap_demo_env n db = pg_calm (concat (map wr_workspace_id (db_workspaces db)) @ concat (map ar_api_id (db_apis db)) @
     concat (map kr_key_id (db_keys db)))"

lemma length_member: "x \<in> set xs \<Longrightarrow> length (f x) \<le> length (concat (map f xs))"
  by (induction xs) auto

lemma longer_fresh: "length (concat (map f xs)) \<le> length u \<Longrightarrow> pg_newID p u \<notin> f ` set xs"
proof
  assume long: "length (concat (map f xs)) \<le> length u" and "pg_newID p u \<in> f ` set xs"
  then obtain x where "x \<in> set xs" "f x = pg_newID p u" by auto
  with length_member [of x xs f] long show False by (simp add: pg_newID_def)
qed

lemma pg_heap_demo_ok: "pg_heap_rig_ok pg_micro pg_heap_demo_env"
proof -
  have "pg_env_fresh (pg_heap_demo_env n db) db" for n db
    unfolding pg_env_fresh_def by (intro conjI longer_fresh) (simp_all add: pg_heap_demo_env_def pg_calm_def)
  moreover have "(t - t mod 1000000000) div 1000 * 1000 = t - t mod 1000000000" for t :: int
  proof -
    have "t - t mod 1000000000 = 1000 * (1000000 * (t div 1000000000))" by (simp add: minus_mod_eq_mult_div)
    then show ?thesis by simp
  qed
  ultimately show ?thesis
    using pg_micro_ok by (auto simp: pg_heap_rig_ok_def pg_env_up_def pg_heap_demo_env_def pg_calm_def Truncate_Second_def
        pg_micro_def pg_refs_def pg_meta_def marshalMetadata_def unmarshalMetadata_def)
qed

interpretation pg_heap_demo: pg_tested_rig pg_micro pg_heap_demo_env
  by (rule pg_tested_rig.intro [OF pg_heap_demo_ok])

theorem isolation_tests_pass_witness:
  "map (\<lambda>(name, test). test (mem_heap_rig heap_demo_env int) 0 heap_empty heap_New) heap_suite = replicate 5 Passed \<and>
   map (\<lambda>(name, test). test (pg_heap_rig pg_micro pg_heap_demo_env int) 0 heap_empty pg_empty) heap_suite = replicate 5 Passed"
  by (rule isolation_tests_pass [OF heap_demo_env_ok pg_heap_demo_ok])

end
