(* ===== verification/KC_Mutex.thy ===== *)
theory KC_Mutex
  imports KC_Heap KC_Fair
begin

text \<open>
  The mutex of the in-memory driver. \<open>KC_Memory\<close> takes a method as one atomic step; here a method is the
  sequence of its map accesses between \<open>s.mu.Lock()\<close> and the deferred \<open>s.mu.Unlock()\<close>, and any number of
  goroutines run such sequences, one access at a time, in any order.

  The locale \<open>guarded_methods\<close> holds what makes this safe (every method is guarded by the mutex, and
  alone it does what its specification says) and what follows: the driver is linearizable, that is,
  it has the traces of calls and returns of an object whose methods are atomic; it has no data race;
  and calls return. It is interpreted on the twelve methods.
\<close>

section \<open>Methods as sequences of accesses\<close>

text \<open>
  One constructor for each kind of access to the fields of the \<open>Store\<close> struct. A load continues with
  the value found, if any; \<open>Ret\<close> is the return of the method.
\<close>

datatype 'r mprog =
    Ret 'r
  | Lock "'r mprog"
  | Unlock "'r mprog"
  | LoadWorkspace string "Workspace option \<Rightarrow> 'r mprog"
  | StoreWorkspace string Workspace "'r mprog"
  | LoadAPI string "API option \<Rightarrow> 'r mprog"
  | StoreAPI string API "'r mprog"
  | LoadKey string "Key option \<Rightarrow> 'r mprog"
  | StoreKey string Key "'r mprog"
  | LoadHash string "string option \<Rightarrow> 'r mprog"
  | StoreHash string string "'r mprog"
  | DeleteHash string "'r mprog"

text \<open>\<open>s.mu.Lock()\<close> and \<open>defer s.mu.Unlock()\<close>: the mutex is released on every return.\<close>

primrec defer_Unlock :: "'r mprog \<Rightarrow> 'r mprog" where
  "defer_Unlock (Ret r) = Unlock (Ret r)"
| "defer_Unlock (Lock p) = Lock (defer_Unlock p)"
| "defer_Unlock (Unlock p) = Unlock (defer_Unlock p)"
| "defer_Unlock (LoadWorkspace i k) = LoadWorkspace i (\<lambda>x. defer_Unlock (k x))"
| "defer_Unlock (StoreWorkspace i w p) = StoreWorkspace i w (defer_Unlock p)"
| "defer_Unlock (LoadAPI i k) = LoadAPI i (\<lambda>x. defer_Unlock (k x))"
| "defer_Unlock (StoreAPI i a p) = StoreAPI i a (defer_Unlock p)"
| "defer_Unlock (LoadKey i k) = LoadKey i (\<lambda>x. defer_Unlock (k x))"
| "defer_Unlock (StoreKey i v p) = StoreKey i v (defer_Unlock p)"
| "defer_Unlock (LoadHash i k) = LoadHash i (\<lambda>x. defer_Unlock (k x))"
| "defer_Unlock (StoreHash i v p) = StoreHash i v (defer_Unlock p)"
| "defer_Unlock (DeleteHash i p) = DeleteHash i (defer_Unlock p)"

definition locked :: "'r mprog \<Rightarrow> 'r mprog" where
  "locked p = Lock (defer_Unlock p)"

section \<open>The methods\<close>

definition prog_CreateWorkspace :: "mem_env \<Rightarrow> Workspace \<Rightarrow> (goerr + Workspace) mprog" where
  "prog_CreateWorkspace e w = locked (
     let now = me_now e;
         w = w\<lparr>w_WorkspaceID := newID ''ws'' (me_uuid e)\<rparr>;
         w = w\<lparr>w_CreatedAt := now\<rparr>;
         w = w\<lparr>w_UpdatedAt := now\<rparr>
     in StoreWorkspace (w_WorkspaceID w) (cloneWorkspace w) (Ret (Inr (cloneWorkspace w))))"

definition prog_GetWorkspace :: "string \<Rightarrow> (goerr + Workspace) mprog" where
  "prog_GetWorkspace i = locked (LoadWorkspace i (\<lambda>found.
     case found of None \<Rightarrow> Ret (Inl (Sentinel ErrNotFound)) | Some w \<Rightarrow> Ret (Inr (cloneWorkspace w))))"

definition prog_CreateAPI :: "mem_env \<Rightarrow> API \<Rightarrow> (goerr + API) mprog" where
  "prog_CreateAPI e a = locked (LoadWorkspace (a_WorkspaceID a) (\<lambda>found.
     if found = None
     then Ret (Inl (Wrapf ''workspace %q: %w'' (Some (a_WorkspaceID a)) (Sentinel ErrNotFound)))
     else
       let now = me_now e;
           a = a\<lparr>a_APIID := newID ''api'' (me_uuid e)\<rparr>;
           a = a\<lparr>a_CreatedAt := now\<rparr>;
           a = a\<lparr>a_UpdatedAt := now\<rparr>
       in StoreAPI (a_APIID a) (cloneAPI a) (Ret (Inr (cloneAPI a)))))"

definition prog_GetAPI :: "string \<Rightarrow> (goerr + API) mprog" where
  "prog_GetAPI i = locked (LoadAPI i (\<lambda>found.
     case found of None \<Rightarrow> Ret (Inl (Sentinel ErrNotFound)) | Some a \<Rightarrow> Ret (Inr (cloneAPI a))))"

definition prog_CreateKey :: "mem_env \<Rightarrow> Key \<Rightarrow> (goerr + Key) mprog" where
  "prog_CreateKey e k = locked (LoadAPI (k_APIID k) (\<lambda>found.
     if found = None then Ret (Inl (Wrapf ''api %q: %w'' (Some (k_APIID k)) (Sentinel ErrNotFound)))
     else
       let hashKey = bytes_string (k_KeyHash k)
       in LoadHash hashKey (\<lambda>existing.
            if existing \<noteq> None then Ret (Inl (Sentinel ErrConflict))
            else
              let now = me_now e;
                  k = k\<lparr>k_KeyID := newID ''key'' (me_uuid e)\<rparr>;
                  k = k\<lparr>k_CreatedAt := now\<rparr>;
                  k = k\<lparr>k_UpdatedAt := now\<rparr>;
                  k = cloneKey k
              in StoreKey (k_KeyID k) k (StoreHash hashKey (k_KeyID k) (Ret (Inr (cloneKey k)))))))"

definition prog_GetKeyByID :: "string \<Rightarrow> (goerr + Key) mprog" where
  "prog_GetKeyByID i = locked (LoadKey i (\<lambda>found.
     case found of None \<Rightarrow> Ret (Inl (Sentinel ErrNotFound)) | Some k \<Rightarrow> Ret (Inr (cloneKey k))))"

definition prog_GetKeyByHash :: "bytes \<Rightarrow> (goerr + Key) mprog" where
  "prog_GetKeyByHash hash = locked (LoadHash (bytes_string hash) (\<lambda>found.
     case found of
       None \<Rightarrow> Ret (Inl (Sentinel ErrNotFound))
     | Some i \<Rightarrow> LoadKey i (\<lambda>k. Ret (Inr (cloneKey (case k of None \<Rightarrow> zero_Key | Some k \<Rightarrow> k))))))"

definition prog_RevokeKey :: "mem_env \<Rightarrow> string \<Rightarrow> (goerr + unit) mprog" where
  "prog_RevokeKey e i = locked (LoadKey i (\<lambda>found.
     case found of
       None \<Rightarrow> Ret (Inl (Sentinel ErrNotFound))
     | Some k \<Rightarrow>
         if \<not> k_Enabled k then Ret (Inr ())
         else
           let k = k\<lparr>k_Enabled := False\<rparr>;
               k = k\<lparr>k_UpdatedAt := me_now e\<rparr>
           in StoreKey i k (Ret (Inr ()))))"

definition prog_RotateKey :: "mem_env \<Rightarrow> string \<Rightarrow> bytes \<Rightarrow> (goerr + Key) mprog" where
  "prog_RotateKey e i newHash = locked (LoadKey i (\<lambda>found.
     case found of
       None \<Rightarrow> Ret (Inl (Sentinel ErrNotFound))
     | Some k \<Rightarrow>
         let newHashKey = bytes_string newHash
         in LoadHash newHashKey (\<lambda>existing.
              if (case existing of None \<Rightarrow> False | Some existingID \<Rightarrow> existingID \<noteq> i)
              then Ret (Inl (Sentinel ErrConflict))
              else DeleteHash (bytes_string (k_KeyHash k)) (
                let k = k\<lparr>k_KeyHash := [] @ newHash\<rparr>;
                    k = k\<lparr>k_UpdatedAt := me_now e\<rparr>
                in StoreKey i k (StoreHash newHashKey i (Ret (Inr (cloneKey k))))))))"

text \<open>The two loops of the listing: over the map, and over the page.\<close>

primrec prog_collect :: "ListKeysOpts \<Rightarrow> string list \<Rightarrow> string list \<Rightarrow> (string list \<Rightarrow> 'r mprog) \<Rightarrow> 'r mprog" where
  "prog_collect opts [] ids rest = rest ids"
| "prog_collect opts (i # order) ids rest = LoadKey i (\<lambda>found.
     case found of
       None \<Rightarrow> prog_collect opts order ids rest
     | Some k \<Rightarrow>
         if k_APIID k \<noteq> o_APIID opts then prog_collect opts order ids rest
         else if o_OwnerPrincipalID opts \<noteq> [] \<and> k_OwnerPrincipalID k \<noteq> o_OwnerPrincipalID opts
         then prog_collect opts order ids rest
         else prog_collect opts order (ids @ [i]) rest)"

primrec prog_page :: "string list \<Rightarrow> Key list \<Rightarrow> (Key list \<Rightarrow> 'r mprog) \<Rightarrow> 'r mprog" where
  "prog_page [] out rest = rest out"
| "prog_page (i # ids) out rest = LoadKey i (\<lambda>k.
     prog_page ids (out @ [cloneKey (case k of None \<Rightarrow> zero_Key | Some k \<Rightarrow> k)]) rest)"

definition prog_ListKeys :: "mem_env \<Rightarrow> ListKeysOpts \<Rightarrow> (goerr + ListKeysResult) mprog" where
  "prog_ListKeys e opts = locked (prog_collect opts (me_range e) [] (\<lambda>ids.
     let ids = sort ids;
         start = (if o_PageToken opts \<noteq> [] then
                    let i = sort_SearchStrings ids (o_PageToken opts)
                    in if i < length ids \<and> ids ! i = o_PageToken opts then i + 1 else i
                  else 0);
         pageSize = (if sint (o_PageSize opts) \<le> 0 then 50 else nat (sint (o_PageSize opts)));
         stop = (if start + pageSize > length ids then length ids else start + pageSize)
     in prog_page (drop start (take stop ids)) [] (\<lambda>out.
          let nxt = (if stop < length ids then ids ! (stop - 1) else [])
          in Ret (Inr \<lparr>r_Keys = out, r_NextPageToken = nxt\<rparr>))))"

definition prog_TouchLastVerified :: "string \<Rightarrow> gotime \<Rightarrow> (goerr + unit) mprog" where
  "prog_TouchLastVerified i at = locked (LoadKey i (\<lambda>found.
     case found of
       None \<Rightarrow> Ret (Inl (Sentinel ErrNotFound))
     | Some k \<Rightarrow> StoreKey i (k\<lparr>k_LastVerifiedAt := Some at\<rparr>) (Ret (Inr ()))))"

definition prog_DecrementRemainingUses :: "mem_env \<Rightarrow> string \<Rightarrow> (int64 \<times> goerr option) mprog" where
  "prog_DecrementRemainingUses e i = locked (LoadKey i (\<lambda>found.
     case found of
       None \<Rightarrow> Ret (0, Some (Sentinel ErrNotFound))
     | Some k \<Rightarrow>
         if sint (k_RemainingUses k) < 0 then Ret (-1, None)
         else if k_RemainingUses k = 0 then Ret (0, Some (Sentinel ErrDepleted))
         else
           let k = k\<lparr>k_RemainingUses := k_RemainingUses k - 1\<rparr>;
               k = k\<lparr>k_UpdatedAt := me_now e\<rparr>
           in StoreKey i k (Ret (k_RemainingUses k, None))))"

fun prog_method ::
  "mem_env \<Rightarrow> (Workspace, API, Key, bytes) request \<Rightarrow> (Workspace, API, Key) response mprog" where
  "prog_method e (QCreateWorkspace w) = map_mprog (answer AWorkspace) (prog_CreateWorkspace e w)"
| "prog_method e (QGetWorkspace i) = map_mprog (answer AWorkspace) (prog_GetWorkspace i)"
| "prog_method e (QCreateAPI a) = map_mprog (answer AAPI) (prog_CreateAPI e a)"
| "prog_method e (QGetAPI i) = map_mprog (answer AAPI) (prog_GetAPI i)"
| "prog_method e (QCreateKey k) = map_mprog (answer AKey) (prog_CreateKey e k)"
| "prog_method e (QGetKeyByID i) = map_mprog (answer AKey) (prog_GetKeyByID i)"
| "prog_method e (QGetKeyByHash b) = map_mprog (answer AKey) (prog_GetKeyByHash b)"
| "prog_method e (QRevokeKey i) = map_mprog (answer (\<lambda>_. ADone)) (prog_RevokeKey e i)"
| "prog_method e (QRotateKey i b) = map_mprog (answer AKey) (prog_RotateKey e i b)"
| "prog_method e (QListKeys opts) =
     map_mprog (answer (\<lambda>r. AKeys (r_Keys r) (r_NextPageToken r))) (prog_ListKeys e opts)"
| "prog_method e (QTouchLastVerified i t) = map_mprog (answer (\<lambda>_. ADone)) (prog_TouchLastVerified i t)"
| "prog_method e (QDecrementRemainingUses i) =
     map_mprog (\<lambda>(n, err). ACount n err) (prog_DecrementRemainingUses e i)"

section \<open>Running alone\<close>

primrec exec_prog :: "'r mprog \<Rightarrow> mem_store \<Rightarrow> 'r \<times> mem_store" where
  "exec_prog (Ret r) s = (r, s)"
| "exec_prog (Lock p) s = exec_prog p s"
| "exec_prog (Unlock p) s = exec_prog p s"
| "exec_prog (LoadWorkspace i k) s = exec_prog (k (m_workspaces s i)) s"
| "exec_prog (StoreWorkspace i w p) s = exec_prog p (s\<lparr>m_workspaces := (m_workspaces s)(i \<mapsto> w)\<rparr>)"
| "exec_prog (LoadAPI i k) s = exec_prog (k (m_apis s i)) s"
| "exec_prog (StoreAPI i a p) s = exec_prog p (s\<lparr>m_apis := (m_apis s)(i \<mapsto> a)\<rparr>)"
| "exec_prog (LoadKey i k) s = exec_prog (k (m_keys s i)) s"
| "exec_prog (StoreKey i v p) s = exec_prog p (s\<lparr>m_keys := (m_keys s)(i \<mapsto> v)\<rparr>)"
| "exec_prog (LoadHash i k) s = exec_prog (k (m_hashIndex s i)) s"
| "exec_prog (StoreHash i v p) s = exec_prog p (s\<lparr>m_hashIndex := (m_hashIndex s)(i \<mapsto> v)\<rparr>)"
| "exec_prog (DeleteHash i p) s = exec_prog p (s\<lparr>m_hashIndex := (m_hashIndex s)(i := None)\<rparr>)"

text \<open>A body: it leaves the mutex alone. A guarded method is a body under the mutex.\<close>

primrec lock_free :: "'r mprog \<Rightarrow> bool" where
  "lock_free (Ret r) = True"
| "lock_free (Lock p) = False"
| "lock_free (Unlock p) = False"
| "lock_free (LoadWorkspace i k) = (\<forall>x. lock_free (k x))"
| "lock_free (StoreWorkspace i w p) = lock_free p"
| "lock_free (LoadAPI i k) = (\<forall>x. lock_free (k x))"
| "lock_free (StoreAPI i a p) = lock_free p"
| "lock_free (LoadKey i k) = (\<forall>x. lock_free (k x))"
| "lock_free (StoreKey i v p) = lock_free p"
| "lock_free (LoadHash i k) = (\<forall>x. lock_free (k x))"
| "lock_free (StoreHash i v p) = lock_free p"
| "lock_free (DeleteHash i p) = lock_free p"

definition guarded :: "'r mprog \<Rightarrow> bool" where
  "guarded p \<longleftrightarrow> (\<exists>b. lock_free b \<and> p = locked b)"

lemma exec_defer_Unlock [simp]: "exec_prog (defer_Unlock p) s = exec_prog p s"
  by (induction p arbitrary: s) simp_all

lemma exec_locked [simp]: "exec_prog (locked p) s = exec_prog p s"
  by (simp add: locked_def)

lemma exec_map [simp]: "exec_prog (map_mprog f p) s = map_prod f id (exec_prog p s)"
  by (induction p arbitrary: s) simp_all

lemma lock_free_map [simp]: "lock_free (map_mprog f p) = lock_free p"
  by (induction p) simp_all

lemma map_defer_Unlock: "map_mprog f (defer_Unlock p) = defer_Unlock (map_mprog f p)"
  by (induction p) (simp_all add: fun_eq_iff)

lemma guarded_locked [intro]: "lock_free b \<Longrightarrow> guarded (locked b)"
  by (auto simp: guarded_def)

lemma guarded_map [intro]: "guarded p \<Longrightarrow> guarded (map_mprog f p)"
  by (auto simp: guarded_def locked_def map_defer_Unlock intro: lock_free_map [THEN iffD2])

lemma exec_collect [simp]:
  "exec_prog (prog_collect opts order ids rest) s = exec_prog (rest (ids @ collect_ids opts (m_keys s) order)) s"
  by (induction order arbitrary: ids) (auto split: option.split)

lemma exec_page [simp]:
  "exec_prog (prog_page ids out rest) s =
   exec_prog (rest (out @ map (\<lambda>i. cloneKey (case m_keys s i of None \<Rightarrow> zero_Key | Some k \<Rightarrow> k)) ids)) s"
  by (induction ids arbitrary: out) auto

lemma lock_free_collect: "(\<And>ids. lock_free (rest ids)) \<Longrightarrow> lock_free (prog_collect opts order ids rest)"
  by (induction order arbitrary: ids) (auto split: option.split)

lemma lock_free_page: "(\<And>out. lock_free (rest out)) \<Longrightarrow> lock_free (prog_page ids out rest)"
  by (induction ids arbitrary: out) auto

lemmas prog_defs = prog_CreateWorkspace_def prog_GetWorkspace_def prog_CreateAPI_def prog_GetAPI_def
  prog_CreateKey_def prog_GetKeyByID_def prog_GetKeyByHash_def prog_RevokeKey_def prog_RotateKey_def
  prog_ListKeys_def prog_TouchLastVerified_def prog_DecrementRemainingUses_def

lemmas mem_defs = mem_CreateWorkspace_def mem_GetWorkspace_def mem_CreateAPI_def mem_GetAPI_def
  mem_CreateKey_def mem_GetKeyByID_def mem_GetKeyByHash_def mem_RevokeKey_def mem_RotateKey_def
  mem_ListKeys_def mem_TouchLastVerified_def mem_DecrementRemainingUses_def

lemma prog_method_guarded: "guarded (prog_method e q)"
  by (cases q)
    (auto simp: prog_defs Let_def intro!: guarded_map guarded_locked lock_free_collect lock_free_page split: option.split)

lemma prog_method_exec: "exec_prog (prog_method e q) s = mem_exec e s q"
  by (cases q) (auto simp: prog_defs mem_defs Let_def split: option.split)

section \<open>Goroutines\<close>

text \<open>
  One step of a method, with the state of the mutex: \<open>Lock\<close> waits while it is held, and \<open>Unlock\<close> of a
  mutex that is not held does not return (the runtime stops the program).
\<close>

fun prog_step :: "'r mprog \<Rightarrow> bool \<Rightarrow> mem_store \<Rightarrow> ('r mprog \<times> bool \<times> mem_store) option" where
  "prog_step (Ret r) mu s = None"
| "prog_step (Lock p) mu s = (if mu then None else Some (p, True, s))"
| "prog_step (Unlock p) mu s = (if mu then Some (p, False, s) else None)"
| "prog_step (LoadWorkspace i k) mu s = Some (k (m_workspaces s i), mu, s)"
| "prog_step (StoreWorkspace i w p) mu s = Some (p, mu, s\<lparr>m_workspaces := (m_workspaces s)(i \<mapsto> w)\<rparr>)"
| "prog_step (LoadAPI i k) mu s = Some (k (m_apis s i), mu, s)"
| "prog_step (StoreAPI i a p) mu s = Some (p, mu, s\<lparr>m_apis := (m_apis s)(i \<mapsto> a)\<rparr>)"
| "prog_step (LoadKey i k) mu s = Some (k (m_keys s i), mu, s)"
| "prog_step (StoreKey i v p) mu s = Some (p, mu, s\<lparr>m_keys := (m_keys s)(i \<mapsto> v)\<rparr>)"
| "prog_step (LoadHash i k) mu s = Some (k (m_hashIndex s i), mu, s)"
| "prog_step (StoreHash i v p) mu s = Some (p, mu, s\<lparr>m_hashIndex := (m_hashIndex s)(i \<mapsto> v)\<rparr>)"
| "prog_step (DeleteHash i p) mu s = Some (p, mu, s\<lparr>m_hashIndex := (m_hashIndex s)(i := None)\<rparr>)"

datatype ('e, 'q, 'r) goroutine = Idle | Calling 'e 'q "'r mprog"

text \<open>The driver in use: its mutex and maps, and the goroutines by number.\<close>

record ('e, 'q, 'r) shared =
  sh_mu :: bool
  sh_store :: mem_store
  sh_threads :: "nat \<Rightarrow> ('e, 'q, 'r) goroutine"

datatype ('e, 'q, 'r) call_event = Invoke nat 'e 'q | Tau nat | Return nat 'r

definition shared_New :: "('e, 'q, 'r) shared" where
  "shared_New = \<lparr>sh_mu = False, sh_store = mem_New, sh_threads = (\<lambda>_. Idle)\<rparr>"

text \<open>
  What the environment of a call answers (clock, uuid, order of the map) is fixed when the call is
  made, to any value.
\<close>

inductive shared_step ::
  "('e \<Rightarrow> 'q \<Rightarrow> 'r mprog) \<Rightarrow> ('e, 'q, 'r) call_event \<Rightarrow> ('e, 'q, 'r) shared \<Rightarrow> ('e, 'q, 'r) shared \<Rightarrow> bool"
  for meth where
  invoke: "sh_threads s t = Idle \<Longrightarrow>
    shared_step meth (Invoke t e q) s (s\<lparr>sh_threads := (sh_threads s)(t := Calling e q (meth e q))\<rparr>)"
| tau: "sh_threads s t = Calling e q p \<Longrightarrow> prog_step p (sh_mu s) (sh_store s) = Some (p', mu', st') \<Longrightarrow>
    shared_step meth (Tau t) s
      \<lparr>sh_mu = mu', sh_store = st', sh_threads = (sh_threads s)(t := Calling e q p')\<rparr>"
| return: "sh_threads s t = Calling e q (Ret r) \<Longrightarrow>
    shared_step meth (Return t r) s (s\<lparr>sh_threads := (sh_threads s)(t := Idle)\<rparr>)"

inductive_cases shared_stepE: "shared_step meth l s s'"

section \<open>The atomic object\<close>

text \<open>
  The specification of a concurrent object: between its call and its return every call takes effect at
  once, at one moment (\<open>Tau\<close>), by its specification. The log records the calls in the order of
  these moments.
\<close>

datatype ('e, 'q, 'r) pending_call = NoCall | Called 'e 'q | Answered 'r

record ('e, 'q, 'r) atomic =
  at_store :: mem_store
  at_calls :: "nat \<Rightarrow> ('e, 'q, 'r) pending_call"
  at_log :: "('e \<times> 'q \<times> 'r) list"

definition atomic_New :: "('e, 'q, 'r) atomic" where
  "atomic_New = \<lparr>at_store = mem_New, at_calls = (\<lambda>_. NoCall), at_log = []\<rparr>"

inductive atomic_step ::
  "('e \<Rightarrow> mem_store \<Rightarrow> 'q \<Rightarrow> 'r \<times> mem_store) \<Rightarrow> ('e, 'q, 'r) call_event \<Rightarrow>
   ('e, 'q, 'r) atomic \<Rightarrow> ('e, 'q, 'r) atomic \<Rightarrow> bool" for spec where
  a_invoke: "at_calls a t = NoCall \<Longrightarrow>
    atomic_step spec (Invoke t e q) a (a\<lparr>at_calls := (at_calls a)(t := Called e q)\<rparr>)"
| a_effect: "at_calls a t = Called e q \<Longrightarrow> spec e (at_store a) q = (r, st') \<Longrightarrow>
    atomic_step spec (Tau t) a
      \<lparr>at_store = st', at_calls = (at_calls a)(t := Answered r), at_log = at_log a @ [(e, q, r)]\<rparr>"
| a_return: "at_calls a t = Answered r \<Longrightarrow>
    atomic_step spec (Return t r) a (a\<lparr>at_calls := (at_calls a)(t := NoCall)\<rparr>)"

text \<open>Calls and returns are what the callers see.\<close>

fun visible :: "('e, 'q, 'r) call_event \<Rightarrow> bool" where
  "visible (Tau t) = False"
| "visible l = True"

text \<open>Between its steps on the maps a method is outside, waiting at the mutex or about to return.\<close>

fun outside :: "('e \<Rightarrow> 'q \<Rightarrow> 'r mprog) \<Rightarrow> ('e, 'q, 'r) goroutine \<Rightarrow> ('e, 'q, 'r) pending_call \<Rightarrow> bool" where
  "outside meth Idle c = (c = NoCall)"
| "outside meth (Calling e q p) c = (c = Called e q \<and> p = meth e q \<or> (\<exists>r. c = Answered r \<and> p = Ret r))"

definition critical :: "'r mprog \<Rightarrow> bool" where
  "critical p \<longleftrightarrow> (\<exists>b. lock_free b \<and> p = defer_Unlock b)"

text \<open>
  The simulation: with the mutex free the maps are those of the atomic object; while a goroutine holds
  it, they will be when it is done, and the call has taken effect.
\<close>

definition holds_mutex ::
  "('e, 'q, 'r) shared \<Rightarrow> ('e, 'q, 'r) atomic \<Rightarrow> nat \<Rightarrow> bool" where
  "holds_mutex s a t \<longleftrightarrow> (\<exists>e q p r. sh_threads s t = Calling e q p \<and> critical p \<and>
     at_calls a t = Answered r \<and> exec_prog p (sh_store s) = (r, at_store a))"

definition linearized ::
  "('e \<Rightarrow> 'q \<Rightarrow> 'r mprog) \<Rightarrow> ('e, 'q, 'r) shared \<Rightarrow> ('e, 'q, 'r) atomic \<Rightarrow> bool" where
  "linearized meth s a \<longleftrightarrow>
     (if sh_mu s
      then \<exists>h. holds_mutex s a h \<and> (\<forall>t. t \<noteq> h \<longrightarrow> outside meth (sh_threads s t) (at_calls a t))
      else sh_store s = at_store a \<and> (\<forall>t. outside meth (sh_threads s t) (at_calls a t)))"

lemma defer_Unlock_not: "defer_Unlock b \<noteq> Ret r" "lock_free b \<Longrightarrow> defer_Unlock b \<noteq> Lock p"
  by (cases b; simp)+

lemma critical_not [simp]: "\<not> critical (Ret r)" "\<not> critical (Lock p)"
  using defer_Unlock_not by (metis critical_def)+

lemma critical_step:
  assumes "critical p"
  obtains p' mu' s' where "prog_step p True s = Some (p', mu', s')" "exec_prog p' s' = exec_prog p s"
    "mu' \<and> critical p' \<or> \<not> mu' \<and> p' = Ret (fst (exec_prog p s)) \<and> s' = s"
proof -
  from assms obtain b where b: "lock_free b" "p = defer_Unlock b" by (auto simp: critical_def)
  have "\<exists>p' mu' s'. prog_step p True s = Some (p', mu', s') \<and> exec_prog p' s' = exec_prog p s \<and>
    (mu' \<and> critical p' \<or> \<not> mu' \<and> p' = Ret (fst (exec_prog p s)) \<and> s' = s)"
    using b by (cases b) (auto simp: critical_def)
  with that show ?thesis by blast
qed

lemma prog_step_Lock: "prog_step (locked b) mu s = Some (p', mu', s') \<longleftrightarrow>
    \<not> mu \<and> p' = defer_Unlock b \<and> mu' \<and> s' = s"
  by (auto simp: locked_def)

section \<open>Races and progress\<close>

text \<open>The map a goroutine accesses next, and whether it writes it.\<close>

datatype table = TWorkspaces | TAPIs | TKeys | THashIndex

fun next_access :: "'r mprog \<Rightarrow> (table \<times> bool) option" where
  "next_access (LoadWorkspace i k) = Some (TWorkspaces, False)"
| "next_access (StoreWorkspace i w p) = Some (TWorkspaces, True)"
| "next_access (LoadAPI i k) = Some (TAPIs, False)"
| "next_access (StoreAPI i a p) = Some (TAPIs, True)"
| "next_access (LoadKey i k) = Some (TKeys, False)"
| "next_access (StoreKey i v p) = Some (TKeys, True)"
| "next_access (LoadHash i k) = Some (THashIndex, False)"
| "next_access (StoreHash i v p) = Some (THashIndex, True)"
| "next_access (DeleteHash i p) = Some (THashIndex, True)"
| "next_access p = None"

text \<open>Two goroutines are about to access the same map, one of them to write it.\<close>

definition data_race :: "('e, 'q, 'r) shared \<Rightarrow> bool" where
  "data_race s \<longleftrightarrow> (\<exists>t u e q p e' q' p' tb w w'. t \<noteq> u \<and> sh_threads s t = Calling e q p \<and>
     sh_threads s u = Calling e' q' p' \<and> next_access p = Some (tb, w) \<and> next_access p' = Some (tb, w') \<and> (w \<or> w'))"

text \<open>A goroutine is about to unlock a mutex that is not held.\<close>

definition unlock_fault :: "('e, 'q, 'r) shared \<Rightarrow> bool" where
  "unlock_fault s \<longleftrightarrow> \<not> sh_mu s \<and> (\<exists>t e q p. sh_threads s t = Calling e q (Unlock p))"

text \<open>The actions a scheduler has to allow: all but new calls.\<close>

definition scheduled :: "('e, 'q, 'r) call_event set" where
  "scheduled = {l. \<forall>t e q. l \<noteq> Invoke t e q}"

text \<open>The number of steps a method has left, from the present contents of the maps.\<close>

primrec prog_left :: "'r mprog \<Rightarrow> mem_store \<Rightarrow> nat" where
  "prog_left (Ret r) s = 0"
| "prog_left (Lock p) s = Suc (prog_left p s)"
| "prog_left (Unlock p) s = Suc (prog_left p s)"
| "prog_left (LoadWorkspace i k) s = Suc (prog_left (k (m_workspaces s i)) s)"
| "prog_left (StoreWorkspace i w p) s = Suc (prog_left p (s\<lparr>m_workspaces := (m_workspaces s)(i \<mapsto> w)\<rparr>))"
| "prog_left (LoadAPI i k) s = Suc (prog_left (k (m_apis s i)) s)"
| "prog_left (StoreAPI i a p) s = Suc (prog_left p (s\<lparr>m_apis := (m_apis s)(i \<mapsto> a)\<rparr>))"
| "prog_left (LoadKey i k) s = Suc (prog_left (k (m_keys s i)) s)"
| "prog_left (StoreKey i v p) s = Suc (prog_left p (s\<lparr>m_keys := (m_keys s)(i \<mapsto> v)\<rparr>))"
| "prog_left (LoadHash i k) s = Suc (prog_left (k (m_hashIndex s i)) s)"
| "prog_left (StoreHash i v p) s = Suc (prog_left p (s\<lparr>m_hashIndex := (m_hashIndex s)(i \<mapsto> v)\<rparr>))"
| "prog_left (DeleteHash i p) s = Suc (prog_left p (s\<lparr>m_hashIndex := (m_hashIndex s)(i := None)\<rparr>))"

lemma prog_step_left: "prog_step p mu s = Some (p', mu', s') \<Longrightarrow> prog_left p s = Suc (prog_left p' s')"
  by (cases p) (auto split: if_splits)

text \<open>A call that has got the mutex, or has released it and is about to return.\<close>

fun entered_prog :: "('e, 'q, 'r) goroutine \<Rightarrow> bool" where
  "entered_prog Idle = False"
| "entered_prog (Calling e q p) = (critical p \<or> (\<exists>r. p = Ret r))"

definition entered :: "nat \<Rightarrow> ('e, 'q, 'r) shared \<Rightarrow> bool" where
  "entered t s \<longleftrightarrow> entered_prog (sh_threads s t)"

fun thread_left :: "('e, 'q, 'r) goroutine \<Rightarrow> mem_store \<Rightarrow> nat" where
  "thread_left Idle s = 0"
| "thread_left (Calling e q p) s = prog_left p s"

fun thread_next :: "nat \<Rightarrow> ('e, 'q, 'r) goroutine \<Rightarrow> ('e, 'q, 'r) call_event" where
  "thread_next t (Calling e q (Ret r)) = Return t r"
| "thread_next t g = Tau t"

lemma thread_next_scheduled [simp]: "thread_next t g \<in> scheduled"
  by (cases "(t, g)" rule: thread_next.cases) (simp_all add: scheduled_def)

lemma thread_next_critical: "critical p \<Longrightarrow> thread_next t (Calling e q p) = Tau t"
  by (cases p) simp_all

section \<open>Guarded methods\<close>

locale guarded_methods =
  fixes meth :: "'e \<Rightarrow> 'q \<Rightarrow> 'r mprog"
    and spec :: "'e \<Rightarrow> mem_store \<Rightarrow> 'q \<Rightarrow> 'r \<times> mem_store"
  assumes meth_guarded: "guarded (meth e q)"
    and meth_exec: "exec_prog (meth e q) s = spec e s q"
begin

lemma meth_start: "\<exists>b. meth e q = locked b \<and> critical (defer_Unlock b) \<and> (\<forall>s. exec_prog b s = spec e s q)"
  using meth_guarded [of e q] meth_exec [of e q] by (metis critical_def exec_locked guarded_def)

lemma meth_not [simp]: "meth e q \<noteq> Ret r" "Ret r \<noteq> meth e q" "\<not> critical (meth e q)"
  using meth_start [of e q] by (auto simp: locked_def)

lemma linearized_New: "linearized meth shared_New atomic_New"
  by (simp add: linearized_def shared_New_def atomic_New_def)

text \<open>A goroutine outside either waits at the mutex or is done with the maps.\<close>

lemma outside_step:
  assumes "outside meth (Calling e q p) c" "prog_step p mu s = Some (p', mu', s')"
  shows "c = Called e q \<and> \<not> mu \<and> mu' \<and> s' = s \<and> critical p' \<and> exec_prog p' s = spec e s q"
proof -
  from assms have c: "c = Called e q" "p = meth e q" by auto
  from meth_start [of e q] obtain b where "meth e q = locked b" "critical (defer_Unlock b)"
    "\<And>s. exec_prog b s = spec e s q" by blast
  with assms(2) c show ?thesis by (simp add: prog_step_Lock)
qed

text \<open>Each goroutine is outside, or it is the one that holds the mutex.\<close>

lemma linearized_cases:
  assumes "linearized meth s a"
  shows "outside meth (sh_threads s t) (at_calls a t) \<or>
    sh_mu s \<and> holds_mutex s a t \<and> (\<forall>u. u \<noteq> t \<longrightarrow> outside meth (sh_threads s u) (at_calls a u))"
  using assms unfolding linearized_def by (metis (full_types))

lemma linearized_others:
  assumes "linearized meth s a" "outside meth (sh_threads s t) (at_calls a t)" "outside meth th c"
  shows "linearized meth (s\<lparr>sh_threads := (sh_threads s)(t := th)\<rparr>) (a\<lparr>at_calls := (at_calls a)(t := c)\<rparr>)"
proof (cases "sh_mu s")
  case True
  with assms(1) obtain h where h: "holds_mutex s a h" "\<And>u. u \<noteq> h \<Longrightarrow> outside meth (sh_threads s u) (at_calls a u)"
    by (auto simp: linearized_def)
  have "h \<noteq> t" using h(1) assms(2) by (auto simp: holds_mutex_def)
  with h assms(3) True show ?thesis by (auto simp: linearized_def holds_mutex_def intro!: exI [of _ h])
qed (use assms in \<open>auto simp: linearized_def\<close>)

lemma linearized_holder:
  assumes "holds_mutex s a t" "sh_mu s" "\<And>u. u \<noteq> t \<Longrightarrow> outside meth (sh_threads s u) (at_calls a u)"
    "sh_threads s t = Calling e q p" "prog_step p (sh_mu s) (sh_store s) = Some (p', mu', st')"
  shows "linearized meth \<lparr>sh_mu = mu', sh_store = st', sh_threads = (sh_threads s)(t := Calling e q p')\<rparr> a"
proof -
  from assms(1,4) obtain r where r: "critical p" "at_calls a t = Answered r" "exec_prog p (sh_store s) = (r, at_store a)"
    by (auto simp: holds_mutex_def)
  obtain p1 mu1 s1 where "prog_step p True (sh_store s) = Some (p1, mu1, s1)"
    "exec_prog p1 s1 = exec_prog p (sh_store s)"
    "mu1 \<and> critical p1 \<or> \<not> mu1 \<and> p1 = Ret (fst (exec_prog p (sh_store s))) \<and> s1 = sh_store s"
    by (rule critical_step [OF r(1)])
  with assms(2,5) r(3) have "exec_prog p' st' = (r, at_store a)"
    "mu' \<and> critical p' \<or> \<not> mu' \<and> p' = Ret r \<and> st' = sh_store s" by auto
  with r(2) assms(3) show ?thesis
    by (cases mu') (auto simp: linearized_def holds_mutex_def intro!: exI [of _ t])
qed

lemma linearized_step:
  assumes "linearized meth s a" "shared_step meth l s s'"
  shows "\<not> visible l \<and> linearized meth s' a \<or> (\<exists>a'. atomic_step spec l a a' \<and> linearized meth s' a')"
  using assms(2)
proof cases
  case (invoke t e q)
  then have c: "at_calls a t = NoCall" "outside meth (sh_threads s t) (at_calls a t)"
    using linearized_cases [OF assms(1), of t] by (auto simp: holds_mutex_def)
  then have "linearized meth s' (a\<lparr>at_calls := (at_calls a)(t := Called e q)\<rparr>)"
    unfolding invoke(2) by (intro linearized_others [OF assms(1)]) auto
  with a_invoke [OF c(1)] invoke(1) show ?thesis by blast
next
  case (return t e q r)
  then have c: "at_calls a t = Answered r" "outside meth (sh_threads s t) (at_calls a t)"
    using linearized_cases [OF assms(1), of t] by (auto simp: holds_mutex_def)
  then have "linearized meth s' (a\<lparr>at_calls := (at_calls a)(t := NoCall)\<rparr>)"
    unfolding return(2) by (intro linearized_others [OF assms(1)]) auto
  with a_return [OF c(1)] return(1) show ?thesis by blast
next
  case (tau t e q p p' mu' st')
  show ?thesis
  proof (cases "outside meth (sh_threads s t) (at_calls a t)")
    case False
    with linearized_cases [OF assms(1), of t] linearized_holder [of s a t, OF _ _ _ tau(3,4)] tau(1,2)
    show ?thesis by simp
  next
    case o: True
    obtain r st where r: "spec e (sh_store s) q = (r, st)" by fastforce
    from outside_step [OF o [unfolded tau(3)] tau(4)]
    have c: "at_calls a t = Called e q" "\<not> sh_mu s" "mu'" "st' = sh_store s" "critical p'"
      "exec_prog p' (sh_store s) = (r, st)" using r by auto
    with assms(1) have st: "at_store a = sh_store s" and
      out: "\<And>u. outside meth (sh_threads s u) (at_calls a u)" by (auto simp: linearized_def)
    let ?a = "\<lparr>at_store = st, at_calls = (at_calls a)(t := Answered r), at_log = at_log a @ [(e, q, r)]\<rparr>"
    have "atomic_step spec (Tau t) a ?a" using c(1) r st by (intro a_effect) auto
    moreover have "linearized meth s' ?a"
      unfolding tau(2) using c out by (auto simp: linearized_def holds_mutex_def intro!: exI [of _ t])
    ultimately show ?thesis using tau(1) by blast
  qed
qed

theorem linearizable:
  assumes "lts_run (shared_step meth) shared_New tr s"
  shows "\<exists>tr' a. lts_run (atomic_step spec) atomic_New tr' a \<and> filter visible tr' = filter visible tr \<and>
    linearized meth s a"
  using assms
proof induction
  case lts_start
  then show ?case using linearized_New lts_run.lts_start by fastforce
next
  case (lts_next tr s l s')
  then obtain tr' a where a: "lts_run (atomic_step spec) atomic_New tr' a" "filter visible tr' = filter visible tr"
    "linearized meth s a" by blast
  from linearized_step [OF a(3) lts_next.hyps(2)] show ?case
  proof
    assume "\<not> visible l \<and> linearized meth s' a"
    with a show ?thesis by (intro exI [of _ tr'] exI [of _ a]) simp
  next
    assume "\<exists>a'. atomic_step spec l a a' \<and> linearized meth s' a'"
    then obtain a' where "atomic_step spec l a a'" "linearized meth s' a'" by blast
    with a show ?thesis by (intro exI [of _ "tr' @ [l]"] exI [of _ a']) (auto intro: lts_run.lts_next)
  qed
qed

lemma outside_no_access: "outside meth (Calling e q p) c \<Longrightarrow> next_access p = None"
  using meth_start [of e q] by (auto simp: locked_def)

lemma linearized_no_race: "linearized meth s a \<Longrightarrow> \<not> data_race s"
  using linearized_cases [of s a] outside_no_access unfolding data_race_def by (metis option.distinct(1))

lemma outside_no_Unlock: "\<not> outside meth (Calling e q (Unlock p)) c"
  using meth_start [of e q] by (auto simp: locked_def)

lemma linearized_no_fault: "linearized meth s a \<Longrightarrow> \<not> unlock_fault s"
  unfolding unlock_fault_def linearized_def by (metis outside_no_Unlock)

text \<open>The goroutine at a program point that is not outside holds the mutex.\<close>

lemma critical_holds:
  assumes "linearized meth s a" "sh_threads s t = Calling e q p" "critical p"
  shows "sh_mu s" "u \<noteq> t \<Longrightarrow> outside meth (sh_threads s u) (at_calls a u)"
  using linearized_cases [OF assms(1), of t] assms(2,3) by auto

text \<open>A call that has entered can go on; so some call can, whenever there is one.\<close>

lemma entered_enabled:
  assumes "linearized meth s a" "entered t s"
  shows "can_step (shared_step meth) (thread_next t (sh_threads s t)) s"
proof -
  from assms(2) obtain e q p where t: "sh_threads s t = Calling e q p" "critical p \<or> (\<exists>r. p = Ret r)"
    by (cases "sh_threads s t") (auto simp: entered_def)
  from t(2) show ?thesis
  proof
    assume c: "critical p"
    obtain p' mu' s' where "prog_step p True (sh_store s) = Some (p', mu', s')" by (rule critical_step [OF c])
    then have "prog_step p (sh_mu s) (sh_store s) = Some (p', mu', s')"
      using critical_holds(1) [OF assms(1) t(1) c] by simp
    then show ?thesis
      using tau [OF t(1)] t(1) c by (auto simp: can_step_def thread_next_critical)
  next
    assume "\<exists>r. p = Ret r"
    then obtain r where "p = Ret r" by blast
    with shared_step.return [of s t e q r meth] t(1) show ?thesis by (auto simp: can_step_def)
  qed
qed

lemma waiting_enabled:
  assumes "linearized meth s a" "\<not> sh_mu s" "sh_threads s t = Calling e q p" "\<not> entered t s"
  shows "can_step (shared_step meth) (Tau t) s"
proof -
  from assms have "p = meth e q" by (auto simp: linearized_def entered_def dest!: spec [of _ t])
  with meth_start [of e q] assms(2) obtain b where "prog_step p (sh_mu s) (sh_store s) = Some (defer_Unlock b, True, sh_store s)"
    by (auto simp: prog_step_Lock)
  with tau [OF assms(3)] show ?thesis by (auto simp: can_step_def)
qed

theorem not_stuck:
  assumes "linearized meth s a" "sh_threads s t \<noteq> Idle"
  shows "\<exists>l \<in> scheduled. can_step (shared_step meth) l s"
proof (cases "sh_mu s")
  case True
  with assms(1) obtain h where "entered h s"
    unfolding linearized_def holds_mutex_def entered_def by (metis entered_prog.simps(2))
  from entered_enabled [OF assms(1) this] show ?thesis by (metis thread_next_scheduled)
next
  case False
  have "Tau t \<in> scheduled" by (simp add: scheduled_def)
  moreover from assms(2) obtain e q p where "sh_threads s t = Calling e q p" by (cases "sh_threads s t") auto
  ultimately show ?thesis
    using waiting_enabled [OF assms(1) False] entered_enabled [OF assms(1), of t] thread_next_scheduled by metis
qed

text \<open>What a step does to a call that has entered: it returns, it comes nearer, or it is left alone.\<close>

lemma linearized_keeps: "linearized meth s a \<Longrightarrow> shared_step meth l s s' \<Longrightarrow> \<exists>a'. linearized meth s' a'"
  using linearized_step by blast

lemma entered_step:
  assumes "linearized meth s a" "entered t s" "shared_step meth l s s'"
  shows "sh_threads s' t = Idle \<and> (\<exists>r. l = Return t r) \<or>
    entered t s' \<and> thread_left (sh_threads s' t) (sh_store s') < thread_left (sh_threads s t) (sh_store s) \<or>
    entered t s' \<and> l \<noteq> thread_next t (sh_threads s t) \<and> sh_threads s' t = sh_threads s t \<and>
      thread_left (sh_threads s' t) (sh_store s') = thread_left (sh_threads s t) (sh_store s)"
  using assms(3)
proof cases
  case (invoke u e q)
  with assms(2) have "u \<noteq> t" by (auto simp: entered_def)
  with invoke assms(2) show ?thesis
    by (cases "(t, sh_threads s t)" rule: thread_next.cases) (auto simp: entered_def)
next
  case (return u e q r)
  with assms(2) show ?thesis
    by (cases "u = t"; cases "(t, sh_threads s t)" rule: thread_next.cases) (auto simp: entered_def)
next
  case (tau u e q p p' mu' st')
  show ?thesis
  proof (cases "u = t")
    case True
    with tau assms(2) have c: "critical p" by (auto simp: entered_def)
    have "sh_mu s" by (rule critical_holds(1) [OF assms(1) tau(3) c])
    with critical_step [OF c, of "sh_store s"] tau(4) have "critical p' \<or> (\<exists>r. p' = Ret r)" by force
    with True tau prog_step_left [OF tau(4)] show ?thesis by (auto simp: entered_def)
  next
    case False
    from assms(2) obtain e' q' p0 where t: "sh_threads s t = Calling e' q' p0" "critical p0 \<or> (\<exists>r. p0 = Ret r)"
      by (cases "sh_threads s t") (auto simp: entered_def)
    have "\<not> critical p0"
      using critical_holds [OF assms(1) t(1)] False outside_step [OF _ tau(4)] tau(3) by metis
    with t tau False show ?thesis by (auto simp: entered_def)
  qed
qed

end

text \<open>A call that has entered returns, by the progress rule.\<close>

sublocale guarded_methods < entered_returns: response "shared_step meth"
  "\<lambda>s. (\<exists>a. linearized meth s a) \<and> entered t s" "\<lambda>s. sh_threads s t = Idle"
  "\<lambda>s. thread_left (sh_threads s t) (sh_store s)" "\<lambda>s. thread_next t (sh_threads s t)" scheduled for t
proof (unfold_locales, goal_cases)
  case (1 s)
  show ?case by simp
next
  case (2 s)
  then show ?case using entered_enabled by blast
next
  case (3 s s')
  then show ?case using entered_step [of s _ t] linearized_keeps by blast
next
  case (4 s l s')
  then show ?case using entered_step [of s _ t l s'] linearized_keeps [of s _ l s'] by metis
qed

context guarded_methods
begin

text \<open>The way out of a call is its return.\<close>

lemma step_to_Idle: "shared_step meth l s s' \<Longrightarrow> sh_threads s t \<noteq> Idle \<Longrightarrow> sh_threads s' t = Idle \<Longrightarrow> \<exists>r. l = Return t r"
  by (cases rule: shared_step.cases) (auto split: if_splits)

lemma Idle_returned:
  assumes "is_run (shared_step meth) \<sigma> act" "sh_threads (\<sigma> n) t \<noteq> Idle" "n \<le> m" "sh_threads (\<sigma> m) t = Idle"
  shows "\<exists>k \<ge> n. \<exists>r. act k = Some (Return t r)"
  using assms(3,4)
proof (induction m rule: dec_induct)
  case (step m)
  show ?case
  proof (cases "sh_threads (\<sigma> m) t = Idle")
    case False
    with assms(1) step.prems obtain l where "act m = Some l" "shared_step meth l (\<sigma> m) (\<sigma> (Suc m))"
      by (auto simp: is_run_def dest!: spec [of _ m] split: option.splits)
    with step_to_Idle False step.prems step.hyps(1) show ?thesis by blast
  qed (rule step.IH)
qed (use assms(2) in simp)

lemma run_linearized: "is_run (shared_step meth) \<sigma> act \<Longrightarrow> \<sigma> 0 = shared_New \<Longrightarrow> \<exists>a. linearized meth (\<sigma> n) a"
  using is_run_keeps [of "shared_step meth" \<sigma> act "\<lambda>s. \<exists>a. linearized meth s a" 0 n] linearized_New linearized_keeps
  by (metis le0)

lemma entered_returns:
  assumes "is_run (shared_step meth) \<sigma> act" "is_fair (shared_step meth) scheduled \<sigma> act" "\<sigma> 0 = shared_New" "entered t (\<sigma> n)"
  shows "\<exists>m \<ge> n. \<exists>r. act m = Some (Return t r)"
proof -
  obtain m where "n \<le> m" "sh_threads (\<sigma> m) t = Idle"
    using entered_returns.responds [OF assms(1,2), of n t] run_linearized [OF assms(1,3)] assms(4) by blast
  moreover have "sh_threads (\<sigma> n) t \<noteq> Idle" using assms(4) by (auto simp: entered_def)
  ultimately show ?thesis using Idle_returned [OF assms(1)] by blast
qed

text \<open>The mutex is released again and again.\<close>

lemma holder_keeps:
  assumes "linearized meth s a" "shared_step meth l s s'" "sh_mu s'" "sh_threads s h = Calling e q p" "critical p"
  shows "\<exists>p'. sh_threads s' h = Calling e q p' \<and> critical p'"
  using assms(2)
proof cases
  case (tau t e1 q1 p1 p' mu' st')
  show ?thesis
  proof (cases "t = h")
    case True
    have "sh_mu s" by (rule critical_holds(1) [OF assms(1,4,5)])
    with critical_step [OF assms(5), of "sh_store s"] tau True assms(3,4) show ?thesis by force
  qed (use tau assms(4,5) in auto)
qed (use assms(4,5) in auto)

lemma mutex_released:
  assumes "is_run (shared_step meth) \<sigma> act" "is_fair (shared_step meth) scheduled \<sigma> act" "\<sigma> 0 = shared_New"
  shows "\<exists>m \<ge> n. \<not> sh_mu (\<sigma> m)"
proof (rule ccontr)
  assume "\<not> ?thesis"
  then have held: "sh_mu (\<sigma> m)" if "n \<le> m" for m using that by blast
  with run_linearized [OF assms(1,3), of n] obtain h e q p where h: "sh_threads (\<sigma> n) h = Calling e q p" "critical p"
    unfolding linearized_def holds_mutex_def by (metis order_refl)
  have still: "\<exists>p. sh_threads (\<sigma> m) h = Calling e q p \<and> critical p" if "n \<le> m" for m
    using that
  proof (induction m rule: dec_induct)
    case (step m)
    from assms(1) have "case act m of None \<Rightarrow> \<sigma> (Suc m) = \<sigma> m | Some l \<Rightarrow> shared_step meth l (\<sigma> m) (\<sigma> (Suc m))"
      by (simp add: is_run_def)
    with step holder_keeps [of "\<sigma> m" _ _ "\<sigma> (Suc m)" h e q] run_linearized [OF assms(1,3), of m] held [of "Suc m"]
    show ?case by (fastforce split: option.splits)
  qed (use h in blast)
  have "entered h (\<sigma> n)" using h by (simp add: entered_def)
  with entered_returns.responds [OF assms(1,2), of n h] run_linearized [OF assms(1,3)] still show False by fastforce
qed

text \<open>With weak fairness some call returns, with strong fairness each does.\<close>

lemma waits_or_enters:
  assumes "is_run (shared_step meth) \<sigma> act" "sh_threads (\<sigma> n) t \<noteq> Idle" "n \<le> m" "\<And>k. n \<le> k \<Longrightarrow> \<not> entered t (\<sigma> k)"
  shows "sh_threads (\<sigma> m) t \<noteq> Idle \<and> \<not> entered t (\<sigma> m)"
  using assms(3)
proof (induction m rule: dec_induct)
  case (step m)
  from assms(1) have "case act m of None \<Rightarrow> \<sigma> (Suc m) = \<sigma> m | Some l \<Rightarrow> shared_step meth l (\<sigma> m) (\<sigma> (Suc m))"
    by (simp add: is_run_def)
  with step assms(4) [of "Suc m"] show ?case
    by (auto split: option.splits elim!: shared_stepE simp: entered_def split: if_splits)
qed (use assms in simp)

lemma taken_enters:
  assumes "linearized meth s a" "shared_step meth (Tau t) s s'" "\<not> entered t s"
  shows "entered t s'"
  using assms(2)
proof cases
  case (tau e q p p' mu' st')
  with assms(3) have "\<not> critical p" by (simp add: entered_def)
  with linearized_cases [OF assms(1), of t] tau(2) have "outside meth (Calling e q p) (at_calls a t)"
    by (auto simp: holds_mutex_def)
  from outside_step [OF this tau(3)] tau(1) show ?thesis by (simp add: entered_def)
qed

lemma not_entered_free: "linearized meth s a \<Longrightarrow> (\<And>u. \<not> entered u s) \<Longrightarrow> \<not> sh_mu s"
  unfolding linearized_def holds_mutex_def entered_def by (metis entered_prog.simps(2))

lemma taken_later:
  assumes "is_run (shared_step meth) \<sigma> act" "\<sigma> 0 = shared_New" "act m = Some (Tau t)" "\<not> entered t (\<sigma> m)"
  shows "entered t (\<sigma> (Suc m))"
  using assms(1,3,4) run_linearized [OF assms(1,2), of m] taken_enters
  by (auto simp: is_run_def dest!: spec [of _ m])

theorem some_call_returns:
  assumes "is_run (shared_step meth) \<sigma> act" "is_fair (shared_step meth) scheduled \<sigma> act" "\<sigma> 0 = shared_New"
    "sh_threads (\<sigma> n) t \<noteq> Idle"
  shows "\<exists>m \<ge> n. \<exists>u r. act m = Some (Return u r)"
proof (cases "\<exists>m \<ge> n. \<exists>u. entered u (\<sigma> m)")
  case True
  then show ?thesis using entered_returns [OF assms(1-3)] by (meson order_trans)
next
  case False
  then have never: "\<not> entered u (\<sigma> m)" if "n \<le> m" for u m using that by blast
  have "can_step (shared_step meth) (Tau t) (\<sigma> m)" if "n \<le> m" for m
  proof -
    obtain a where a: "linearized meth (\<sigma> m) a" using run_linearized [OF assms(1,3)] by blast
    from waits_or_enters [OF assms(1,4) that never] obtain e q p where "sh_threads (\<sigma> m) t = Calling e q p"
      by (cases "sh_threads (\<sigma> m) t") auto
    with waiting_enabled [OF a not_entered_free [OF a never [OF that]]] never [OF that] show ?thesis by blast
  qed
  then obtain m where "n \<le> m" "act m = Some (Tau t)"
    using assms(2) unfolding is_fair_def scheduled_def by blast
  with taken_later [OF assms(1,3), of m t] never [of m t] never [of "Suc m" t] show ?thesis by simp
qed

theorem every_call_returns:
  assumes "is_run (shared_step meth) \<sigma> act" "is_fair (shared_step meth) scheduled \<sigma> act" "\<sigma> 0 = shared_New"
    "sh_threads (\<sigma> n) t \<noteq> Idle" "is_strongly_fair (shared_step meth) scheduled \<sigma> act"
  shows "\<exists>m \<ge> n. \<exists>r. act m = Some (Return t r)"
proof (cases "\<exists>m \<ge> n. entered t (\<sigma> m)")
  case True
  then show ?thesis using entered_returns [OF assms(1-3)] by (meson order_trans)
next
  case False
  then have never: "\<not> entered t (\<sigma> m)" if "n \<le> m" for m using that by blast
  have "\<exists>m \<ge> k. can_step (shared_step meth) (Tau t) (\<sigma> m)" for k
  proof -
    from mutex_released [OF assms(1-3), of "max n k"] obtain m where m: "max n k \<le> m" "\<not> sh_mu (\<sigma> m)" by blast
    obtain a where a: "linearized meth (\<sigma> m) a" using run_linearized [OF assms(1,3)] by blast
    from m(1) waits_or_enters [OF assms(1,4) _ never, of m] obtain e q p where "sh_threads (\<sigma> m) t = Calling e q p"
      by (cases "sh_threads (\<sigma> m) t") auto
    with waiting_enabled [OF a m(2)] never [of m] m(1) show ?thesis by auto
  qed
  then obtain m where "n \<le> m" "act m = Some (Tau t)"
    using assms(5) unfolding is_strongly_fair_def scheduled_def by blast
  with taken_later [OF assms(1,3)] never [of m] never [of "Suc m"] show ?thesis by auto
qed

end

section \<open>The in-memory driver\<close>

interpretation mem_methods: guarded_methods prog_method mem_exec
  by unfold_locales (rule prog_method_guarded, rule prog_method_exec)

lemma mem_run_snoc:
  "mem_run s tr = Some s1 \<Longrightarrow> mem_exec e s1 q = (r, s2) \<Longrightarrow> mem_run s (tr @ [(e, q, r)]) = Some s2"
  by (induction tr arbitrary: s) (auto split: prod.splits if_splits)

lemma atomic_log:
  assumes "lts_run (atomic_step mem_exec) atomic_New tr a"
  shows "mem_run mem_New (at_log a) = Some (at_store a)"
  using assms
proof induction
  case (lts_next tr a l a')
  from lts_next.hyps(2) lts_next.IH show ?case by cases (auto intro: mem_run_snoc)
qed (simp add: atomic_New_def)

text \<open>
  C15: The in-memory driver is linearizable. However goroutines interleave, one map access at a time,
  what the callers see (their calls and the answers, in time order) is what they would see of an object
  whose methods take effect at once between call and return; the calls, put in the order of these
  moments, are a legal sequential use of the driver with the same answers; and whenever the mutex is
  free the maps hold what that sequential use leaves.
\<close>

theorem mem_linearizable:
  assumes "lts_run (shared_step prog_method) shared_New tr s"
  shows "\<exists>tr' a. lts_run (atomic_step mem_exec) atomic_New tr' a \<and> filter visible tr' = filter visible tr \<and>
    mem_run mem_New (at_log a) = Some (at_store a) \<and> (\<not> sh_mu s \<longrightarrow> sh_store s = at_store a)"
proof -
  obtain tr' a where "lts_run (atomic_step mem_exec) atomic_New tr' a" "filter visible tr' = filter visible tr"
    and a: "linearized prog_method s a" using mem_methods.linearizable [OF assms] by blast
  moreover have "\<not> sh_mu s \<longrightarrow> sh_store s = at_store a" using a by (auto simp: linearized_def)
  ultimately show ?thesis using atomic_log by blast
qed

text \<open>
  C16: The in-memory driver is free of data races and cannot get stuck. In every reachable state no two
  goroutines are about to access the same map with one of them writing, no goroutine is about to unlock
  a free mutex, and while any call is in progress some goroutine can go on.
\<close>

theorem mem_race_free:
  assumes "lts_run (shared_step prog_method) shared_New tr s"
  shows "\<not> data_race s \<and> \<not> unlock_fault s \<and>
    (\<forall>t. sh_threads s t \<noteq> Idle \<longrightarrow> (\<exists>l \<in> scheduled. can_step (shared_step prog_method) l s))"
proof -
  obtain a where a: "linearized prog_method s a" using mem_methods.linearizable [OF assms] by blast
  from mem_methods.linearized_no_race [OF a] mem_methods.linearized_no_fault [OF a] mem_methods.not_stuck [OF a]
  show ?thesis by blast
qed

text \<open>
  C17: Calls of the in-memory driver return. If the scheduler is weakly fair, a call that has got the
  mutex returns, and while there is any call in progress some call returns; if it is strongly fair
  (a goroutine that finds the mutex free again and again gets it), every call returns.
\<close>

theorem mem_calls_return:
  assumes "is_run (shared_step prog_method) \<sigma> act" "is_fair (shared_step prog_method) scheduled \<sigma> act"
    "\<sigma> 0 = shared_New" "sh_threads (\<sigma> n) t \<noteq> Idle"
  shows "(\<exists>m \<ge> n. \<exists>u r. act m = Some (Return u r)) \<and>
    (entered t (\<sigma> n) \<longrightarrow> (\<exists>m \<ge> n. \<exists>r. act m = Some (Return t r))) \<and>
    (is_strongly_fair (shared_step prog_method) scheduled \<sigma> act \<longrightarrow> (\<exists>m \<ge> n. \<exists>r. act m = Some (Return t r)))"
  using mem_methods.some_call_returns [OF assms] mem_methods.entered_returns [OF assms(1-3), of t n]
    mem_methods.every_call_returns [OF assms] by blast

section \<open>A run\<close>

text \<open>The step relation as a function.\<close>

fun shared_exec ::
  "('e \<Rightarrow> 'q \<Rightarrow> 'r mprog) \<Rightarrow> ('e, 'q, 'r) call_event \<Rightarrow> ('e, 'q, 'r) shared \<Rightarrow> ('e, 'q, 'r) shared option" where
  "shared_exec meth (Invoke t e q) s =
     (case sh_threads s t of
        Idle \<Rightarrow> Some (s\<lparr>sh_threads := (sh_threads s)(t := Calling e q (meth e q))\<rparr>)
      | Calling _ _ _ \<Rightarrow> None)"
| "shared_exec meth (Tau t) s =
     (case sh_threads s t of
        Idle \<Rightarrow> None
      | Calling e q p \<Rightarrow>
          (case prog_step p (sh_mu s) (sh_store s) of
             None \<Rightarrow> None
           | Some (p', mu', st') \<Rightarrow>
               Some \<lparr>sh_mu = mu', sh_store = st', sh_threads = (sh_threads s)(t := Calling e q p')\<rparr>))"
| "shared_exec meth (Return t r) s =
     (case sh_threads s t of
        Calling _ _ (Ret r') \<Rightarrow> if r' = r then Some (s\<lparr>sh_threads := (sh_threads s)(t := Idle)\<rparr>) else None
      | _ \<Rightarrow> None)"

lemma shared_exec_iff: "shared_step meth l s s' \<longleftrightarrow> shared_exec meth l s = Some s'"
proof
  show "shared_step meth l s s' \<Longrightarrow> shared_exec meth l s = Some s'"
    by (erule shared_stepE) auto
  show "shared_exec meth l s = Some s' \<Longrightarrow> shared_step meth l s s'"
    by (cases l) (auto split: goroutine.splits mprog.splits option.splits if_splits
        intro: shared_step.invoke shared_step.tau shared_step.return)
qed

primrec shared_after ::
  "('e \<Rightarrow> 'q \<Rightarrow> 'r mprog) \<Rightarrow> ('e, 'q, 'r) call_event list \<Rightarrow> ('e, 'q, 'r) shared \<Rightarrow> ('e, 'q, 'r) shared option" where
  "shared_after meth [] s = Some s"
| "shared_after meth (l # tr) s = Option.bind (shared_exec meth l s) (shared_after meth tr)"

lemma lts_run_Cons: "step l s s1 \<Longrightarrow> lts_run step s1 tr s2 \<Longrightarrow> lts_run step s (l # tr) s2"
  by (rotate_tac 1, induction rule: lts_run.induct)
    (use lts_run.lts_next [OF lts_run.lts_start] lts_run.lts_next [of step s "l # tr" for tr] in auto)

lemma shared_after_run: "shared_after meth tr s = Some s' \<Longrightarrow> lts_run (shared_step meth) s tr s'"
  by (induction tr arbitrary: s) (auto simp: bind_eq_Some_conv shared_exec_iff intro: lts_start lts_run_Cons)

text \<open>A finite run that goes on for ever without a further action.\<close>

definition run_states :: "('e \<Rightarrow> 'q \<Rightarrow> 'r mprog) \<Rightarrow> ('e, 'q, 'r) call_event list \<Rightarrow> nat \<Rightarrow> ('e, 'q, 'r) shared" where
  "run_states meth tr n = the (shared_after meth (take n tr) shared_New)"

definition run_actions :: "('e, 'q, 'r) call_event list \<Rightarrow> nat \<Rightarrow> ('e, 'q, 'r) call_event option" where
  "run_actions tr n = (if n < length tr then Some (tr ! n) else None)"

lemma shared_after_append:
  "shared_after meth (tr @ tr') s = Option.bind (shared_after meth tr s) (shared_after meth tr')"
  by (induction tr arbitrary: s) (simp_all split: Option.bind_split)

lemma run_states_run:
  assumes "shared_after meth tr shared_New = Some s'"
  shows "is_run (shared_step meth) (run_states meth tr) (run_actions tr)"
proof -
  have "shared_step meth (tr ! n) (run_states meth tr n) (run_states meth tr (Suc n))" if n: "n < length tr" for n
  proof -
    have "tr = take n tr @ tr ! n # drop (Suc n) tr" using n by (rule id_take_nth_drop)
    with assms have "shared_after meth (take n tr @ tr ! n # drop (Suc n) tr) shared_New = Some s'" by simp
    then obtain s1 s2 where "shared_after meth (take n tr) shared_New = Some s1" "shared_exec meth (tr ! n) s1 = Some s2"
      by (auto simp: shared_after_append bind_eq_Some_conv)
    then show ?thesis
      using n by (simp add: run_states_def take_Suc_conv_app_nth shared_after_append shared_exec_iff)
  qed
  then show ?thesis by (auto simp: is_run_def run_actions_def run_states_def split: option.splits)
qed

text \<open>When all calls have returned no action is left to be taken.\<close>

lemma run_states_fair:
  assumes "shared_after meth tr shared_New = Some s'" "\<And>t. sh_threads s' t = Idle"
  shows "is_fair (shared_step meth) scheduled (run_states meth tr) (run_actions tr)"
    and "is_strongly_fair (shared_step meth) scheduled (run_states meth tr) (run_actions tr)"
proof -
  have "\<not> can_step (shared_step meth) l s'" if "l \<in> scheduled" for l
    using that assms(2) by (auto simp: can_step_def scheduled_def elim!: shared_stepE)
  then have "\<not> can_step (shared_step meth) l (run_states meth tr m)" if "l \<in> scheduled" "length tr \<le> m" for l m
    using that assms(1) by (simp add: run_states_def)
  then show "is_fair (shared_step meth) scheduled (run_states meth tr) (run_actions tr)"
    "is_strongly_fair (shared_step meth) scheduled (run_states meth tr) (run_actions tr)"
    unfolding is_fair_def is_strongly_fair_def by (metis nat_le_linear, meson order_refl)
qed

text \<open>
  Two goroutines: the first creates a workspace, the second calls while the first holds the mutex,
  waits, and reads the workspace before the first has returned.
\<close>

definition shared_demo_begin :: "(mem_env, (Workspace, API, Key, bytes) request, (Workspace, API, Key) response) call_event list" where
  "shared_demo_begin =
     [Invoke 0 demo_env (QCreateWorkspace (demo_stored\<lparr>w_WorkspaceID := [], w_CreatedAt := zero_time, w_UpdatedAt := zero_time\<rparr>)),
      Tau 0, Invoke 1 demo_env (QGetWorkspace ''ws_u''), Tau 0]"

definition shared_demo :: "(mem_env, (Workspace, API, Key, bytes) request, (Workspace, API, Key) response) call_event list" where
  "shared_demo = shared_demo_begin @
     [Tau 0, Tau 1, Tau 1, Tau 1, Return 1 (AWorkspace demo_stored), Return 0 (AWorkspace demo_stored)]"

lemma shared_demo_ends:
  "\<exists>s. shared_after prog_method shared_demo_begin shared_New = Some s \<and> sh_mu s \<and> sh_threads s 0 \<noteq> Idle \<and> sh_threads s 1 \<noteq> Idle"
  "\<exists>s. shared_after prog_method shared_demo shared_New = Some s \<and> \<not> sh_mu s \<and> (\<forall>t. sh_threads s t = Idle)"
  by (simp_all add: shared_demo_def shared_demo_begin_def shared_New_def prog_CreateWorkspace_def prog_GetWorkspace_def
      locked_def Let_def demo_env_def demo_stored_def mem_New_def newID_def)

theorem mem_linearizable_witness:
  "\<exists>tr' a. lts_run (atomic_step mem_exec) atomic_New tr' a \<and> filter visible tr' = filter visible shared_demo \<and>
     mem_run mem_New (at_log a) = Some (at_store a)"
  using shared_demo_ends(2) mem_linearizable [OF shared_after_run] by blast

theorem mem_race_free_witness:
  "\<exists>s. shared_after prog_method shared_demo_begin shared_New = Some s \<and> sh_threads s 0 \<noteq> Idle \<and> sh_threads s 1 \<noteq> Idle \<and>
     \<not> data_race s \<and> (\<exists>l \<in> scheduled. can_step (shared_step prog_method) l s)"
  using shared_demo_ends(1) mem_race_free [OF shared_after_run] by blast

theorem mem_calls_return_witness:
  "\<exists>m \<ge> 3. \<exists>r. run_actions shared_demo m = Some (Return 1 r)"
proof -
  obtain s where s: "shared_after prog_method shared_demo shared_New = Some s" "\<And>t. sh_threads s t = Idle"
    using shared_demo_ends(2) by blast
  have "sh_threads (run_states prog_method shared_demo 3) 1 \<noteq> Idle" "run_states prog_method shared_demo 0 = shared_New"
    by (simp_all add: run_states_def shared_demo_def shared_demo_begin_def shared_New_def prog_CreateWorkspace_def
        locked_def Let_def)
  with mem_calls_return [OF run_states_run [OF s(1)] run_states_fair(1) [OF s], of 3 1] run_states_fair(2) [OF s]
  show ?thesis by blast
qed

end
