(* ===== verification/KC_Grpc.thy ===== *)
theory KC_Grpc
  imports KC_MemoryService
begin

text \<open>
  Package \<open>gen/apikey/v1\<close>, file \<open>apikey_grpc.pb.go\<close>: the generated client stubs, server handlers and the
  service description that joins them by method names.

  The gRPC library and the protobuf codec are not part of the sources. A connection is a parameter
  \<open>cc_Invoke\<close>; \<open>transport_ok\<close> is what is relied on: a call whose path names a registered method runs that
  method's handler on the message as the peer decodes it, or fails, before or after the handler ran.
  The handler runs without an interceptor, since the command's server installs none; of a path
  that nobody registered nothing is assumed. The codec is a function \<open>cd\<close> from a message
  to what the peer decodes; \<open>codec_ok\<close> says that it keeps the type of the message.

  The stubs are shown to reach the handler of the same name, so every property of the handlers is one
  of the calls of a client.
\<close>

section \<open>Messages\<close>

text \<open>An \<open>interface{}\<close> that holds a message of the service, and the message types.\<close>

datatype msg_type =
    T_CreateWorkspaceRequest | T_CreateWorkspaceResponse
  | T_GetWorkspaceRequest | T_GetWorkspaceResponse
  | T_CreateApiRequest | T_CreateApiResponse
  | T_GetApiRequest | T_GetApiResponse
  | T_CreateKeyRequest | T_CreateKeyResponse
  | T_RevokeKeyRequest | T_RevokeKeyResponse
  | T_RotateKeyRequest | T_RotateKeyResponse
  | T_ListKeysRequest | T_ListKeysResponse
  | T_GetKeyRequest | T_GetKeyResponse
  | T_VerifyKeyRequest | T_VerifyKeyResponse

datatype 'ts message =
    M_CreateWorkspaceRequest PB_CreateWorkspaceRequest
  | M_CreateWorkspaceResponse "'ts PB_CreateWorkspaceResponse"
  | M_GetWorkspaceRequest PB_GetWorkspaceRequest
  | M_GetWorkspaceResponse "'ts PB_GetWorkspaceResponse"
  | M_CreateApiRequest PB_CreateApiRequest
  | M_CreateApiResponse "'ts PB_CreateApiResponse"
  | M_GetApiRequest PB_GetApiRequest
  | M_GetApiResponse "'ts PB_GetApiResponse"
  | M_CreateKeyRequest "'ts PB_CreateKeyRequest"
  | M_CreateKeyResponse "'ts PB_CreateKeyResponse"
  | M_RevokeKeyRequest PB_RevokeKeyRequest
  | M_RevokeKeyResponse PB_RevokeKeyResponse
  | M_RotateKeyRequest PB_RotateKeyRequest
  | M_RotateKeyResponse "'ts PB_RotateKeyResponse"
  | M_ListKeysRequest PB_ListKeysRequest
  | M_ListKeysResponse "'ts PB_ListKeysResponse"
  | M_GetKeyRequest PB_GetKeyRequest
  | M_GetKeyResponse "'ts PB_GetKeyResponse"
  | M_VerifyKeyRequest PB_VerifyKeyRequest
  | M_VerifyKeyResponse PB_VerifyKeyResponse

fun type_of :: "'ts message \<Rightarrow> msg_type" where
  "type_of (M_CreateWorkspaceRequest m) = T_CreateWorkspaceRequest"
| "type_of (M_CreateWorkspaceResponse m) = T_CreateWorkspaceResponse"
| "type_of (M_GetWorkspaceRequest m) = T_GetWorkspaceRequest"
| "type_of (M_GetWorkspaceResponse m) = T_GetWorkspaceResponse"
| "type_of (M_CreateApiRequest m) = T_CreateApiRequest"
| "type_of (M_CreateApiResponse m) = T_CreateApiResponse"
| "type_of (M_GetApiRequest m) = T_GetApiRequest"
| "type_of (M_GetApiResponse m) = T_GetApiResponse"
| "type_of (M_CreateKeyRequest m) = T_CreateKeyRequest"
| "type_of (M_CreateKeyResponse m) = T_CreateKeyResponse"
| "type_of (M_RevokeKeyRequest m) = T_RevokeKeyRequest"
| "type_of (M_RevokeKeyResponse m) = T_RevokeKeyResponse"
| "type_of (M_RotateKeyRequest m) = T_RotateKeyRequest"
| "type_of (M_RotateKeyResponse m) = T_RotateKeyResponse"
| "type_of (M_ListKeysRequest m) = T_ListKeysRequest"
| "type_of (M_ListKeysResponse m) = T_ListKeysResponse"
| "type_of (M_GetKeyRequest m) = T_GetKeyRequest"
| "type_of (M_GetKeyResponse m) = T_GetKeyResponse"
| "type_of (M_VerifyKeyRequest m) = T_VerifyKeyRequest"
| "type_of (M_VerifyKeyResponse m) = T_VerifyKeyResponse"

section \<open>The service interface\<close>

text \<open>
  The interface as a record of methods. A method takes the context of the call, the state of the
  server and the request (a pointer), and returns a response or a status, and the new state.
\<close>

type_synonym ('c, 'st, 'q, 'p) rpc_method = "'c \<Rightarrow> 'st \<Rightarrow> 'q option \<Rightarrow> (grpc_status + 'p) \<times> 'st"

record ('ts, 'c, 'st) ApiKeyServiceServer =
  sv_CreateWorkspace :: "('c, 'st, PB_CreateWorkspaceRequest, 'ts PB_CreateWorkspaceResponse) rpc_method"
  sv_GetWorkspace :: "('c, 'st, PB_GetWorkspaceRequest, 'ts PB_GetWorkspaceResponse) rpc_method"
  sv_CreateApi :: "('c, 'st, PB_CreateApiRequest, 'ts PB_CreateApiResponse) rpc_method"
  sv_GetApi :: "('c, 'st, PB_GetApiRequest, 'ts PB_GetApiResponse) rpc_method"
  sv_CreateKey :: "('c, 'st, 'ts PB_CreateKeyRequest, 'ts PB_CreateKeyResponse) rpc_method"
  sv_RevokeKey :: "('c, 'st, PB_RevokeKeyRequest, PB_RevokeKeyResponse) rpc_method"
  sv_RotateKey :: "('c, 'st, PB_RotateKeyRequest, 'ts PB_RotateKeyResponse) rpc_method"
  sv_ListKeys :: "('c, 'st, PB_ListKeysRequest, 'ts PB_ListKeysResponse) rpc_method"
  sv_GetKey :: "('c, 'st, PB_GetKeyRequest, 'ts PB_GetKeyResponse) rpc_method"
  sv_VerifyKey :: "('c, 'st, PB_VerifyKeyRequest, PB_VerifyKeyResponse) rpc_method"

definition unimplemented :: "string \<Rightarrow> ('c, 'st, 'q, 'p) rpc_method" where
  "unimplemented msg ctx st req = (Inl (Status Unimplemented (Msg msg)), st)"

definition UnimplementedApiKeyServiceServer :: "('ts, 'c, 'st) ApiKeyServiceServer" where
  "UnimplementedApiKeyServiceServer = \<lparr>
     sv_CreateWorkspace = unimplemented ''method CreateWorkspace not implemented'',
     sv_GetWorkspace = unimplemented ''method GetWorkspace not implemented'',
     sv_CreateApi = unimplemented ''method CreateApi not implemented'',
     sv_GetApi = unimplemented ''method GetApi not implemented'',
     sv_CreateKey = unimplemented ''method CreateKey not implemented'',
     sv_RevokeKey = unimplemented ''method RevokeKey not implemented'',
     sv_RotateKey = unimplemented ''method RotateKey not implemented'',
     sv_ListKeys = unimplemented ''method ListKeys not implemented'',
     sv_GetKey = unimplemented ''method GetKey not implemented'',
     sv_VerifyKey = unimplemented ''method VerifyKey not implemented''\<rparr>"

text \<open>
  The server of package \<open>keychainserver\<close>: it embeds \<open>UnimplementedApiKeyServiceServer\<close> and defines each
  method itself. Its state is that of the store and of the limiter.
\<close>

definition lift_limiter :: "('c \<Rightarrow> 's \<Rightarrow> 'q option \<Rightarrow> (grpc_status + 'p) \<times> 's) \<Rightarrow> ('c, 's \<times> 'r, 'q, 'p) rpc_method" where
  "lift_limiter f ctx st req = (case f ctx (fst st) req of (res, s') \<Rightarrow> (res, (s', snd st)))"

definition keychain_server :: "'ts libs \<Rightarrow> ('e, 's, 'r) Server \<Rightarrow> ('ts, 'e call, 's \<times> 'r) ApiKeyServiceServer" where
  "keychain_server L srv = UnimplementedApiKeyServiceServer\<lparr>
     sv_CreateWorkspace := lift_limiter (Server_CreateWorkspace L srv),
     sv_GetWorkspace := lift_limiter (Server_GetWorkspace L srv),
     sv_CreateApi := lift_limiter (Server_CreateApi L srv),
     sv_GetApi := lift_limiter (Server_GetApi L srv),
     sv_CreateKey := lift_limiter (Server_CreateKey L srv),
     sv_RevokeKey := lift_limiter (Server_RevokeKey srv),
     sv_RotateKey := lift_limiter (Server_RotateKey L srv),
     sv_ListKeys := lift_limiter (Server_ListKeys L srv),
     sv_GetKey := lift_limiter (Server_GetKey L srv),
     sv_VerifyKey := (\<lambda>ctx st req. Server_VerifyKey L srv ctx (fst st) (snd st) req)\<rparr>"

section \<open>Method names\<close>

definition ApiKeyService_CreateWorkspace_FullMethodName :: string where
  "ApiKeyService_CreateWorkspace_FullMethodName = ''/apikey.v1.ApiKeyService/CreateWorkspace''"

definition ApiKeyService_GetWorkspace_FullMethodName :: string where
  "ApiKeyService_GetWorkspace_FullMethodName = ''/apikey.v1.ApiKeyService/GetWorkspace''"

definition ApiKeyService_CreateApi_FullMethodName :: string where
  "ApiKeyService_CreateApi_FullMethodName = ''/apikey.v1.ApiKeyService/CreateApi''"

definition ApiKeyService_GetApi_FullMethodName :: string where
  "ApiKeyService_GetApi_FullMethodName = ''/apikey.v1.ApiKeyService/GetApi''"

definition ApiKeyService_CreateKey_FullMethodName :: string where
  "ApiKeyService_CreateKey_FullMethodName = ''/apikey.v1.ApiKeyService/CreateKey''"

definition ApiKeyService_RevokeKey_FullMethodName :: string where
  "ApiKeyService_RevokeKey_FullMethodName = ''/apikey.v1.ApiKeyService/RevokeKey''"

definition ApiKeyService_RotateKey_FullMethodName :: string where
  "ApiKeyService_RotateKey_FullMethodName = ''/apikey.v1.ApiKeyService/RotateKey''"

definition ApiKeyService_ListKeys_FullMethodName :: string where
  "ApiKeyService_ListKeys_FullMethodName = ''/apikey.v1.ApiKeyService/ListKeys''"

definition ApiKeyService_GetKey_FullMethodName :: string where
  "ApiKeyService_GetKey_FullMethodName = ''/apikey.v1.ApiKeyService/GetKey''"

definition ApiKeyService_VerifyKey_FullMethodName :: string where
  "ApiKeyService_VerifyKey_FullMethodName = ''/apikey.v1.ApiKeyService/VerifyKey''"

lemmas FullMethodName_defs = ApiKeyService_CreateWorkspace_FullMethodName_def
  ApiKeyService_GetWorkspace_FullMethodName_def
  ApiKeyService_CreateApi_FullMethodName_def
  ApiKeyService_GetApi_FullMethodName_def
  ApiKeyService_CreateKey_FullMethodName_def
  ApiKeyService_RevokeKey_FullMethodName_def
  ApiKeyService_RotateKey_FullMethodName_def
  ApiKeyService_ListKeys_FullMethodName_def
  ApiKeyService_GetKey_FullMethodName_def
  ApiKeyService_VerifyKey_FullMethodName_def

section \<open>Server handlers\<close>

text \<open>
  What a handler returns; \<open>None\<close> is a panic, which a type assertion on a message of another type is.
  \<open>dec T\<close> is \<open>dec(in)\<close> for \<open>in := new(T)\<close>: an error, or the message now held by \<open>in\<close>.
\<close>

type_synonym ('ts, 'st) served = "((grpc_status + 'ts message) \<times> 'st) option"
type_synonym 'ts decoder = "msg_type \<Rightarrow> grpc_status + 'ts message"
type_synonym ('ts, 'c, 'st) unary_handler = "'c \<Rightarrow> 'st \<Rightarrow> 'ts message \<Rightarrow> ('ts, 'st) served"
type_synonym ('ts, 'c, 'st) interceptor =
  "'c \<Rightarrow> 'st \<Rightarrow> 'ts message \<Rightarrow> string \<Rightarrow> ('ts, 'c, 'st) unary_handler \<Rightarrow> ('ts, 'st) served"
type_synonym ('ts, 'c, 'st) method_handler =
  "('ts, 'c, 'st) ApiKeyServiceServer \<Rightarrow> 'c \<Rightarrow> 'st \<Rightarrow> 'ts decoder \<Rightarrow> ('ts, 'c, 'st) interceptor option \<Rightarrow> ('ts, 'st) served"

text \<open>The code all generated handlers share, over the type of the request and the call of the method.\<close>

definition handle_unary ::
  "msg_type \<Rightarrow> string \<Rightarrow> ('ts, 'c, 'st) unary_handler \<Rightarrow> 'c \<Rightarrow> 'st \<Rightarrow> 'ts decoder \<Rightarrow>
   ('ts, 'c, 'st) interceptor option \<Rightarrow> ('ts, 'st) served" where
  "handle_unary T fullMethod handler ctx st dec icpt =
     (case dec T of
        Inl err \<Rightarrow> Some (Inl err, st)
      | Inr m \<Rightarrow> (case icpt of None \<Rightarrow> handler ctx st m | Some f \<Rightarrow> f ctx st m fullMethod handler))"

definition reply :: "('p \<Rightarrow> 'ts message) \<Rightarrow> (grpc_status + 'p) \<times> 'st \<Rightarrow> ('ts, 'st) served" where
  "reply f res = Some (map_prod (map_sum id f) id res)"

definition ApiKeyService_CreateWorkspace_Handler :: "('ts, 'c, 'st) method_handler" where
  "ApiKeyService_CreateWorkspace_Handler srv = handle_unary T_CreateWorkspaceRequest ApiKeyService_CreateWorkspace_FullMethodName
     (\<lambda>ctx st req. case req of M_CreateWorkspaceRequest q \<Rightarrow> reply M_CreateWorkspaceResponse (sv_CreateWorkspace srv ctx st (Some q)) | _ \<Rightarrow> None)"

definition ApiKeyService_GetWorkspace_Handler :: "('ts, 'c, 'st) method_handler" where
  "ApiKeyService_GetWorkspace_Handler srv = handle_unary T_GetWorkspaceRequest ApiKeyService_GetWorkspace_FullMethodName
     (\<lambda>ctx st req. case req of M_GetWorkspaceRequest q \<Rightarrow> reply M_GetWorkspaceResponse (sv_GetWorkspace srv ctx st (Some q)) | _ \<Rightarrow> None)"

definition ApiKeyService_CreateApi_Handler :: "('ts, 'c, 'st) method_handler" where
  "ApiKeyService_CreateApi_Handler srv = handle_unary T_CreateApiRequest ApiKeyService_CreateApi_FullMethodName
     (\<lambda>ctx st req. case req of M_CreateApiRequest q \<Rightarrow> reply M_CreateApiResponse (sv_CreateApi srv ctx st (Some q)) | _ \<Rightarrow> None)"

definition ApiKeyService_GetApi_Handler :: "('ts, 'c, 'st) method_handler" where
  "ApiKeyService_GetApi_Handler srv = handle_unary T_GetApiRequest ApiKeyService_GetApi_FullMethodName
     (\<lambda>ctx st req. case req of M_GetApiRequest q \<Rightarrow> reply M_GetApiResponse (sv_GetApi srv ctx st (Some q)) | _ \<Rightarrow> None)"

definition ApiKeyService_CreateKey_Handler :: "('ts, 'c, 'st) method_handler" where
  "ApiKeyService_CreateKey_Handler srv = handle_unary T_CreateKeyRequest ApiKeyService_CreateKey_FullMethodName
     (\<lambda>ctx st req. case req of M_CreateKeyRequest q \<Rightarrow> reply M_CreateKeyResponse (sv_CreateKey srv ctx st (Some q)) | _ \<Rightarrow> None)"

definition ApiKeyService_RevokeKey_Handler :: "('ts, 'c, 'st) method_handler" where
  "ApiKeyService_RevokeKey_Handler srv = handle_unary T_RevokeKeyRequest ApiKeyService_RevokeKey_FullMethodName
     (\<lambda>ctx st req. case req of M_RevokeKeyRequest q \<Rightarrow> reply M_RevokeKeyResponse (sv_RevokeKey srv ctx st (Some q)) | _ \<Rightarrow> None)"

definition ApiKeyService_RotateKey_Handler :: "('ts, 'c, 'st) method_handler" where
  "ApiKeyService_RotateKey_Handler srv = handle_unary T_RotateKeyRequest ApiKeyService_RotateKey_FullMethodName
     (\<lambda>ctx st req. case req of M_RotateKeyRequest q \<Rightarrow> reply M_RotateKeyResponse (sv_RotateKey srv ctx st (Some q)) | _ \<Rightarrow> None)"

definition ApiKeyService_ListKeys_Handler :: "('ts, 'c, 'st) method_handler" where
  "ApiKeyService_ListKeys_Handler srv = handle_unary T_ListKeysRequest ApiKeyService_ListKeys_FullMethodName
     (\<lambda>ctx st req. case req of M_ListKeysRequest q \<Rightarrow> reply M_ListKeysResponse (sv_ListKeys srv ctx st (Some q)) | _ \<Rightarrow> None)"

definition ApiKeyService_GetKey_Handler :: "('ts, 'c, 'st) method_handler" where
  "ApiKeyService_GetKey_Handler srv = handle_unary T_GetKeyRequest ApiKeyService_GetKey_FullMethodName
     (\<lambda>ctx st req. case req of M_GetKeyRequest q \<Rightarrow> reply M_GetKeyResponse (sv_GetKey srv ctx st (Some q)) | _ \<Rightarrow> None)"

definition ApiKeyService_VerifyKey_Handler :: "('ts, 'c, 'st) method_handler" where
  "ApiKeyService_VerifyKey_Handler srv = handle_unary T_VerifyKeyRequest ApiKeyService_VerifyKey_FullMethodName
     (\<lambda>ctx st req. case req of M_VerifyKeyRequest q \<Rightarrow> reply M_VerifyKeyResponse (sv_VerifyKey srv ctx st (Some q)) | _ \<Rightarrow> None)"

section \<open>The service description\<close>

record ('ts, 'c, 'st) ServiceDesc =
  sd_ServiceName :: string
  sd_Methods :: "(string \<times> ('ts, 'c, 'st) method_handler) list"

definition ApiKeyService_ServiceDesc :: "('ts, 'c, 'st) ServiceDesc" where
  "ApiKeyService_ServiceDesc = \<lparr>sd_ServiceName = ''apikey.v1.ApiKeyService'',
     sd_Methods = [
       (''CreateWorkspace'', ApiKeyService_CreateWorkspace_Handler),
       (''GetWorkspace'', ApiKeyService_GetWorkspace_Handler),
       (''CreateApi'', ApiKeyService_CreateApi_Handler),
       (''GetApi'', ApiKeyService_GetApi_Handler),
       (''CreateKey'', ApiKeyService_CreateKey_Handler),
       (''RevokeKey'', ApiKeyService_RevokeKey_Handler),
       (''RotateKey'', ApiKeyService_RotateKey_Handler),
       (''ListKeys'', ApiKeyService_ListKeys_Handler),
       (''GetKey'', ApiKeyService_GetKey_Handler),
       (''VerifyKey'', ApiKeyService_VerifyKey_Handler)]\<rparr>"

text \<open>
  The services registered with a gRPC server, by name; \<open>RegisterService\<close> enters a description with its
  implementation.
\<close>

type_synonym ('ts, 'c, 'st) registry =
  "string \<rightharpoonup> ('ts, 'c, 'st) ServiceDesc \<times> ('ts, 'c, 'st) ApiKeyServiceServer"

definition RegisterApiKeyServiceServer ::
  "('ts, 'c, 'st) registry \<Rightarrow> ('ts, 'c, 'st) ApiKeyServiceServer \<Rightarrow> ('ts, 'c, 'st) registry" where
  "RegisterApiKeyServiceServer reg srv =
     (let desc = ApiKeyService_ServiceDesc in reg(sd_ServiceName desc \<mapsto> (desc, srv)))"

section \<open>Client stubs\<close>

text \<open>
  A connection: \<open>Invoke\<close> with the context, the path, the request and the type of the response to fill in.
\<close>

record ('ts, 'c, 'st) ClientConn =
  cc_Invoke :: "'c \<Rightarrow> 'st \<Rightarrow> string \<Rightarrow> 'ts message \<Rightarrow> msg_type \<Rightarrow> ('ts, 'st) served"

definition apiKeyServiceClient_CreateWorkspace ::
  "('ts, 'c, 'st) ClientConn \<Rightarrow> 'c \<Rightarrow> 'st \<Rightarrow> PB_CreateWorkspaceRequest \<Rightarrow> ((grpc_status + 'ts PB_CreateWorkspaceResponse) \<times> 'st) option" where
  "apiKeyServiceClient_CreateWorkspace cc ctx st inp =
     (case cc_Invoke cc ctx st ApiKeyService_CreateWorkspace_FullMethodName (M_CreateWorkspaceRequest inp) T_CreateWorkspaceResponse of
        Some (Inl err, st') \<Rightarrow> Some (Inl err, st')
      | Some (Inr (M_CreateWorkspaceResponse out), st') \<Rightarrow> Some (Inr out, st')
      | _ \<Rightarrow> None)"

definition apiKeyServiceClient_GetWorkspace ::
  "('ts, 'c, 'st) ClientConn \<Rightarrow> 'c \<Rightarrow> 'st \<Rightarrow> PB_GetWorkspaceRequest \<Rightarrow> ((grpc_status + 'ts PB_GetWorkspaceResponse) \<times> 'st) option" where
  "apiKeyServiceClient_GetWorkspace cc ctx st inp =
     (case cc_Invoke cc ctx st ApiKeyService_GetWorkspace_FullMethodName (M_GetWorkspaceRequest inp) T_GetWorkspaceResponse of
        Some (Inl err, st') \<Rightarrow> Some (Inl err, st')
      | Some (Inr (M_GetWorkspaceResponse out), st') \<Rightarrow> Some (Inr out, st')
      | _ \<Rightarrow> None)"

definition apiKeyServiceClient_CreateApi ::
  "('ts, 'c, 'st) ClientConn \<Rightarrow> 'c \<Rightarrow> 'st \<Rightarrow> PB_CreateApiRequest \<Rightarrow> ((grpc_status + 'ts PB_CreateApiResponse) \<times> 'st) option" where
  "apiKeyServiceClient_CreateApi cc ctx st inp =
     (case cc_Invoke cc ctx st ApiKeyService_CreateApi_FullMethodName (M_CreateApiRequest inp) T_CreateApiResponse of
        Some (Inl err, st') \<Rightarrow> Some (Inl err, st')
      | Some (Inr (M_CreateApiResponse out), st') \<Rightarrow> Some (Inr out, st')
      | _ \<Rightarrow> None)"

definition apiKeyServiceClient_GetApi ::
  "('ts, 'c, 'st) ClientConn \<Rightarrow> 'c \<Rightarrow> 'st \<Rightarrow> PB_GetApiRequest \<Rightarrow> ((grpc_status + 'ts PB_GetApiResponse) \<times> 'st) option" where
  "apiKeyServiceClient_GetApi cc ctx st inp =
     (case cc_Invoke cc ctx st ApiKeyService_GetApi_FullMethodName (M_GetApiRequest inp) T_GetApiResponse of
        Some (Inl err, st') \<Rightarrow> Some (Inl err, st')
      | Some (Inr (M_GetApiResponse out), st') \<Rightarrow> Some (Inr out, st')
      | _ \<Rightarrow> None)"

definition apiKeyServiceClient_CreateKey ::
  "('ts, 'c, 'st) ClientConn \<Rightarrow> 'c \<Rightarrow> 'st \<Rightarrow> 'ts PB_CreateKeyRequest \<Rightarrow> ((grpc_status + 'ts PB_CreateKeyResponse) \<times> 'st) option" where
  "apiKeyServiceClient_CreateKey cc ctx st inp =
     (case cc_Invoke cc ctx st ApiKeyService_CreateKey_FullMethodName (M_CreateKeyRequest inp) T_CreateKeyResponse of
        Some (Inl err, st') \<Rightarrow> Some (Inl err, st')
      | Some (Inr (M_CreateKeyResponse out), st') \<Rightarrow> Some (Inr out, st')
      | _ \<Rightarrow> None)"

definition apiKeyServiceClient_RevokeKey ::
  "('ts, 'c, 'st) ClientConn \<Rightarrow> 'c \<Rightarrow> 'st \<Rightarrow> PB_RevokeKeyRequest \<Rightarrow> ((grpc_status + PB_RevokeKeyResponse) \<times> 'st) option" where
  "apiKeyServiceClient_RevokeKey cc ctx st inp =
     (case cc_Invoke cc ctx st ApiKeyService_RevokeKey_FullMethodName (M_RevokeKeyRequest inp) T_RevokeKeyResponse of
        Some (Inl err, st') \<Rightarrow> Some (Inl err, st')
      | Some (Inr (M_RevokeKeyResponse out), st') \<Rightarrow> Some (Inr out, st')
      | _ \<Rightarrow> None)"

definition apiKeyServiceClient_RotateKey ::
  "('ts, 'c, 'st) ClientConn \<Rightarrow> 'c \<Rightarrow> 'st \<Rightarrow> PB_RotateKeyRequest \<Rightarrow> ((grpc_status + 'ts PB_RotateKeyResponse) \<times> 'st) option" where
  "apiKeyServiceClient_RotateKey cc ctx st inp =
     (case cc_Invoke cc ctx st ApiKeyService_RotateKey_FullMethodName (M_RotateKeyRequest inp) T_RotateKeyResponse of
        Some (Inl err, st') \<Rightarrow> Some (Inl err, st')
      | Some (Inr (M_RotateKeyResponse out), st') \<Rightarrow> Some (Inr out, st')
      | _ \<Rightarrow> None)"

definition apiKeyServiceClient_ListKeys ::
  "('ts, 'c, 'st) ClientConn \<Rightarrow> 'c \<Rightarrow> 'st \<Rightarrow> PB_ListKeysRequest \<Rightarrow> ((grpc_status + 'ts PB_ListKeysResponse) \<times> 'st) option" where
  "apiKeyServiceClient_ListKeys cc ctx st inp =
     (case cc_Invoke cc ctx st ApiKeyService_ListKeys_FullMethodName (M_ListKeysRequest inp) T_ListKeysResponse of
        Some (Inl err, st') \<Rightarrow> Some (Inl err, st')
      | Some (Inr (M_ListKeysResponse out), st') \<Rightarrow> Some (Inr out, st')
      | _ \<Rightarrow> None)"

definition apiKeyServiceClient_GetKey ::
  "('ts, 'c, 'st) ClientConn \<Rightarrow> 'c \<Rightarrow> 'st \<Rightarrow> PB_GetKeyRequest \<Rightarrow> ((grpc_status + 'ts PB_GetKeyResponse) \<times> 'st) option" where
  "apiKeyServiceClient_GetKey cc ctx st inp =
     (case cc_Invoke cc ctx st ApiKeyService_GetKey_FullMethodName (M_GetKeyRequest inp) T_GetKeyResponse of
        Some (Inl err, st') \<Rightarrow> Some (Inl err, st')
      | Some (Inr (M_GetKeyResponse out), st') \<Rightarrow> Some (Inr out, st')
      | _ \<Rightarrow> None)"

definition apiKeyServiceClient_VerifyKey ::
  "('ts, 'c, 'st) ClientConn \<Rightarrow> 'c \<Rightarrow> 'st \<Rightarrow> PB_VerifyKeyRequest \<Rightarrow> ((grpc_status + PB_VerifyKeyResponse) \<times> 'st) option" where
  "apiKeyServiceClient_VerifyKey cc ctx st inp =
     (case cc_Invoke cc ctx st ApiKeyService_VerifyKey_FullMethodName (M_VerifyKeyRequest inp) T_VerifyKeyResponse of
        Some (Inl err, st') \<Rightarrow> Some (Inl err, st')
      | Some (Inr (M_VerifyKeyResponse out), st') \<Rightarrow> Some (Inr out, st')
      | _ \<Rightarrow> None)"

section \<open>Calls by message\<close>

text \<open>The ten stubs as one function on messages, and the ten methods of a server.\<close>

fun client_stub :: "('ts, 'c, 'st) ClientConn \<Rightarrow> 'c \<Rightarrow> 'st \<Rightarrow> 'ts message \<Rightarrow> ('ts, 'st) served" where
  "client_stub cc ctx st (M_CreateWorkspaceRequest q) =
     map_option (map_prod (map_sum id M_CreateWorkspaceResponse) id) (apiKeyServiceClient_CreateWorkspace cc ctx st q)"
| "client_stub cc ctx st (M_GetWorkspaceRequest q) =
     map_option (map_prod (map_sum id M_GetWorkspaceResponse) id) (apiKeyServiceClient_GetWorkspace cc ctx st q)"
| "client_stub cc ctx st (M_CreateApiRequest q) =
     map_option (map_prod (map_sum id M_CreateApiResponse) id) (apiKeyServiceClient_CreateApi cc ctx st q)"
| "client_stub cc ctx st (M_GetApiRequest q) =
     map_option (map_prod (map_sum id M_GetApiResponse) id) (apiKeyServiceClient_GetApi cc ctx st q)"
| "client_stub cc ctx st (M_CreateKeyRequest q) =
     map_option (map_prod (map_sum id M_CreateKeyResponse) id) (apiKeyServiceClient_CreateKey cc ctx st q)"
| "client_stub cc ctx st (M_RevokeKeyRequest q) =
     map_option (map_prod (map_sum id M_RevokeKeyResponse) id) (apiKeyServiceClient_RevokeKey cc ctx st q)"
| "client_stub cc ctx st (M_RotateKeyRequest q) =
     map_option (map_prod (map_sum id M_RotateKeyResponse) id) (apiKeyServiceClient_RotateKey cc ctx st q)"
| "client_stub cc ctx st (M_ListKeysRequest q) =
     map_option (map_prod (map_sum id M_ListKeysResponse) id) (apiKeyServiceClient_ListKeys cc ctx st q)"
| "client_stub cc ctx st (M_GetKeyRequest q) =
     map_option (map_prod (map_sum id M_GetKeyResponse) id) (apiKeyServiceClient_GetKey cc ctx st q)"
| "client_stub cc ctx st (M_VerifyKeyRequest q) =
     map_option (map_prod (map_sum id M_VerifyKeyResponse) id) (apiKeyServiceClient_VerifyKey cc ctx st q)"
| "client_stub cc ctx st m = None"

fun server_method :: "('ts, 'c, 'st) ApiKeyServiceServer \<Rightarrow> 'c \<Rightarrow> 'st \<Rightarrow> 'ts message \<Rightarrow> ('ts, 'st) served" where
  "server_method srv ctx st (M_CreateWorkspaceRequest q) = reply M_CreateWorkspaceResponse (sv_CreateWorkspace srv ctx st (Some q))"
| "server_method srv ctx st (M_GetWorkspaceRequest q) = reply M_GetWorkspaceResponse (sv_GetWorkspace srv ctx st (Some q))"
| "server_method srv ctx st (M_CreateApiRequest q) = reply M_CreateApiResponse (sv_CreateApi srv ctx st (Some q))"
| "server_method srv ctx st (M_GetApiRequest q) = reply M_GetApiResponse (sv_GetApi srv ctx st (Some q))"
| "server_method srv ctx st (M_CreateKeyRequest q) = reply M_CreateKeyResponse (sv_CreateKey srv ctx st (Some q))"
| "server_method srv ctx st (M_RevokeKeyRequest q) = reply M_RevokeKeyResponse (sv_RevokeKey srv ctx st (Some q))"
| "server_method srv ctx st (M_RotateKeyRequest q) = reply M_RotateKeyResponse (sv_RotateKey srv ctx st (Some q))"
| "server_method srv ctx st (M_ListKeysRequest q) = reply M_ListKeysResponse (sv_ListKeys srv ctx st (Some q))"
| "server_method srv ctx st (M_GetKeyRequest q) = reply M_GetKeyResponse (sv_GetKey srv ctx st (Some q))"
| "server_method srv ctx st (M_VerifyKeyRequest q) = reply M_VerifyKeyResponse (sv_VerifyKey srv ctx st (Some q))"
| "server_method srv ctx st m = None"

fun is_request :: "'ts message \<Rightarrow> bool" where
  "is_request (M_CreateWorkspaceRequest q) = True"
| "is_request (M_GetWorkspaceRequest q) = True"
| "is_request (M_CreateApiRequest q) = True"
| "is_request (M_GetApiRequest q) = True"
| "is_request (M_CreateKeyRequest q) = True"
| "is_request (M_RevokeKeyRequest q) = True"
| "is_request (M_RotateKeyRequest q) = True"
| "is_request (M_ListKeysRequest q) = True"
| "is_request (M_GetKeyRequest q) = True"
| "is_request (M_VerifyKeyRequest q) = True"
| "is_request m = False"

section \<open>The transport\<close>

definition codec_ok :: "('ts message \<Rightarrow> 'ts message) \<Rightarrow> bool" where
  "codec_ok cd \<longleftrightarrow> (\<forall>m. type_of (cd m) = type_of m)"

text \<open>
  What a client may get when the server's method ended with \<open>r\<close>: its answer as decoded, or an error of
  the transport, with the method run or not run.
\<close>

definition delivered ::
  "('ts message \<Rightarrow> 'ts message) \<Rightarrow> 'st \<Rightarrow> (grpc_status + 'ts message) \<times> 'st \<Rightarrow> ('ts, 'st) served \<Rightarrow> bool" where
  "delivered cd st r ans \<longleftrightarrow>
     ans = Some (map_prod (map_sum id cd) id r) \<or> (\<exists>err. ans = Some (Inl err, st) \<or> ans = Some (Inl err, snd r))"

definition transport_ok ::
  "('ts, 'c, 'st) registry \<Rightarrow> ('ts message \<Rightarrow> 'ts message) \<Rightarrow> ('ts, 'c, 'st) ClientConn \<Rightarrow> bool" where
  "transport_ok reg cd cc \<longleftrightarrow>
     (\<forall>ctx st svc desc srv meth h m T. reg svc = Some (desc, srv) \<longrightarrow> map_of (sd_Methods desc) meth = Some h \<longrightarrow>
        (\<exists>dec. dec (type_of m) = Inr (cd m) \<and>
           (\<forall>r. h srv ctx st dec None = Some r \<longrightarrow> (\<forall>p. fst r = Inr p \<longrightarrow> type_of p = T) \<longrightarrow>
              delivered cd st r (cc_Invoke cc ctx st (''/'' @ svc @ ''/'' @ meth) m T))))"

lemma transport_call:
  assumes "transport_ok reg cd cc" "reg svc = Some (desc, srv)" "map_of (sd_Methods desc) meth = Some h"
    and "\<And>dec. dec (type_of m) = Inr (cd m) \<Longrightarrow> h srv ctx st dec None = Some r"
    and "\<And>p. fst r = Inr p \<Longrightarrow> type_of p = T"
  shows "delivered cd st r (cc_Invoke cc ctx st (''/'' @ svc @ ''/'' @ meth) m T)"
proof -
  from assms(1) [unfolded transport_ok_def, rule_format, OF assms(2,3), of m ctx st T] obtain dec where
    d: "dec (type_of m) = Inr (cd m)" "\<And>r. h srv ctx st dec None = Some r \<Longrightarrow> (\<forall>p. fst r = Inr p \<longrightarrow> type_of p = T) \<Longrightarrow>
      delivered cd st r (cc_Invoke cc ctx st (''/'' @ svc @ ''/'' @ meth) m T)" by blast
  from d(2) [OF assms(4) [of dec, OF d(1)]] assms(5) show ?thesis by blast
qed

lemma map_sum_Inr: "map_sum f g x = Inr y \<longleftrightarrow> (\<exists>z. x = Inr z \<and> y = g z)"
  "Inr y = map_sum f g x \<longleftrightarrow> (\<exists>z. x = Inr z \<and> y = g z)"
  by (cases x; auto)+

text \<open>A method found under the path the stub names is the method of the same request type.\<close>

lemmas handler_defs = ApiKeyService_CreateWorkspace_Handler_def
  ApiKeyService_GetWorkspace_Handler_def
  ApiKeyService_CreateApi_Handler_def
  ApiKeyService_GetApi_Handler_def
  ApiKeyService_CreateKey_Handler_def
  ApiKeyService_RevokeKey_Handler_def
  ApiKeyService_RotateKey_Handler_def
  ApiKeyService_ListKeys_Handler_def
  ApiKeyService_GetKey_Handler_def
  ApiKeyService_VerifyKey_Handler_def

lemmas client_defs = apiKeyServiceClient_CreateWorkspace_def
  apiKeyServiceClient_GetWorkspace_def
  apiKeyServiceClient_CreateApi_def
  apiKeyServiceClient_GetApi_def
  apiKeyServiceClient_CreateKey_def
  apiKeyServiceClient_RevokeKey_def
  apiKeyServiceClient_RotateKey_def
  apiKeyServiceClient_ListKeys_def
  apiKeyServiceClient_GetKey_def
  apiKeyServiceClient_VerifyKey_def

fun rpc_name :: "'ts message \<Rightarrow> string" where
  "rpc_name (M_CreateWorkspaceRequest q) = ''CreateWorkspace''"
| "rpc_name (M_GetWorkspaceRequest q) = ''GetWorkspace''"
| "rpc_name (M_CreateApiRequest q) = ''CreateApi''"
| "rpc_name (M_GetApiRequest q) = ''GetApi''"
| "rpc_name (M_CreateKeyRequest q) = ''CreateKey''"
| "rpc_name (M_RevokeKeyRequest q) = ''RevokeKey''"
| "rpc_name (M_RotateKeyRequest q) = ''RotateKey''"
| "rpc_name (M_ListKeysRequest q) = ''ListKeys''"
| "rpc_name (M_GetKeyRequest q) = ''GetKey''"
| "rpc_name (M_VerifyKeyRequest q) = ''VerifyKey''"
| "rpc_name m = []"

fun response_type :: "'ts message \<Rightarrow> msg_type" where
  "response_type (M_CreateWorkspaceRequest q) = T_CreateWorkspaceResponse"
| "response_type (M_GetWorkspaceRequest q) = T_GetWorkspaceResponse"
| "response_type (M_CreateApiRequest q) = T_CreateApiResponse"
| "response_type (M_GetApiRequest q) = T_GetApiResponse"
| "response_type (M_CreateKeyRequest q) = T_CreateKeyResponse"
| "response_type (M_RevokeKeyRequest q) = T_RevokeKeyResponse"
| "response_type (M_RotateKeyRequest q) = T_RotateKeyResponse"
| "response_type (M_ListKeysRequest q) = T_ListKeysResponse"
| "response_type (M_GetKeyRequest q) = T_GetKeyResponse"
| "response_type (M_VerifyKeyRequest q) = T_VerifyKeyResponse"
| "response_type m = type_of m"

lemma desc_method:
  assumes "is_request m" "type_of m' = type_of m"
  shows "\<exists>h. map_of (sd_Methods ApiKeyService_ServiceDesc) (rpc_name m) = Some h \<and>
    (\<forall>dec. dec (type_of m) = Inr m' \<longrightarrow> h srv ctx st dec None = server_method srv ctx st m')"
  using assms by (cases m; cases m') (simp_all add: ApiKeyService_ServiceDesc_def handler_defs handle_unary_def)

lemma server_method_served:
  assumes "is_request m" "type_of m' = type_of m"
  shows "\<exists>r. server_method srv ctx st m' = Some r \<and> (\<forall>p. fst r = Inr p \<longrightarrow> type_of p = response_type m)"
  using assms by (cases m; cases m') (auto simp: reply_def map_sum_Inr)

text \<open>A stub is a call with its path and returns what the connection returns.\<close>

lemma client_stub_Invoke:
  assumes "is_request m"
    and "cc_Invoke cc ctx st (''/'' @ ''apikey.v1.ApiKeyService'' @ ''/'' @ rpc_name m) m (response_type m) =
      Some (res, st')"
    and "\<And>p. res = Inr p \<Longrightarrow> type_of p = response_type m"
  shows "client_stub cc ctx st m = Some (res, st')"
  using assms by (cases m; cases res; cases "projr res")
    (simp_all add: client_defs FullMethodName_defs ApiKeyService_ServiceDesc_def)

section \<open>From client to handler\<close>

lemma delivered_typed:
  assumes "delivered cd st r (Some (res, st'))" "codec_ok cd" "\<And>p. fst r = Inr p \<Longrightarrow> type_of p = T" "res = Inr p"
  shows "type_of p = T"
  using assms by (cases r) (auto simp: delivered_def codec_ok_def map_sum_Inr)

lemma delivered_Some: "delivered cd st r ans \<Longrightarrow> \<exists>res st'. ans = Some (res, st')"
  by (cases r) (auto simp: delivered_def)

lemma registered:
  "RegisterApiKeyServiceServer reg impl ''apikey.v1.ApiKeyService'' = Some (ApiKeyService_ServiceDesc, impl)"
  by (simp add: RegisterApiKeyServiceServer_def ApiKeyService_ServiceDesc_def)

lemma stub_reaches_method:
  assumes ok: "transport_ok (RegisterApiKeyServiceServer reg impl) cd cc" "codec_ok cd" and m: "is_request m"
  obtains r where "server_method impl ctx st (cd m) = Some r" "delivered cd st r (client_stub cc ctx st m)"
proof -
  have kind: "type_of (cd m) = type_of m" using ok(2) by (simp add: codec_ok_def)
  obtain r where r: "server_method impl ctx st (cd m) = Some r" "\<And>p. fst r = Inr p \<Longrightarrow> type_of p = response_type m"
    using server_method_served [OF m kind, of impl ctx st] by auto
  obtain h where h: "map_of (sd_Methods ApiKeyService_ServiceDesc) (rpc_name m) = Some h"
    "\<And>dec. dec (type_of m) = Inr (cd m) \<Longrightarrow> h impl ctx st dec None = server_method impl ctx st (cd m)"
    using desc_method [OF m kind, of impl ctx st] by auto
  let ?ans = "cc_Invoke cc ctx st (''/'' @ ''apikey.v1.ApiKeyService'' @ ''/'' @ rpc_name m) m (response_type m)"
  have d: "delivered cd st r ?ans"
    by (rule transport_call [OF ok(1) registered h(1)]) (simp_all add: h(2) r)
  from delivered_Some [OF d] obtain res st' where ans: "?ans = Some (res, st')" by (elim exE)
  have "client_stub cc ctx st m = Some (res, st')"
    by (rule client_stub_Invoke [OF m ans]) (rule delivered_typed [OF d [unfolded ans] ok(2) r(2)])
  with that [OF r(1)] d ans show ?thesis by simp
qed

lemma keychain_server_sel:
  "sv_CreateWorkspace (keychain_server L srv) = lift_limiter (Server_CreateWorkspace L srv)"
  "sv_GetWorkspace (keychain_server L srv) = lift_limiter (Server_GetWorkspace L srv)"
  "sv_CreateApi (keychain_server L srv) = lift_limiter (Server_CreateApi L srv)"
  "sv_GetApi (keychain_server L srv) = lift_limiter (Server_GetApi L srv)"
  "sv_CreateKey (keychain_server L srv) = lift_limiter (Server_CreateKey L srv)"
  "sv_RevokeKey (keychain_server L srv) = lift_limiter (Server_RevokeKey srv)"
  "sv_RotateKey (keychain_server L srv) = lift_limiter (Server_RotateKey L srv)"
  "sv_ListKeys (keychain_server L srv) = lift_limiter (Server_ListKeys L srv)"
  "sv_GetKey (keychain_server L srv) = lift_limiter (Server_GetKey L srv)"
  "sv_VerifyKey (keychain_server L srv) = (\<lambda>ctx st req. Server_VerifyKey L srv ctx (fst st) (snd st) req)"
  by (simp_all add: keychain_server_def)

text \<open>No handler of the server is one of the unimplemented ones it embeds.\<close>

definition implemented :: "grpc_status + 'a \<Rightarrow> bool" where
  "implemented res \<longleftrightarrow> (\<forall>msg. res \<noteq> Inl (Status Unimplemented msg))"

lemma implemented_simps [simp]:
  "implemented (Inr v)" "implemented (Inl (Status c msg)) \<longleftrightarrow> c \<noteq> Unimplemented" "implemented (Inl (mapStoreErr err))"
  "implemented (map_sum id f res) \<longleftrightarrow> implemented res"
  by (cases res; auto simp: implemented_def mapStoreErr_def)+

lemma lift_limiter_implemented: "implemented (fst (f ctx (fst st) req)) \<Longrightarrow> implemented (fst (lift_limiter f ctx st req))"
  by (auto simp: lift_limiter_def split: prod.split)

lemma admin_implemented:
  "implemented (fst (Server_CreateWorkspace L srv c s r1))" "implemented (fst (Server_GetWorkspace L srv c s r2))"
  "implemented (fst (Server_CreateApi L srv c s r3))" "implemented (fst (Server_GetApi L srv c s r4))"
  "implemented (fst (Server_CreateKey L srv c s r5))" "implemented (fst (Server_GetKey L srv c s r6))"
  "implemented (fst (Server_RevokeKey srv c s r7))" "implemented (fst (Server_RotateKey L srv c s r8))"
  "implemented (fst (Server_ListKeys L srv c s r9))"
  by (auto simp: Server_CreateWorkspace_def Server_GetWorkspace_def Server_CreateApi_def Server_GetApi_def
      Server_CreateKey_def Server_GetKey_def Server_RevokeKey_def Server_RotateKey_def Server_ListKeys_def Let_def
      split: prod.split sum.split)

lemma verify_implemented: "implemented (fst (Server_VerifyKey L srv c s r req))"
  by (auto simp: Server_VerifyKey_def verify_commit_def Let_def split: prod.split sum.split option.split)

text \<open>
  C23: Between client and server nothing is mixed up. Register the keychain server and call it through the
  generated client over a connection that delivers: whichever of the ten requests is sent, the handler of
  the same name runs on the request as decoded, never one of the unimplemented methods the server embeds,
  and the client gets the handler's response as decoded or its status, or an error of the transport,
  with the handler run or not run; it never panics.
\<close>

theorem client_reaches_handler:
  assumes "transport_ok (RegisterApiKeyServiceServer reg (keychain_server L srv)) cd cc" "codec_ok cd" "is_request m"
  shows "\<exists>r. server_method (keychain_server L srv) ctx st (cd m) = Some r \<and> implemented (fst r) \<and>
    delivered cd st r (client_stub cc ctx st m)"
proof -
  obtain r where r: "server_method (keychain_server L srv) ctx st (cd m) = Some r" "delivered cd st r (client_stub cc ctx st m)"
    by (rule stub_reaches_method [OF assms])
  from r(1) have "implemented (fst r)"
    by (cases "cd m") (auto simp: reply_def keychain_server_sel verify_implemented
        intro!: lift_limiter_implemented admin_implemented)
  with r show ?thesis by blast
qed

section \<open>A connection within one process\<close>

text \<open>Calls are dispatched by their path, nothing is lost and nothing changes on the way.\<close>

definition loopback :: "('ts, 'c, 'st) ApiKeyServiceServer \<Rightarrow> ('ts, 'c, 'st) ClientConn" where
  "loopback srv = \<lparr>cc_Invoke = (\<lambda>ctx st path m T.
     (case find (\<lambda>(name, h). path = ''/apikey.v1.ApiKeyService/'' @ name) (sd_Methods ApiKeyService_ServiceDesc) of
        None \<Rightarrow> Some (Inl (Status Unimplemented (Msg ''unknown method'')), st)
      | Some (name, h) \<Rightarrow>
          h srv ctx st (\<lambda>T. if T = type_of m then Inr m else Inl (Status Internal (Msg ''unmarshal''))) None))\<rparr>"

lemma find_path:
  "map_of xs k = Some h \<Longrightarrow> find (\<lambda>(n, h). pre @ k = pre @ n) xs = Some (k, h)"
  by (induction xs) (auto split: if_splits)

lemma delivered_unchanged: "delivered (\<lambda>m. m) st r (Some r)"
  by (cases r; cases "fst r") (simp_all add: delivered_def)

lemma loopback_ok: "transport_ok (RegisterApiKeyServiceServer Map.empty srv) (\<lambda>m. m) (loopback srv)"
proof -
  have name: "sd_ServiceName ApiKeyService_ServiceDesc = ''apikey.v1.ApiKeyService''"
    by (simp add: ApiKeyService_ServiceDesc_def)
  have "delivered (\<lambda>m. m) st r (cc_Invoke (loopback srv) ctx st (''/'' @ svc @ ''/'' @ meth) m T)"
    if "RegisterApiKeyServiceServer Map.empty srv svc = Some (desc, impl)" "map_of (sd_Methods desc) meth = Some h"
      "h impl ctx st (\<lambda>T. if T = type_of m then Inr m else Inl (Status Internal (Msg ''unmarshal''))) None = Some r"
    for ctx st svc desc impl meth h m T r
  proof -
    from that have svc: "svc = ''apikey.v1.ApiKeyService''" "desc = ApiKeyService_ServiceDesc" "impl = srv"
      by (auto simp: RegisterApiKeyServiceServer_def name split: if_splits)
    with find_path [of "sd_Methods ApiKeyService_ServiceDesc" meth h "''/apikey.v1.ApiKeyService/''"] that
    show ?thesis by (simp add: loopback_def delivered_unchanged)
  qed
  then show ?thesis unfolding transport_ok_def
    by (intro allI impI exI [of _ "\<lambda>T. if T = type_of m then Inr m else Inl (Status Internal (Msg ''unmarshal''))" for m]) auto
qed

theorem client_reaches_handler_witness:
  "\<exists>r. server_method (keychain_server demo_libs (demo_server None)) (demo_call ''2'' []) (demo_store (Some (demo_key 3 [])), ())
       (M_VerifyKeyRequest (the (demo_verify ''secret'' [''read'']))) = Some r \<and>
     delivered (\<lambda>m. m) (demo_store (Some (demo_key 3 [])), ()) r
       (client_stub (loopback (keychain_server demo_libs (demo_server None))) (demo_call ''2'' [])
          (demo_store (Some (demo_key 3 [])), ()) (M_VerifyKeyRequest (the (demo_verify ''secret'' [''read'']))))"
proof -
  have "codec_ok (\<lambda>m. m)" "is_request (M_VerifyKeyRequest q)" for q by (simp_all add: codec_ok_def)
  from client_reaches_handler [OF loopback_ok this(1) this(2)] show ?thesis by blast
qed

end
