(* ===== verification/KC_Client.thy ===== *)
theory KC_Client
  imports KC_Grpc
begin

text \<open>
  The client's side of \<open>gen/apikey/v1/apikey.pb.go\<close>: the getters of the messages a client receives, the
  numbers and names of the result codes, and what a client sees that issues a key and presents it,
  through stubs, connection, handlers and store.
\<close>

section \<open>Getters of resources and responses\<close>

definition Workspace_GetWorkspaceId :: "'ts PB_Workspace option \<Rightarrow> string" where
  "Workspace_GetWorkspaceId x = (case x of Some m \<Rightarrow> Workspace_WorkspaceId m | None \<Rightarrow> [])"

definition Workspace_GetName :: "'ts PB_Workspace option \<Rightarrow> string" where
  "Workspace_GetName x = (case x of Some m \<Rightarrow> Workspace_Name m | None \<Rightarrow> [])"

definition Workspace_GetOwnerPrincipalId :: "'ts PB_Workspace option \<Rightarrow> string" where
  "Workspace_GetOwnerPrincipalId x = (case x of Some m \<Rightarrow> Workspace_OwnerPrincipalId m | None \<Rightarrow> [])"

definition Workspace_GetCreatedAt :: "'ts PB_Workspace option \<Rightarrow> 'ts option" where
  "Workspace_GetCreatedAt x = (case x of Some m \<Rightarrow> Workspace_CreatedAt m | None \<Rightarrow> None)"

definition Workspace_GetUpdatedAt :: "'ts PB_Workspace option \<Rightarrow> 'ts option" where
  "Workspace_GetUpdatedAt x = (case x of Some m \<Rightarrow> Workspace_UpdatedAt m | None \<Rightarrow> None)"

definition Workspace_GetMetadata :: "'ts PB_Workspace option \<Rightarrow> gomap" where
  "Workspace_GetMetadata x = (case x of Some m \<Rightarrow> Workspace_Metadata m | None \<Rightarrow> None)"

definition Api_GetApiId :: "'ts PB_Api option \<Rightarrow> string" where
  "Api_GetApiId x = (case x of Some m \<Rightarrow> Api_ApiId m | None \<Rightarrow> [])"

definition Api_GetWorkspaceId :: "'ts PB_Api option \<Rightarrow> string" where
  "Api_GetWorkspaceId x = (case x of Some m \<Rightarrow> Api_WorkspaceId m | None \<Rightarrow> [])"

definition Api_GetName :: "'ts PB_Api option \<Rightarrow> string" where
  "Api_GetName x = (case x of Some m \<Rightarrow> Api_Name m | None \<Rightarrow> [])"

definition Api_GetKeyPrefix :: "'ts PB_Api option \<Rightarrow> string" where
  "Api_GetKeyPrefix x = (case x of Some m \<Rightarrow> Api_KeyPrefix m | None \<Rightarrow> [])"

definition Api_GetCreatedAt :: "'ts PB_Api option \<Rightarrow> 'ts option" where
  "Api_GetCreatedAt x = (case x of Some m \<Rightarrow> Api_CreatedAt m | None \<Rightarrow> None)"

definition Api_GetUpdatedAt :: "'ts PB_Api option \<Rightarrow> 'ts option" where
  "Api_GetUpdatedAt x = (case x of Some m \<Rightarrow> Api_UpdatedAt m | None \<Rightarrow> None)"

definition Api_GetMetadata :: "'ts PB_Api option \<Rightarrow> gomap" where
  "Api_GetMetadata x = (case x of Some m \<Rightarrow> Api_Metadata m | None \<Rightarrow> None)"

definition ApiKey_GetKeyId :: "'ts PB_ApiKey option \<Rightarrow> string" where
  "ApiKey_GetKeyId x = (case x of Some m \<Rightarrow> ApiKey_KeyId m | None \<Rightarrow> [])"

definition ApiKey_GetApiId :: "'ts PB_ApiKey option \<Rightarrow> string" where
  "ApiKey_GetApiId x = (case x of Some m \<Rightarrow> ApiKey_ApiId m | None \<Rightarrow> [])"

definition ApiKey_GetWorkspaceId :: "'ts PB_ApiKey option \<Rightarrow> string" where
  "ApiKey_GetWorkspaceId x = (case x of Some m \<Rightarrow> ApiKey_WorkspaceId m | None \<Rightarrow> [])"

definition ApiKey_GetOwnerPrincipalId :: "'ts PB_ApiKey option \<Rightarrow> string" where
  "ApiKey_GetOwnerPrincipalId x = (case x of Some m \<Rightarrow> ApiKey_OwnerPrincipalId m | None \<Rightarrow> [])"

definition ApiKey_GetName :: "'ts PB_ApiKey option \<Rightarrow> string" where
  "ApiKey_GetName x = (case x of Some m \<Rightarrow> ApiKey_Name m | None \<Rightarrow> [])"

definition ApiKey_GetPermissions :: "'ts PB_ApiKey option \<Rightarrow> string list" where
  "ApiKey_GetPermissions x = (case x of Some m \<Rightarrow> ApiKey_Permissions m | None \<Rightarrow> [])"

definition ApiKey_GetLimitRefs :: "'ts PB_ApiKey option \<Rightarrow> PB_LimitRef option list" where
  "ApiKey_GetLimitRefs x = (case x of Some m \<Rightarrow> ApiKey_LimitRefs m | None \<Rightarrow> [])"

definition ApiKey_GetExpiresAt :: "'ts PB_ApiKey option \<Rightarrow> 'ts option" where
  "ApiKey_GetExpiresAt x = (case x of Some m \<Rightarrow> ApiKey_ExpiresAt m | None \<Rightarrow> None)"

definition ApiKey_GetRemainingUses :: "'ts PB_ApiKey option \<Rightarrow> int64" where
  "ApiKey_GetRemainingUses x = (case x of Some m \<Rightarrow> ApiKey_RemainingUses m | None \<Rightarrow> 0)"

definition ApiKey_GetEnabled :: "'ts PB_ApiKey option \<Rightarrow> bool" where
  "ApiKey_GetEnabled x = (case x of Some m \<Rightarrow> ApiKey_Enabled m | None \<Rightarrow> False)"

definition ApiKey_GetCreatedAt :: "'ts PB_ApiKey option \<Rightarrow> 'ts option" where
  "ApiKey_GetCreatedAt x = (case x of Some m \<Rightarrow> ApiKey_CreatedAt m | None \<Rightarrow> None)"

definition ApiKey_GetUpdatedAt :: "'ts PB_ApiKey option \<Rightarrow> 'ts option" where
  "ApiKey_GetUpdatedAt x = (case x of Some m \<Rightarrow> ApiKey_UpdatedAt m | None \<Rightarrow> None)"

definition ApiKey_GetLastVerifiedAt :: "'ts PB_ApiKey option \<Rightarrow> 'ts option" where
  "ApiKey_GetLastVerifiedAt x = (case x of Some m \<Rightarrow> ApiKey_LastVerifiedAt m | None \<Rightarrow> None)"

definition ApiKey_GetMetadata :: "'ts PB_ApiKey option \<Rightarrow> gomap" where
  "ApiKey_GetMetadata x = (case x of Some m \<Rightarrow> ApiKey_Metadata m | None \<Rightarrow> None)"

definition CreateWorkspaceResponse_GetWorkspace :: "'ts PB_CreateWorkspaceResponse option \<Rightarrow> 'ts PB_Workspace option" where
  "CreateWorkspaceResponse_GetWorkspace x = (case x of Some m \<Rightarrow> CreateWorkspaceResponse_Workspace m | None \<Rightarrow> None)"

definition GetWorkspaceResponse_GetWorkspace :: "'ts PB_GetWorkspaceResponse option \<Rightarrow> 'ts PB_Workspace option" where
  "GetWorkspaceResponse_GetWorkspace x = (case x of Some m \<Rightarrow> GetWorkspaceResponse_Workspace m | None \<Rightarrow> None)"

definition CreateApiResponse_GetApi :: "'ts PB_CreateApiResponse option \<Rightarrow> 'ts PB_Api option" where
  "CreateApiResponse_GetApi x = (case x of Some m \<Rightarrow> CreateApiResponse_Api m | None \<Rightarrow> None)"

definition GetApiResponse_GetApi :: "'ts PB_GetApiResponse option \<Rightarrow> 'ts PB_Api option" where
  "GetApiResponse_GetApi x = (case x of Some m \<Rightarrow> GetApiResponse_Api m | None \<Rightarrow> None)"

definition CreateKeyResponse_GetKey :: "'ts PB_CreateKeyResponse option \<Rightarrow> 'ts PB_ApiKey option" where
  "CreateKeyResponse_GetKey x = (case x of Some m \<Rightarrow> CreateKeyResponse_Key m | None \<Rightarrow> None)"

definition CreateKeyResponse_GetPlaintext :: "'ts PB_CreateKeyResponse option \<Rightarrow> string" where
  "CreateKeyResponse_GetPlaintext x = (case x of Some m \<Rightarrow> CreateKeyResponse_Plaintext m | None \<Rightarrow> [])"

definition LimitDecision_GetLimitId :: "PB_LimitDecision option \<Rightarrow> string" where
  "LimitDecision_GetLimitId x = (case x of Some m \<Rightarrow> LimitDecision_LimitId m | None \<Rightarrow> [])"

definition LimitDecision_GetScopeKey :: "PB_LimitDecision option \<Rightarrow> string" where
  "LimitDecision_GetScopeKey x = (case x of Some m \<Rightarrow> LimitDecision_ScopeKey m | None \<Rightarrow> [])"

definition LimitDecision_GetAllowed :: "PB_LimitDecision option \<Rightarrow> bool" where
  "LimitDecision_GetAllowed x = (case x of Some m \<Rightarrow> LimitDecision_Allowed m | None \<Rightarrow> False)"

definition LimitDecision_GetRemaining :: "PB_LimitDecision option \<Rightarrow> int64" where
  "LimitDecision_GetRemaining x = (case x of Some m \<Rightarrow> LimitDecision_Remaining m | None \<Rightarrow> 0)"

definition LimitDecision_GetRetryAfterMs :: "PB_LimitDecision option \<Rightarrow> int64" where
  "LimitDecision_GetRetryAfterMs x = (case x of Some m \<Rightarrow> LimitDecision_RetryAfterMs m | None \<Rightarrow> 0)"

definition VerifyKeyResponse_GetValid :: "PB_VerifyKeyResponse option \<Rightarrow> bool" where
  "VerifyKeyResponse_GetValid x = (case x of Some m \<Rightarrow> VerifyKeyResponse_Valid m | None \<Rightarrow> False)"

definition VerifyKeyResponse_GetResult :: "PB_VerifyKeyResponse option \<Rightarrow> VerifyResult" where
  "VerifyKeyResponse_GetResult x = (case x of Some m \<Rightarrow> VerifyKeyResponse_Result m | None \<Rightarrow> VERIFY_RESULT_UNSPECIFIED)"

definition VerifyKeyResponse_GetKeyId :: "PB_VerifyKeyResponse option \<Rightarrow> string" where
  "VerifyKeyResponse_GetKeyId x = (case x of Some m \<Rightarrow> VerifyKeyResponse_KeyId m | None \<Rightarrow> [])"

definition VerifyKeyResponse_GetApiId :: "PB_VerifyKeyResponse option \<Rightarrow> string" where
  "VerifyKeyResponse_GetApiId x = (case x of Some m \<Rightarrow> VerifyKeyResponse_ApiId m | None \<Rightarrow> [])"

definition VerifyKeyResponse_GetWorkspaceId :: "PB_VerifyKeyResponse option \<Rightarrow> string" where
  "VerifyKeyResponse_GetWorkspaceId x = (case x of Some m \<Rightarrow> VerifyKeyResponse_WorkspaceId m | None \<Rightarrow> [])"

definition VerifyKeyResponse_GetOwnerPrincipalId :: "PB_VerifyKeyResponse option \<Rightarrow> string" where
  "VerifyKeyResponse_GetOwnerPrincipalId x = (case x of Some m \<Rightarrow> VerifyKeyResponse_OwnerPrincipalId m | None \<Rightarrow> [])"

definition VerifyKeyResponse_GetPermissions :: "PB_VerifyKeyResponse option \<Rightarrow> string list" where
  "VerifyKeyResponse_GetPermissions x = (case x of Some m \<Rightarrow> VerifyKeyResponse_Permissions m | None \<Rightarrow> [])"

definition VerifyKeyResponse_GetLimitDecisions :: "PB_VerifyKeyResponse option \<Rightarrow> PB_LimitDecision option list" where
  "VerifyKeyResponse_GetLimitDecisions x = (case x of Some m \<Rightarrow> VerifyKeyResponse_LimitDecisions m | None \<Rightarrow> [])"

definition RotateKeyResponse_GetKey :: "'ts PB_RotateKeyResponse option \<Rightarrow> 'ts PB_ApiKey option" where
  "RotateKeyResponse_GetKey x = (case x of Some m \<Rightarrow> RotateKeyResponse_Key m | None \<Rightarrow> None)"

definition RotateKeyResponse_GetPlaintext :: "'ts PB_RotateKeyResponse option \<Rightarrow> string" where
  "RotateKeyResponse_GetPlaintext x = (case x of Some m \<Rightarrow> RotateKeyResponse_Plaintext m | None \<Rightarrow> [])"

definition ListKeysResponse_GetKeys :: "'ts PB_ListKeysResponse option \<Rightarrow> 'ts PB_ApiKey option list" where
  "ListKeysResponse_GetKeys x = (case x of Some m \<Rightarrow> ListKeysResponse_Keys m | None \<Rightarrow> [])"

definition ListKeysResponse_GetNextPageToken :: "'ts PB_ListKeysResponse option \<Rightarrow> string" where
  "ListKeysResponse_GetNextPageToken x = (case x of Some m \<Rightarrow> ListKeysResponse_NextPageToken m | None \<Rightarrow> [])"

definition GetKeyResponse_GetKey :: "'ts PB_GetKeyResponse option \<Rightarrow> 'ts PB_ApiKey option" where
  "GetKeyResponse_GetKey x = (case x of Some m \<Rightarrow> GetKeyResponse_Key m | None \<Rightarrow> None)"

lemmas client_getter_defs =
  Workspace_GetWorkspaceId_def Workspace_GetName_def Workspace_GetOwnerPrincipalId_def
  Workspace_GetCreatedAt_def Workspace_GetUpdatedAt_def Workspace_GetMetadata_def Api_GetApiId_def
  Api_GetWorkspaceId_def Api_GetName_def Api_GetKeyPrefix_def Api_GetCreatedAt_def
  Api_GetUpdatedAt_def Api_GetMetadata_def ApiKey_GetKeyId_def ApiKey_GetApiId_def
  ApiKey_GetWorkspaceId_def ApiKey_GetOwnerPrincipalId_def ApiKey_GetName_def
  ApiKey_GetPermissions_def ApiKey_GetLimitRefs_def ApiKey_GetExpiresAt_def
  ApiKey_GetRemainingUses_def ApiKey_GetEnabled_def ApiKey_GetCreatedAt_def ApiKey_GetUpdatedAt_def
  ApiKey_GetLastVerifiedAt_def ApiKey_GetMetadata_def CreateWorkspaceResponse_GetWorkspace_def
  GetWorkspaceResponse_GetWorkspace_def CreateApiResponse_GetApi_def GetApiResponse_GetApi_def
  CreateKeyResponse_GetKey_def CreateKeyResponse_GetPlaintext_def LimitDecision_GetLimitId_def
  LimitDecision_GetScopeKey_def LimitDecision_GetAllowed_def LimitDecision_GetRemaining_def
  LimitDecision_GetRetryAfterMs_def VerifyKeyResponse_GetValid_def VerifyKeyResponse_GetResult_def
  VerifyKeyResponse_GetKeyId_def VerifyKeyResponse_GetApiId_def VerifyKeyResponse_GetWorkspaceId_def
  VerifyKeyResponse_GetOwnerPrincipalId_def VerifyKeyResponse_GetPermissions_def
  VerifyKeyResponse_GetLimitDecisions_def RotateKeyResponse_GetKey_def
  RotateKeyResponse_GetPlaintext_def ListKeysResponse_GetKeys_def
  ListKeysResponse_GetNextPageToken_def GetKeyResponse_GetKey_def

section \<open>Result codes\<close>

primrec VerifyResult_Number :: "VerifyResult \<Rightarrow> int32" where
  "VerifyResult_Number VERIFY_RESULT_UNSPECIFIED = 0"
| "VerifyResult_Number VERIFY_RESULT_VALID = 1"
| "VerifyResult_Number VERIFY_RESULT_NOT_FOUND = 2"
| "VerifyResult_Number VERIFY_RESULT_REVOKED = 3"
| "VerifyResult_Number VERIFY_RESULT_EXPIRED = 4"
| "VerifyResult_Number VERIFY_RESULT_DEPLETED = 5"
| "VerifyResult_Number VERIFY_RESULT_FORBIDDEN = 6"
| "VerifyResult_Number VERIFY_RESULT_RATE_LIMITED = 7"

definition VerifyResult_name :: "int32 \<rightharpoonup> string" where
  "VerifyResult_name = map_of [
     (0, ''VERIFY_RESULT_UNSPECIFIED''),
     (1, ''VERIFY_RESULT_VALID''),
     (2, ''VERIFY_RESULT_NOT_FOUND''),
     (3, ''VERIFY_RESULT_REVOKED''),
     (4, ''VERIFY_RESULT_EXPIRED''),
     (5, ''VERIFY_RESULT_DEPLETED''),
     (6, ''VERIFY_RESULT_FORBIDDEN''),
     (7, ''VERIFY_RESULT_RATE_LIMITED'')]"

definition VerifyResult_value :: "string \<rightharpoonup> int32" where
  "VerifyResult_value = map_of [
     (''VERIFY_RESULT_UNSPECIFIED'', 0),
     (''VERIFY_RESULT_VALID'', 1),
     (''VERIFY_RESULT_NOT_FOUND'', 2),
     (''VERIFY_RESULT_REVOKED'', 3),
     (''VERIFY_RESULT_EXPIRED'', 4),
     (''VERIFY_RESULT_DEPLETED'', 5),
     (''VERIFY_RESULT_FORBIDDEN'', 6),
     (''VERIFY_RESULT_RATE_LIMITED'', 7)]"

text \<open>\<open>String\<close> is the declared name of the number.\<close>

definition VerifyResult_String :: "VerifyResult \<Rightarrow> string" where
  "VerifyResult_String x = (case VerifyResult_name (VerifyResult_Number x) of Some s \<Rightarrow> s | None \<Rightarrow> [])"

lemma result_code_read_back: "VerifyResult_value (VerifyResult_String x) = Some (VerifyResult_Number x)"
  by (cases x) (simp_all add: VerifyResult_String_def VerifyResult_name_def VerifyResult_value_def)

lemma result_code_inject: "VerifyResult_String x = VerifyResult_String y \<longleftrightarrow> x = y"
proof
  assume "VerifyResult_String x = VerifyResult_String y"
  then have "VerifyResult_Number x = VerifyResult_Number y" using result_code_read_back by (metis option.inject)
  then show "x = y" by (cases x; cases y) simp_all
qed simp

section \<open>Issue and verify\<close>

text \<open>A connection that changes no message: what a stub returns without an error is the handler's answer.\<close>

lemma stub_answer:
  assumes "transport_ok (RegisterApiKeyServiceServer reg (keychain_server L srv)) (\<lambda>m. m) cc" "is_request m"
  shows "\<exists>r. server_method (keychain_server L srv) ctx st m = Some r \<and> delivered (\<lambda>m. m) st r (client_stub cc ctx st m)"
proof -
  have "codec_ok (\<lambda>m. m)" by (simp add: codec_ok_def)
  from stub_reaches_method [OF assms(1) this assms(2)] show ?thesis by blast
qed

lemma map_sum_Inl: "map_sum id f x = Inl e \<longleftrightarrow> x = Inl e"
  by (cases x) simp_all

lemma issued_by_stub:
  assumes "transport_ok (RegisterApiKeyServiceServer reg (keychain_server L srv)) (\<lambda>m. m) cc"
    and "apiKeyServiceClient_CreateKey cc ctx st q = Some (Inr resp, st1)"
  shows "Server_CreateKey L srv ctx (fst st) (Some q) = (Inr resp, fst st1)"
proof -
  obtain r where "server_method (keychain_server L srv) ctx st (M_CreateKeyRequest q) = Some r"
    "delivered (\<lambda>m. m) st r (client_stub cc ctx st (M_CreateKeyRequest q))"
    using stub_answer [OF assms(1), of "M_CreateKeyRequest q"] by (metis is_request.simps(5))
  with assms(2) show ?thesis
    by (auto simp: delivered_def reply_def keychain_server_sel lift_limiter_def map_sum_Inr
        split: prod.splits)
qed

text \<open>
  C9: A client that issues a key and presents it. Over a connection to the keychain server with the
  in-memory store, if the stub \<open>CreateKey\<close> returned a response, the stub \<open>VerifyKey\<close> on the
  plaintext read from it, with permissions among those requested and before the requested expiry,
  returns; unless it is a transport error, the getters read that the key is valid, with the
  identifier of the issued key and the API, owner and permissions that were asked for (keys with limit
  references need the limiter, which this statement leaves out).
\<close>

theorem client_issues_and_verifies:
  assumes "transport_ok (RegisterApiKeyServiceServer reg (keychain_server L srv)) (\<lambda>m. m) cc"
    and "srv_store srv = mem_Store" "mem_inv (fst st)" "mem_call_ok ctx (fst st)"
    and "apiKeyServiceClient_CreateKey cc ctx st q = Some (Inr resp, st1)"
    and "VerifyKeyRequest_Plaintext v = CreateKeyResponse_GetPlaintext (Some resp)"
      "set (VerifyKeyRequest_RequiredPermissions v) \<subseteq> set (CreateKeyRequest_Permissions q)"
      "VerifyKeyRequest_SkipRatelimit v \<or> CreateKeyRequest_LimitRefs q = []"
    and "\<And>t. timeFromProto L (CreateKeyRequest_ExpiresAt q) = Some t \<Longrightarrow> c_now ctx2 < t"
  shows "\<exists>ans st2. apiKeyServiceClient_VerifyKey cc ctx2 st1 v = Some (ans, st2) \<and>
    (\<forall>p. ans = Inr p \<longrightarrow>
       VerifyKeyResponse_GetValid (Some p) \<and>
       VerifyResult_String (VerifyKeyResponse_GetResult (Some p)) = ''VERIFY_RESULT_VALID'' \<and>
       VerifyKeyResponse_GetKeyId (Some p) = ApiKey_GetKeyId (CreateKeyResponse_GetKey (Some resp)) \<and>
       VerifyKeyResponse_GetApiId (Some p) = CreateKeyRequest_ApiId q \<and>
       VerifyKeyResponse_GetOwnerPrincipalId (Some p) = CreateKeyRequest_OwnerPrincipalId q \<and>
       VerifyKeyResponse_GetPermissions (Some p) = CreateKeyRequest_Permissions q)"
proof -
  have create: "Server_CreateKey L srv ctx (fst st) (Some q) = (Inr resp, fst st1)"
    by (rule issued_by_stub [OF assms(1,5)])
  obtain pk p s2 where key: "CreateKeyResponse_Key resp = Some pk"
    and verify: "Server_VerifyKey L srv ctx2 (fst st1) (snd st1) (Some v) = (Inr p, s2, snd st1)"
    and p: "VerifyKeyResponse_Valid p" "VerifyKeyResponse_Result p = VERIFY_RESULT_VALID"
      "VerifyKeyResponse_KeyId p = ApiKey_KeyId pk" "VerifyKeyResponse_ApiId p = CreateKeyRequest_ApiId q"
      "VerifyKeyResponse_OwnerPrincipalId p = CreateKeyRequest_OwnerPrincipalId q"
      "VerifyKeyResponse_Permissions p = CreateKeyRequest_Permissions q"
    using issued_key_verifies [OF assms(3,4,2) create, of "Some v" ctx2 "snd st1"] assms(6-9)
    by (auto simp: client_getter_defs)
  obtain r where "server_method (keychain_server L srv) ctx2 st1 (M_VerifyKeyRequest v) = Some r"
    "delivered (\<lambda>m. m) st1 r (client_stub cc ctx2 st1 (M_VerifyKeyRequest v))"
    using stub_answer [OF assms(1), of "M_VerifyKeyRequest v"] by (metis is_request.simps(10))
  then obtain ans st2 where "apiKeyServiceClient_VerifyKey cc ctx2 st1 v = Some (ans, st2)" "ans = Inr p \<or> (\<exists>err. ans = Inl err)"
    using verify by (auto simp: delivered_def reply_def keychain_server_sel map_sum_Inr map_sum_Inl)
  then show ?thesis
    by (intro exI [of _ ans] exI [of _ st2])
      (auto simp: client_getter_defs key p VerifyResult_String_def VerifyResult_name_def)
qed

lemma loopback_CreateKey:
  "apiKeyServiceClient_CreateKey (loopback srv) ctx st q = Some (sv_CreateKey srv ctx st (Some q))"
  by (cases "sv_CreateKey srv ctx st (Some q)"; cases "fst (sv_CreateKey srv ctx st (Some q))")
    (simp_all add: apiKeyServiceClient_CreateKey_def loopback_def ApiKeyService_ServiceDesc_def
      FullMethodName_defs handler_defs handle_unary_def reply_def)

theorem client_issues_and_verifies_witness:
  "\<exists>resp st1 ans st2. apiKeyServiceClient_CreateKey (loopback (keychain_server demo_libs (demo_server None)))
      (demo_call ''2'' []) (demo_store None, ()) (the demo_create) = Some (Inr resp, st1) \<and>
    apiKeyServiceClient_VerifyKey (loopback (keychain_server demo_libs (demo_server None)))
      (demo_call ''3'' []) st1 (the (demo_verify demo_secret [''read''])) = Some (ans, st2) \<and>
    (\<forall>p. ans = Inr p \<longrightarrow> VerifyKeyResponse_GetValid (Some p))"
proof -
  let ?cc = "loopback (keychain_server demo_libs (demo_server None))"
  obtain k s' where run: "Server_CreateKey demo_libs (demo_server None :: (_, _, unit) Server) (demo_call ''2'' [])
      (demo_store None) (Some (the demo_create)) =
     (Inr \<lparr>CreateKeyResponse_Key = Some k, CreateKeyResponse_Plaintext = demo_secret\<rparr>, s')"
    using demo_create_run [of None] by (simp only: demo_create_def option.sel) blast
  define resp where "resp = \<lparr>CreateKeyResponse_Key = Some k, CreateKeyResponse_Plaintext = demo_secret\<rparr>"
  have create: "apiKeyServiceClient_CreateKey ?cc (demo_call ''2'' []) (demo_store None, ()) (the demo_create) =
      Some (Inr resp, (s', ()))"
    by (simp add: loopback_CreateKey keychain_server_sel lift_limiter_def run resp_def)
  have st: "mem_inv (fst (demo_store None, ()))" "mem_call_ok (demo_call ''2'' []) (fst (demo_store None, ()))"
    using demo_inv(1) demo_call_ok(1) by simp_all
  let ?v = "the (demo_verify demo_secret [''read''])"
  have v: "VerifyKeyRequest_Plaintext ?v = CreateKeyResponse_GetPlaintext (Some resp)"
    "set (VerifyKeyRequest_RequiredPermissions ?v) \<subseteq> set (CreateKeyRequest_Permissions (the demo_create))"
    "VerifyKeyRequest_SkipRatelimit ?v \<or> CreateKeyRequest_LimitRefs (the demo_create) = []"
    "\<And>t. timeFromProto demo_libs (CreateKeyRequest_ExpiresAt (the demo_create)) = Some t \<Longrightarrow> c_now (demo_call ''3'' []) < t"
    by (auto simp: demo_verify_def demo_create_def timeFromProto_def demo_libs_def demo_call_def
        client_getter_defs resp_def)
  from client_issues_and_verifies [OF loopback_ok demo_server_sel(1) st create v] create show ?thesis by blast
qed

end
