(* ===== verification/Spec2Isabelle.thy ===== *)
theory Spec2Isabelle
  imports KC_PgConcurrent KC_Embedded KC_PgHeap KC_Mutex KC_Client
begin

text \<open>
  A verification library for keychain, an API-key service written in Go: it issues bearer keys,
  verifies them on a hot path (existence, revocation, expiry, credit, permissions, rate limits),
  rotates, revokes and lists them, over an in-memory or a Postgres store.

  \<^bold>\<open>The program and its model.\<close> One theory per component; definitions keep the names of the sources
  (a prefix tells the packages apart).

  \<^item> \<open>KC_Prelude\<close>: Go types (strings as byte lists, fixed-width integers as words, times as
    nanoseconds, nil-able maps as options), error chains with \<open>errors.Is\<close>, sorted-list lemmas.
  \<^item> \<open>KC_Sha256\<close>: SHA-256 at word level, as \<open>crypto/sha256\<close> computes it.
  \<^item> \<open>KC_Keymat\<close> (\<open>pkg/keymat/keymat.go\<close>): entropy, base32, \<open>New\<close>, \<open>Hash\<close>, \<open>HashEqual\<close> (the
    constant-time comparison at word level), \<open>Validate\<close>.
  \<^item> \<open>KC_Store\<close> (\<open>keychainserver/store/store.go\<close>): the records, the \<open>Store\<close> interface as a record of
    functions, and its contract, the locale \<open>store_contract\<close>: a driver is described by an invariant and
    a view of its state (the records the read methods return), and each law gives the result and the
    effect of a method on that view, error cases included. Its laws are those both drivers keep;
    \<open>strict_store_contract\<close> extends it to the wording of the interface's comments in the two cases
    where the drivers differ.
  \<^item> \<open>KC_Memory\<close> (\<open>store/memory/memory.go\<close>): all twelve methods, with the hash index, the map-range
    order and the binary search of the listing; interprets the contract as \<open>mem\<close>
    and the strict one as \<open>mem_strict\<close>.
  \<^item> \<open>KC_Postgres\<close> (\<open>store/postgres/postgres.go\<close>, \<open>migrations/0001_init.up.sql\<close>): tables with the
    constraints of the schema, each SQL statement, all twelve methods with their error paths, opening
    and migrating; the locale \<open>pg_database\<close> fixes the database's libraries and is a sublocale of the
    contract; \<open>pg_micro\<close> is a concrete instance.
  \<^item> \<open>KC_Wire\<close> (\<open>gen/apikey/v1/apikey.pb.go\<close>): the messages and the nil-safe getters.
  \<^item> \<open>KC_Grpc\<close> (\<open>gen/apikey/v1/apikey_grpc.pb.go\<close>): the client stubs, the server handlers and the service
    description that joins them by name, over a connection that is a parameter.
  \<^item> \<open>KC_Client\<close> (\<open>apikey.pb.go\<close> again): the accessors of a client, and issuing and presenting a key through
    stubs, connection, handlers and store.
  \<^item> \<open>KC_Server\<close> (\<open>keychainserver/options.go\<close>, \<open>server.go\<close>): options, converters, error mapping and the
    ten RPC handlers over any store; a handler takes what the world supplies during the call (clock,
    uuids, random bytes, faults) and the states of store and limiter, and returns the response or a
    gRPC status with the new states.
  \<^item> \<open>KC_Service\<close>: what the handlers promise, proved once in \<open>store_contract\<close> and inherited by both
    drivers: \<open>verify_rel\<close>, the abstract verification, and its refinement by \<open>VerifyKey\<close>; \<open>admin_step\<close> and
    \<open>view_step\<close>, the ways an RPC may change the records, and that every RPC is such a step; runs of the
    service (\<open>rpc_reachable\<close>) and what they keep.
  \<^item> \<open>KC_Paging\<close>: clients that page through \<open>ListKeys\<close>. The fuel of \<open>list_every_page\<close> bounds the number
    of calls; one more than the number of matching keys is proved to be enough.
  \<^item> \<open>KC_MemoryService\<close>: the service over the in-memory driver, with sample runs as witnesses.
  \<^item> \<open>KC_Concurrent\<close>: \<open>VerifyKey\<close> cut at its store calls, and arbitrary interleavings of
    verifications with revocations, rotations and creations.
  \<^item> \<open>KC_PgConcurrent\<close>: the same over Postgres, with \<open>DecrementRemainingUses\<close> cut at its two SQL
    statements, faults of statements and lost answers.
  \<^item> \<open>KC_Conformance\<close> (\<open>store/conformance/conformance.go\<close>): the thirty tests that work on values, as
    programs over any store with an outcome, and \<open>Run\<close>; the locale \<open>tested_driver\<close> extends the contract
    by what a test rig supplies, and its lemmas step through the programs; interpreted on both drivers.
  \<^item> \<open>KC_Heap\<close> (\<open>store/memory/memory.go\<close> again): the in-memory driver with slices, pointers and maps as
    addresses of a heap, the clone helpers as allocations; \<open>sep\<close> says that no address the driver holds is
    known to a caller. \<open>heap_run\<close>: calls interleaved with arbitrary writes of the callers.
  \<^item> \<open>KC_Mutex\<close> (\<open>store/memory/memory.go\<close> once more): each method as the sequence of its map accesses under
    the mutex, and goroutines that interleave at single accesses; the locale \<open>guarded_methods\<close> holds what
    the mutex gives, \<open>atomic_step\<close> is the object with atomic methods it is compared with.
  \<^item> \<open>KC_HeapTests\<close>: the five conformance tests that write through shared references, over any driver with
    a heap; the locale \<open>isolated_driver\<close> holds what they need of one.
  \<^item> \<open>KC_PgHeap\<close> (\<open>store/postgres/postgres.go\<close> again): the Postgres driver with its references; rows share
    nothing with callers.
  \<^item> \<open>KC_Text\<close>, \<open>KC_Url\<close>: the parts of the standard library the configuration uses: UTF-8, \<open>strings.ToLower\<close>,
    \<open>strconv.Quote\<close>, the strings of \<open>encoding/json\<close>, and \<open>net/url\<close> (escaping, parsing, query values,
    printing); the locale \<open>component\<close> holds what makes escaped parts readable next to each other, and is
    interpreted for user information, query values and paths.
  \<^item> \<open>KC_Config\<close> (\<open>internal/config/config.go\<close>): loading, validation, redaction, JSON output.
  \<^item> \<open>KC_Main\<close> (\<open>cmd/keychain/main.go\<close>): commands, wiring, the fail-closed limiter, start and shutdown
    as a sequence of effects.
  \<^item> \<open>KC_Fair\<close>: runs under weak fairness and the locale \<open>response\<close>, a rule for progress.
  \<^item> \<open>KC_Process\<close> (\<open>cmd/keychain/main.go\<close>): the goroutines of the command with channels, context and
    timer as a labelled step relation; library calls return at any time, with any result, or never.
  \<^item> \<open>KC_Embedded\<close> (\<open>examples/embedded/main.go\<close>): the example host, as effects and as goroutines.
  \<^item> This theory: properties that relate the two drivers, bounds of pages, the service in a host.

  \<^bold>\<open>What is shown.\<close> Key material carries all its entropy and hashes consistently. Both drivers keep the
  store contract and pass the conformance suite; the in-memory driver keeps the strict contract, and
  what Postgres does instead in the two cases is stated. \<open>VerifyKey\<close> refines its specification; it reports VALID
  only for a key that passes every check, changes nothing otherwise, charges the limiter last, and its
  answers are well formed over any store. Revocation is final, rotation changes only the secret, an
  issued key verifies, a credit of \<open>n\<close> buys exactly \<open>n\<close> verifications, also when verifications race, down
  to single SQL statements. Reachable states keep tenancy, unique hashes and non-negative credit. Callers
  cannot reach into the in-memory driver through shared references, and both drivers pass the tests of
  the suite that try; the in-memory driver's mutex makes its methods atomic to concurrent callers
  (linearizable, no data race, no deadlock, and calls return). A client's call reaches the handler of its
  name. Listing returns the reference page, pages are bounded, and paging ends after showing each key
  once. Stored hashes do not reach the wire. What \<open>print-config\<close> shows does not depend on a password
  in the user information or in a \<open>password\<close> or \<open>sslpassword\<close> parameter that can be decoded (\<open>password_key\<close> and
  \<open>same_but_passwords\<close>, which use none of the redactor's functions), and a connection URL keeps everything else; a password in a query pair that
  the parser drops is not recognised and is printed. The shipped command fails closed, balances opening and closing of the store, its interleaved
  goroutines do what the sequential view says, and shutdown ends in every fair run; the
  example host ends too, and its result is the error of \<open>Serve\<close> unless that is nil, says that the server was
  stopped, or a signal won the select.

  \<^bold>\<open>Parameters.\<close> The hash function (SHA-256 is one instance), protobuf timestamps, uuids, the random
  source, the rate limiter, the Unicode tables, the check of hosts in brackets, the JSON columns of the
  database and the migration tool are arguments of the definitions. What the proofs need of them is named:
  \<open>sha256_ok\<close>, \<open>timestamps_ok\<close>, \<open>mem_env_fresh\<close> and \<open>pg_env_fresh\<close> (a new uuid is unused), \<open>pg_libs_ok\<close>,
  \<open>transport_ok\<close> and \<open>codec_ok\<close> (the gRPC connection, with no interceptor); the test rigs are described by
  \<open>mem_rig_ok\<close>, \<open>pg_rig_ok\<close>, \<open>heap_rig_ok\<close> and \<open>pg_heap_rig_ok\<close>; the calls that have to return for the
  processes to end by \<open>must_return\<close> and \<open>host_must_return\<close>.

  \<^bold>\<open>Not modelled.\<close> Most log output, protobuf reflection, the health and reflection services, and delivery
  of signals. Deadlines and cancellation of requests have no effect on the in-memory driver; over
  Postgres they are failures of statements, which the model has at every statement. The generated
  messages are modelled as far as handlers and stubs use them. JSON columns are read and written
  through the database, so their codec is a parameter of the Postgres driver with the law that
  reading gives back what was written.
\<close>

section \<open>The two drivers\<close>

text \<open>
  C21: The Postgres-backed \<open>VerifyKey\<close> refines the same specification: with the database up, every
  verification returns, keeps the database's constraints, and is a case of the abstract verification
  on the stored keys, with times at the database's resolution.
\<close>

theorem pg_verify_refines_spec:
  assumes "pg_libs_ok P" "pg_inv P db" "srv_store srv = pg_Store P" "\<And>n. pg_env_up (c_env c n)"
  shows "\<exists>res db' r'. Server_VerifyKey L srv c db r req = (res, db', r') \<and> pg_inv P db' \<and>
    verify_rel (lib_sha L) (srv_rl srv) (c_now c) (pl_time P (pe_now (c_env c 1))) (pl_time P (c_now' c)) req
      (pg_view P db) r res (pg_view P db') r'"
proof -
  obtain res db' r' where "Server_VerifyKey L srv c db r req = (res, db', r')" "pg_inv P db'"
    "verify_rel (lib_sha L) (srv_rl srv) (c_now c) (pl_time P (pe_now (c_env c 1))) (pl_time P (c_now' c)) req
      (pg_view P db) r res (pg_view P db') r'"
    by (rule store_contract.verify_refines
        [OF pg_database.contract [OF pg_database.intro [OF assms(1)]] assms(2,4,3)])
  then show ?thesis by blast
qed

definition demo_pg_call :: "pg_env call" where
  "demo_pg_call = \<lparr>c_env = (\<lambda>_. pg_calm ''2''), c_now = 5, c_now' = 6, c_rand = replicate 32 0\<rparr>"

definition demo_pg_server :: "(pg_env, json_doc pg_db, unit) Server" where
  "demo_pg_server = \<lparr>srv_store = pg_Store pg_micro, srv_rl = None\<rparr>"

definition demo_db :: "json_doc pg_db" where
  "demo_db = \<lparr>
     db_workspaces = [\<lparr>wr_workspace_id = ''ws_1'', wr_name = ''acme'', wr_owner_principal_id = ''o'',
       wr_created_at = 0, wr_updated_at = 0, wr_metadata = JObject Map.empty\<rparr>],
     db_apis = [\<lparr>ar_api_id = ''api_1'', ar_workspace_id = ''ws_1'', ar_name = ''prod'', ar_key_prefix = ''ck_'',
       ar_created_at = 0, ar_updated_at = 0, ar_metadata = JObject Map.empty\<rparr>],
     db_keys = [\<lparr>kr_key_id = ''key_1'', kr_api_id = ''api_1'', kr_workspace_id = ''ws_1'',
       kr_owner_principal_id = ''u'', kr_name = ''k'', kr_key_hash = string_bytes ''secret'',
       kr_permissions = [''read''], kr_limit_refs = JRefs [], kr_expires_at = Some 100, kr_remaining_uses = 3,
       kr_enabled = True, kr_created_at = 0, kr_updated_at = 0, kr_last_verified_at = None,
       kr_metadata = JObject Map.empty\<rparr>]\<rparr>"

lemma demo_db_inv [simp]: "pg_inv pg_micro demo_db"
  by (simp add: pg_inv_def demo_db_def pg_micro_def)

lemma demo_pg_sel [simp]:
  "srv_store demo_pg_server = pg_Store pg_micro" "srv_rl demo_pg_server = None" "pg_env_up (c_env demo_pg_call n)"
  by (simp_all add: demo_pg_server_def demo_pg_call_def)

theorem pg_verify_refines_spec_witness:
  "\<exists>res db' r'. Server_VerifyKey demo_libs demo_pg_server demo_pg_call demo_db ()
      (demo_verify ''secret'' [''read'']) = (res, db', r') \<and> pg_inv pg_micro db'"
  using pg_verify_refines_spec [OF pg_micro_ok demo_db_inv demo_pg_sel(1,3)] by blast

text \<open>
  C22: The drivers agree on verification. If the two stores hold the same keys, the same request at the
  same clock reading and limiter state gets the same response and charges the limiter in the same way,
  whichever driver serves it.
\<close>

theorem drivers_agree_on_verify:
  assumes "pg_libs_ok P" "mem_inv s" "pg_inv P db" "v_keys (pg_view P db) = m_keys s"
    and "srv_store m = mem_Store" "srv_store p = pg_Store P" "srv_rl m = srv_rl p"
    and "\<And>n. pg_env_up (c_env cp n)" "c_now cm = c_now cp"
  shows "fst (Server_VerifyKey L m cm s r req) = fst (Server_VerifyKey L p cp db r req) \<and>
    snd (snd (Server_VerifyKey L m cm s r req)) = snd (snd (Server_VerifyKey L p cp db r req))"
proof -
  note contract = pg_database.contract [OF pg_database.intro [OF assms(1)]]
  let ?pt = "VerifyKeyRequest_GetPlaintext req"
  let ?h = "keymat_Hash (lib_sha L) ?pt"
  have same: "hash_taken (pg_view P db) ?h = hash_taken (mem_view s) ?h"
    using assms(4) by (simp add: hash_taken_def)
  show ?thesis
  proof (cases "?pt = [] \<or> \<not> hash_taken (mem_view s) ?h")
    case True
    then have "Server_VerifyKey L m cm s r req = (Inr notFound, s, r)"
      by (intro mem.verify_miss [OF assms(2) TrueI assms(5)])
    moreover have "Server_VerifyKey L p cp db r req = (Inr notFound, db, r)"
      using True same by (intro store_contract.verify_miss [OF contract assms(3,8,6)]) simp
    ultimately show ?thesis by simp
  next
    case False
    then obtain i k where k: "m_keys s i = Some k" "k_KeyHash k = ?h" and pt: "?pt \<noteq> []"
      by (auto simp: hash_taken_def)
    obtain s' where "Server_VerifyKey L m cm s r req = (fst (verify_outcome (srv_rl m) (c_now cm) req k r), s',
        snd (verify_outcome (srv_rl m) (c_now cm) req k r))"
      using mem.verify_hit_outcome [where c = cm and r = r and i = i, OF assms(2) TrueI assms(5) pt _ k(2)] k(1) by auto
    moreover obtain db' where "Server_VerifyKey L p cp db r req = (fst (verify_outcome (srv_rl p) (c_now cp) req k r),
        db', snd (verify_outcome (srv_rl p) (c_now cp) req k r))"
      using store_contract.verify_hit_outcome [OF contract assms(3,8,6) pt _ k(2), where i = i and r = r] k(1) assms(4) by auto
    ultimately show ?thesis by (simp add: assms(7,9))
  qed
qed

theorem drivers_agree_on_verify_witness:
  "fst (Server_VerifyKey demo_libs (demo_server None) (demo_call ''2'' []) (demo_store (Some (demo_key 3 []))) ()
     (demo_verify ''secret'' [''read''])) =
   fst (Server_VerifyKey demo_libs demo_pg_server demo_pg_call demo_db () (demo_verify ''secret'' [''read'']))"
proof -
  have same: "v_keys (pg_view pg_micro demo_db) = m_keys (demo_store (Some (demo_key 3 [])))"
    by (auto simp: fun_eq_iff pg_view_def demo_db_def lookup_def key_of_row_def pg_micro_def demo_key_def
        unmarshalMetadata_def)
  have clock: "c_now (demo_call ''2'' []) = c_now demo_pg_call" by (simp add: demo_call_def demo_pg_call_def)
  have rl: "srv_rl (demo_server None) = srv_rl demo_pg_server" by simp
  show ?thesis
    using drivers_agree_on_verify [OF pg_micro_ok demo_inv(2) demo_db_inv same demo_server_sel(1) demo_pg_sel(1)
        rl demo_pg_sel(3) clock] by blast
qed

definition pg_call_ok :: "pg_env call \<Rightarrow> 'j pg_db \<Rightarrow> bool" where
  "pg_call_ok = call_ok pg_env_up pg_env_fresh (\<lambda>e s. True)"

text \<open>
  C30: The service over Postgres keeps the same invariants: in every state reached from an empty
  database by any sequence of RPCs with the database up, the constraints of the schema hold, every
  key belongs to the workspace of its API, and no limited key has a negative credit.
\<close>

theorem pg_service_invariant:
  assumes "pg_libs_ok P" "srv_store srv = pg_Store P"
    and "rpc_reachable L srv pg_call_ok (pg_empty, r0) (db, r)"
  shows "pg_inv P db \<and> tenant_ok (pg_view P db) \<and> credit_ok (pg_view P db)"
proof -
  have "pg_inv P pg_empty" by (simp add: pg_inv_def pg_empty_def)
  moreover have "pg_view P pg_empty = empty_view" by (simp add: pg_view_def pg_empty_def empty_view_def fun_eq_iff)
  ultimately show ?thesis
    using store_contract.reachable_ok [OF pg_database.contract [OF pg_database.intro [OF assms(1)]]
        assms(3) [unfolded pg_call_ok_def] assms(2)] by simp
qed

theorem pg_service_invariant_witness:
  "pg_inv pg_micro (snd (Server_CreateWorkspace demo_libs demo_pg_server demo_pg_call pg_empty
     (Some \<lparr>CreateWorkspaceRequest_Name = ''acme'', CreateWorkspaceRequest_OwnerPrincipalId = ''o'',
       CreateWorkspaceRequest_Metadata = None\<rparr>)))"
proof -
  let ?req = "Some \<lparr>CreateWorkspaceRequest_Name = ''acme'',
       CreateWorkspaceRequest_OwnerPrincipalId = ''o'', CreateWorkspaceRequest_Metadata = None\<rparr>"
  have ok: "pg_call_ok demo_pg_call (pg_empty :: json_doc pg_db)"
    by (simp add: pg_call_ok_def call_ok_def pg_env_fresh_def pg_empty_def)
  obtain res db where run: "Server_CreateWorkspace demo_libs demo_pg_server demo_pg_call pg_empty ?req = (res, db)"
    by (rule prod.exhaust)
  have "rpc_reachable demo_libs demo_pg_server pg_call_ok (pg_empty, ()) (db, ())"
    by (rule rpc_reachable.step [OF rpc_reachable.start
        rpc_step.CreateWorkspace [where ok = pg_call_ok, OF ok run]])
  from pg_service_invariant [OF pg_micro_ok demo_pg_sel(1) this] show ?thesis by (simp add: run)
qed

section \<open>Pages\<close>

text \<open>A page: at most the page size, and full when it has a token for the next one.\<close>

definition page_bounded :: "int32 \<Rightarrow> nat \<Rightarrow> string \<Rightarrow> bool" where
  "page_bounded n len tok \<longleftrightarrow> len \<le> page_size n \<and> len < 2 ^ 31 \<and> (tok \<noteq> [] \<longrightarrow> len = page_size n)"

lemma page_size_bound: "page_size n < 2 ^ 31"
  using sint_range_size [of n] by (auto simp: page_size_def word_size)

lemma page_boundedI: "len \<le> page_size n \<Longrightarrow> (tok \<noteq> [] \<Longrightarrow> len = page_size n) \<Longrightarrow> page_bounded n len tok"
  using page_size_bound [of n] by (auto simp: page_bounded_def)

definition result_bounded :: "int32 \<Rightarrow> goerr + ListKeysResult \<Rightarrow> bool" where
  "result_bounded n res \<longleftrightarrow>
     (case res of Inl _ \<Rightarrow> True | Inr page \<Rightarrow> page_bounded n (length (r_Keys page)) (r_NextPageToken page))"

lemma mem_page_bounded: "result_bounded (o_PageSize opts) (fst (mem_ListKeys e s opts))"
  by (auto simp: result_bounded_def mem_ListKeys_def page_size_def Let_def intro!: page_boundedI)

lemma pg_page_bounded: "result_bounded (o_PageSize opts) (fst (pg_ListKeys P e db opts))"
  by (auto simp: result_bounded_def pg_ListKeys_def page_size_def Let_def intro!: page_boundedI
      split: sum.split prod.split option.split)

definition list_bounded :: "PB_ListKeysRequest option \<Rightarrow> grpc_status + 'ts PB_ListKeysResponse \<Rightarrow> bool" where
  "list_bounded req res \<longleftrightarrow>
     (case res of
        Inl _ \<Rightarrow> True
      | Inr resp \<Rightarrow> page_bounded (ListKeysRequest_GetPageSize req) (length (ListKeysResponse_Keys resp))
          (ListKeysResponse_NextPageToken resp))"

lemma list_boundedI:
  assumes "\<And>opts. result_bounded (o_PageSize opts) (fst (ListKeys (srv_store srv) (c_env c 0) s opts))"
  shows "list_bounded req (fst (Server_ListKeys L srv c s req))"
  using assms [of "\<lparr>o_APIID = ListKeysRequest_GetApiId req, o_OwnerPrincipalID = ListKeysRequest_GetOwnerPrincipalId req,
      o_PageSize = ListKeysRequest_GetPageSize req, o_PageToken = ListKeysRequest_GetPageToken req\<rparr>"]
  by (auto simp: list_bounded_def result_bounded_def Server_ListKeys_def split: prod.splits sum.splits)

text \<open>
  C28: Pages are bounded. Over either driver, in any state of the store and with any faults of the
  database, a \<open>ListKeys\<close> response has at most as many keys as the page size asked for (50 if it is zero
  or negative, at most \<open>2^31 - 1\<close>), and if it has a token for a next page it has exactly that many.
\<close>

theorem list_page_bounds:
  assumes "srv_store m = mem_Store" "srv_store p = pg_Store P"
  shows "list_bounded req (fst (Server_ListKeys L m cm s req)) \<and> list_bounded req (fst (Server_ListKeys L p cp db req))"
  by (intro conjI list_boundedI)
    (simp_all add: assms mem_Store_def pg_Store_def mem_page_bounded pg_page_bounded)

definition small_page :: "PB_ListKeysRequest option" where
  "small_page = Some \<lparr>ListKeysRequest_ApiId = ''api_1'', ListKeysRequest_OwnerPrincipalId = [],
     ListKeysRequest_PageSize = 1, ListKeysRequest_PageToken = []\<rparr>"

theorem list_page_bounds_witness:
  "list_bounded small_page (fst (Server_ListKeys demo_libs (demo_server None) (demo_call ''2'' []) (demo_store None) small_page)) \<and>
   list_bounded small_page (fst (Server_ListKeys demo_libs demo_pg_server demo_pg_call demo_db small_page))"
  by (rule list_page_bounds [OF demo_server_sel(1) demo_pg_sel(1)])

section \<open>Where the drivers differ\<close>

text \<open>
  C40: The drivers differ on a key whose workspace does not exist. With the API present, the hash free
  and the workspace of the key missing, the in-memory \<open>CreateKey\<close> stores the key, while the Postgres
  \<open>CreateKey\<close> rejects it, with an error that says the API was not found although it exists. (The
  service never asks for such a key: it takes the workspace from the API.)
\<close>

theorem drivers_differ_on_orphan_key:
  assumes "mem_inv s" "pg_env_up e'" "pg_env_fresh e' db"
    and "k_APIID k \<in> dom (m_apis s)" "\<not> hash_taken (mem_view s) (k_KeyHash k)"
    and "k_KeyHash k \<notin> kr_key_hash ` set (db_keys db)" "k_APIID k \<in> ar_api_id ` set (db_apis db)"
    and "k_WorkspaceID k \<notin> wr_workspace_id ` set (db_workspaces db)"
  shows "(\<exists>k' s'. mem_CreateKey e s k = (Inr k', s') \<and> m_keys s' (k_KeyID k') = Some k') \<and>
    pg_CreateKey P e' db k = (Inl (Wrapf ''api %q: %w'' (Some (k_APIID k)) (Sentinel ErrNotFound)), db)"
proof
  have "bytes_string (k_KeyHash k) \<notin> dom (m_hashIndex s)"
    using assms(1,5) by (simp add: mem_inv_def index_ok_dom)
  then show "\<exists>k' s'. mem_CreateKey e s k = (Inr k', s') \<and> m_keys s' (k_KeyID k') = Some k'"
    using assms(4) by (simp add: mem_CreateKey_def Let_def)
  show "pg_CreateKey P e' db k = (Inl (Wrapf ''api %q: %w'' (Some (k_APIID k)) (Sentinel ErrNotFound)), db)"
    using assms(2,3,6-8) by (simp add: pg_CreateKey_def sql_insert_key_def Let_def pg_env_fresh_def)
qed

theorem drivers_differ_on_orphan_key_witness:
  "pg_CreateKey pg_micro (pg_calm ''2'') demo_db (any_key\<lparr>k_WorkspaceID := ''nowhere''\<rparr>) =
     (Inl (Wrapf ''api %q: %w'' (Some ''api_1'') (Sentinel ErrNotFound)), demo_db)"
proof -
  let ?k = "any_key\<lparr>k_WorkspaceID := ''nowhere''\<rparr>"
  have fresh: "pg_env_fresh (pg_calm ''2'') demo_db"
    by (simp add: pg_env_fresh_def demo_db_def pg_newID_def pg_calm_def)
  have mem: "k_APIID ?k \<in> dom (m_apis (demo_store None))" "\<not> hash_taken (mem_view (demo_store None)) (k_KeyHash ?k)"
    by (simp_all add: demo_store_def any_key_def hash_taken_def)
  have pg: "k_KeyHash ?k \<notin> kr_key_hash ` set (db_keys demo_db)" "k_APIID ?k \<in> ar_api_id ` set (db_apis demo_db)"
    "k_WorkspaceID ?k \<notin> wr_workspace_id ` set (db_workspaces demo_db)"
    by (simp_all add: demo_db_def any_key_def string_bytes_def)
  show ?thesis
    using drivers_differ_on_orphan_key [OF demo_inv(1) pg_calm_up fresh mem pg, of "c_env (demo_call ''2'' []) 0" pg_micro]
    by (simp add: any_key_def)
qed

section \<open>The service in a host program\<close>

text \<open>
  The example host fails closed on rate limits: it mounts the service without a limiter, so a key
  that has limit references is reported valid only if the caller asked to skip the check.
\<close>

theorem embedded_fails_closed:
  assumes "pg_libs_ok P" "pg_inv P db" "embedded_server P = Inr srv" "\<And>n. pg_env_up (c_env c n)"
    and "Server_VerifyKey L srv c db r req = (Inr resp, db', r')" "VerifyKeyResponse_Valid resp"
    and "v_keys (pg_view P db) (VerifyKeyResponse_KeyId resp) = Some k"
  shows "k_LimitRefs k = [] \<or> VerifyKeyRequest_GetSkipRatelimit req"
proof -
  have srv: "srv_store srv = pg_Store P" "srv_rl srv = None"
    using assms(3) by (auto simp: embedded_server_def Server_New_def)
  note contract = pg_database.contract [OF pg_database.intro [OF assms(1)]]
  obtain res db2 r2 where run: "Server_VerifyKey L srv c db r req = (res, db2, r2)"
    and rel: "verify_rel (lib_sha L) (srv_rl srv) (c_now c) (pl_time P (pe_now (c_env c 1))) (pl_time P (c_now' c)) req
      (pg_view P db) r res (pg_view P db2) r2"
    by (rule store_contract.verify_refines [OF contract assms(2,4) srv(1)])
  have res: "res = Inr resp" using run assms(5) by simp
  obtain i k0 where k0: "v_keys (pg_view P db) i = Some k0" "VerifyKeyResponse_KeyId resp = k_KeyID k0"
    and lim: "limiter_consulted req k0 \<longrightarrow> (\<exists>consume ds. srv_rl srv = Some consume)"
    by (rule verify_rel_valid_cases [OF rel [unfolded res] assms(6)]) blast
  have "k0 = k"
    using k0 assms(7) view_okD_key(1) [OF store_contract.view_of_ok [OF contract assms(2)] k0(1)] by simp
  then show ?thesis using lim srv(2) by (auto simp: limiter_consulted_def)
qed

definition limited_db :: "json_doc pg_db" where
  "limited_db = demo_db\<lparr>db_keys := map (\<lambda>r. r\<lparr>kr_limit_refs := JRefs demo_refs\<rparr>) (db_keys demo_db)\<rparr>"

theorem embedded_fails_closed_witness:
  "\<exists>k. v_keys (pg_view pg_micro limited_db) ''key_1'' = Some k \<and> k_LimitRefs k \<noteq> [] \<and>
     (k_LimitRefs k = [] \<or> VerifyKeyRequest_GetSkipRatelimit skip_verify)"
proof -
  let ?k = "demo_key 3 demo_refs"
  have srv: "embedded_server pg_micro = Inr demo_pg_server"
    by (simp add: embedded_server_def Server_New_def demo_pg_server_def)
  have inv: "pg_inv pg_micro limited_db" by (simp add: pg_inv_def limited_db_def demo_db_def pg_micro_def)
  have key: "v_keys (pg_view pg_micro limited_db) ''key_1'' = Some ?k"
    by (simp add: pg_view_def limited_db_def demo_db_def lookup_def key_of_row_def pg_micro_def demo_key_def
        unmarshalMetadata_def)
  have req: "VerifyKeyRequest_GetPlaintext skip_verify \<noteq> []"
    "k_KeyHash ?k = keymat_Hash (lib_sha demo_libs) (VerifyKeyRequest_GetPlaintext skip_verify)"
    by (simp_all add: skip_verify_def demo_verify_def demo_key_def keymat_Hash_def demo_libs_def)
  have out: "verify_outcome (srv_rl demo_pg_server) (c_now demo_pg_call) skip_verify ?k () = (Inr (granted ?k []), ())"
    by (simp add: verify_outcome_def verify_gate_def limiter_consulted_def skip_verify_def demo_verify_def demo_key_def
        demo_pg_call_def)
  from store_contract.verify_hit_outcome [OF micro.contract inv demo_pg_sel(3) demo_pg_sel(1) req(1) key req(2),
      where r = "()"] obtain db' where
    run: "Server_VerifyKey demo_libs demo_pg_server demo_pg_call limited_db () skip_verify = (Inr (granted ?k []), db', ())"
    by (auto simp: out [simplified])
  have id: "VerifyKeyResponse_Valid (granted ?k [])" "VerifyKeyResponse_KeyId (granted ?k []) = ''key_1''"
    by (simp_all add: granted_def verify_response_def demo_key_def)
  from embedded_fails_closed [OF pg_micro_ok inv srv demo_pg_sel(3) run id(1)] key id(2) show ?thesis
    by (auto simp: demo_key_def demo_refs_def)
qed

end
